(* ===== verification/Prelude.thy ===== *)
theory Prelude
  imports Main "HOL-Library.Code_Target_Nat" "HOL-Library.Word" "HOL-Library.Char_ord" "HOL-Library.List_Lexorder" "HOL-Library.AList"
begin

text \<open>
  Shared vocabulary of the development: machine integers with Rust's saturating and checked
  operations, byte strings (a Rust \<open>String\<close> is its UTF-8 bytes, one \<open>char\<close> per byte, so that
  \<open>len\<close>, comparison and the JSON escaper work on bytes as in the code), decimal rendering of
  integers, \<open>str::trim\<close> and friends, association lists standing for \<open>HashMap\<close> and
  sorted association lists standing for \<open>BTreeMap\<close>, and the generic lemmas about them.
\<close>

section \<open>Machine integers\<close>

type_synonym u8 = "8 word"
type_synonym u32 = "32 word"
type_synonym u64 = "64 word"
type_synonym usize = "64 word"
type_synonym u128 = "128 word"

definition sat_add :: "'a::len word \<Rightarrow> 'a word \<Rightarrow> 'a word" where
  "sat_add a b = (if unat a + unat b < 2 ^ LENGTH('a) then a + b else - 1)"

definition sat_sub :: "'a::len word \<Rightarrow> 'a word \<Rightarrow> 'a word" where
  "sat_sub a b = (if a < b then 0 else a - b)"

definition sat_mul :: "'a::len word \<Rightarrow> 'a word \<Rightarrow> 'a word" where
  "sat_mul a b = (if unat a * unat b < 2 ^ LENGTH('a) then a * b else - 1)"

definition usize_of :: "nat \<Rightarrow> usize" where
  "usize_of n = word_of_nat n"

text \<open>The facts about word arithmetic the component proofs use, as one collection.\<close>

named_theorems word_nat "word operations read as natural numbers"

lemma unat_word_max: "unat (- 1 :: 'a::len word) = 2 ^ LENGTH('a) - 1"
  by (simp add: unsigned_minus_1_eq_mask mask_eq_exp_minus_1)

lemma unat_le_max: "unat (a :: 'a::len word) \<le> 2 ^ LENGTH('a) - 1"
proof -
  have "unat a < 2 ^ LENGTH('a)"
    by (rule unsigned_less)
  then show ?thesis by linarith
qed

lemma unat_next: "unat a < 2 ^ 64 - 1 \<Longrightarrow> unat (a + 1 :: 64 word) = Suc (unat a)"
  by (simp add: unat_word_ariths)

lemma unat_sat_add [word_nat]:
  "unat (sat_add a b :: 'a::len word) = min (unat a + unat b) (2 ^ LENGTH('a) - 1)"
  by (auto simp: sat_add_def unat_word_ariths unat_word_max min_def)

lemma unat_sat_sub [word_nat]: "unat (sat_sub a b) = unat a - unat b"
  by (simp add: sat_sub_def word_less_nat_alt unat_sub word_le_nat_alt)

lemma unat_sat_mul [word_nat]:
  "unat (sat_mul a b :: 'a::len word) = min (unat a * unat b) (2 ^ LENGTH('a) - 1)"
proof (cases "unat a * unat b < 2 ^ LENGTH('a)")
  case True
  then have "unat a * unat b \<le> 2 ^ LENGTH('a) - 1"
    by (simp add: Suc_leI le_diff_conv2)
  with True show ?thesis
    by (simp add: sat_mul_def unat_word_ariths min_absorb1)
next
  case False
  then show ?thesis
    by (simp add: sat_mul_def unat_word_max min_absorb2 not_less le_diff_conv)
qed

lemma sat_add_0 [simp]: "sat_add a 0 = a" "sat_add 0 a = a"
  using unat_le_max [of a] by (simp_all add: sat_add_def)

lemma sat_add_commute: "sat_add a b = sat_add b a"
  by (simp add: sat_add_def add.commute)

lemma sat_add_mono: "a \<le> sat_add a b"
  using unat_le_max [of a] by (simp add: word_le_nat_alt unat_sat_add)

lemma sat_add_assoc: "sat_add (sat_add a b) c = sat_add a (sat_add b c)"
proof -
  have *: "min (min x M + y) M = min (x + y) M" "min (x + min y M) M = min (x + y) M" for x y M :: nat
    by (simp_all add: min_def)
  show ?thesis
    by (simp only: word_unat_eq_iff unat_sat_add * add.assoc)
qed

lemma unat_eq_word: "unat a = unat b \<longleftrightarrow> a = b"
  by (simp add: word_unat_eq_iff)

lemma sint_eq_word: "sint a = sint b \<longleftrightarrow> a = b"
  by (metis signed_word_eqI)

lemma unat_less_64: "unat (a :: 64 word) < 2 ^ 64"
  using unsigned_less [of a] by simp

lemma unat_usize_of: "n < 2 ^ 64 \<Longrightarrow> unat (usize_of n) = n"
  by (simp add: usize_of_def unat_of_nat)

section \<open>Results\<close>

text \<open>A Rust \<open>Result<T, E>\<close> is \<open>'e + 'a\<close> with \<open>Inl\<close> for \<open>Err\<close>; \<open>result_bind\<close> is the \<open>?\<close> operator.\<close>

definition result_bind :: "'e + 'a \<Rightarrow> ('a \<Rightarrow> 'e + 'b) \<Rightarrow> 'e + 'b" where
  "result_bind r f = (case r of Inl e \<Rightarrow> Inl e | Inr x \<Rightarrow> f x)"

lemma result_bind_simps [simp]: "result_bind (Inl e) f = Inl e" "result_bind (Inr x) f = f x"
  by (simp_all add: result_bind_def)

lemma result_bind_Inr: "result_bind r f = Inr y \<longleftrightarrow> (\<exists>x. r = Inr x \<and> f x = Inr y)"
  by (cases r) simp_all

lemma result_bind_Inl: "result_bind r f = Inl e \<longleftrightarrow> r = Inl e \<or> (\<exists>x. r = Inr x \<and> f x = Inl e)"
  by (cases r) simp_all

section \<open>Byte strings\<close>

definition byte_of :: "char \<Rightarrow> nat" where
  "byte_of c = of_char c"

definition is_ascii_digit :: "char \<Rightarrow> bool" where
  "is_ascii_digit c \<longleftrightarrow> 48 \<le> byte_of c \<and> byte_of c \<le> 57"

text \<open>
  \<open>char::is_whitespace\<close> is the Unicode property \<open>White_Space\<close>. On UTF-8 bytes its members are the
  one-byte characters 9 to 13 and 32, the two-byte C2 85 and C2 A0, and the three-byte E1 9A 80,
  E2 80 80 to E2 80 8A, E2 80 A8, E2 80 A9, E2 80 AF, E2 81 9F and E3 80 80.
\<close>

definition ws1 :: "nat \<Rightarrow> bool" where
  "ws1 a \<longleftrightarrow> 9 \<le> a \<and> a \<le> 13 \<or> a = 32"

definition ws2 :: "nat \<Rightarrow> nat \<Rightarrow> bool" where
  "ws2 a b \<longleftrightarrow> a = 0xC2 \<and> (b = 0x85 \<or> b = 0xA0)"

definition ws3 :: "nat \<Rightarrow> nat \<Rightarrow> nat \<Rightarrow> bool" where
  "ws3 a b c \<longleftrightarrow> a = 0xE1 \<and> b = 0x9A \<and> c = 0x80
     \<or> a = 0xE2 \<and> b = 0x80 \<and> (0x80 \<le> c \<and> c \<le> 0x8A \<or> c = 0xA8 \<or> c = 0xA9 \<or> c = 0xAF)
     \<or> a = 0xE2 \<and> b = 0x81 \<and> c = 0x9F
     \<or> a = 0xE3 \<and> b = 0x80 \<and> c = 0x80"

fun trim_start :: "string \<Rightarrow> string" where
  "trim_start [] = []"
| "trim_start (a # s) =
     (if ws1 (byte_of a) then trim_start s
      else case s of
        [] \<Rightarrow> a # s
      | b # s' \<Rightarrow>
          (if ws2 (byte_of a) (byte_of b) then trim_start s'
           else case s' of
             [] \<Rightarrow> a # s
           | c # s'' \<Rightarrow> if ws3 (byte_of a) (byte_of b) (byte_of c) then trim_start s'' else a # s))"

fun trim_start_rev :: "string \<Rightarrow> string" where
  "trim_start_rev [] = []"
| "trim_start_rev (c # s) =
     (if ws1 (byte_of c) then trim_start_rev s
      else case s of
        [] \<Rightarrow> c # s
      | b # s' \<Rightarrow>
          (if ws2 (byte_of b) (byte_of c) then trim_start_rev s'
           else case s' of
             [] \<Rightarrow> c # s
           | a # s'' \<Rightarrow> if ws3 (byte_of a) (byte_of b) (byte_of c) then trim_start_rev s'' else c # s))"

definition trim :: "string \<Rightarrow> string" where
  "trim s = rev (trim_start_rev (rev (trim_start s)))"

definition is_blank :: "string \<Rightarrow> bool" where
  "is_blank s \<longleftrightarrow> trim s = []"

definition to_ascii_lowercase :: "string \<Rightarrow> string" where
  "to_ascii_lowercase = map (\<lambda>c. if 65 \<le> byte_of c \<and> byte_of c \<le> 90 then char_of (byte_of c + 32) else c)"

fun strip_prefix :: "string \<Rightarrow> string \<Rightarrow> string option" where
  "strip_prefix [] s = Some s"
| "strip_prefix (p # ps) [] = None"
| "strip_prefix (p # ps) (c # s) = (if p = c then strip_prefix ps s else None)"

fun split_on :: "char \<Rightarrow> string \<Rightarrow> string list" where
  "split_on d [] = [[]]"
| "split_on d (c # s) =
     (if c = d then [] # split_on d s
      else case split_on d s of [] \<Rightarrow> [[c]] | w # ws \<Rightarrow> (c # w) # ws)"

lemma strip_prefix_Some: "strip_prefix p s = Some r \<longleftrightarrow> s = p @ r"
  by (induction p s rule: strip_prefix.induct) auto

section \<open>Decimal rendering\<close>

definition digit_char :: "nat \<Rightarrow> char" where
  "digit_char d = char_of (48 + d)"

fun nat_to_string :: "nat \<Rightarrow> string" where
  "nat_to_string n =
     (if n < 10 then [digit_char n] else nat_to_string (n div 10) @ [digit_char (n mod 10)])"

declare nat_to_string.simps [simp del]

definition int_to_string :: "int \<Rightarrow> string" where
  "int_to_string i = (if i < 0 then CHR ''-'' # nat_to_string (nat (- i)) else nat_to_string (nat i))"

definition digit_value :: "char \<Rightarrow> nat" where
  "digit_value c = byte_of c - 48"

definition string_to_nat :: "string \<Rightarrow> nat" where
  "string_to_nat s = foldl (\<lambda>a c. 10 * a + digit_value c) 0 s"

lemma byte_of_digit_char [simp]: "d < 10 \<Longrightarrow> byte_of (digit_char d) = 48 + d"
  by (simp add: byte_of_def digit_char_def)

lemma digit_value_digit_char [simp]: "d < 10 \<Longrightarrow> digit_value (digit_char d) = d"
  by (simp add: digit_value_def)

lemma is_ascii_digit_digit_char [simp]: "d < 10 \<Longrightarrow> is_ascii_digit (digit_char d)"
  by (simp add: is_ascii_digit_def)

lemma string_to_nat_snoc: "string_to_nat (s @ [c]) = 10 * string_to_nat s + digit_value c"
  by (simp add: string_to_nat_def)

lemma string_to_nat_of_nat [simp]: "string_to_nat (nat_to_string n) = n"
proof (induction n rule: nat_to_string.induct)
  case (1 n)
  show ?case
  proof (cases "n < 10")
    case True
    then show ?thesis by (subst nat_to_string.simps) (simp add: string_to_nat_def)
  next
    case False
    with "1.IH" show ?thesis
      by (subst nat_to_string.simps) (simp add: string_to_nat_snoc)
  qed
qed

lemma nat_to_string_inj [simp]: "nat_to_string a = nat_to_string b \<longleftrightarrow> a = b"
  by (metis string_to_nat_of_nat)

lemma nat_to_string_digits: "c \<in> set (nat_to_string n) \<Longrightarrow> is_ascii_digit c"
proof (induction n rule: nat_to_string.induct)
  case (1 n)
  then show ?case
    by (subst (asm) (2) nat_to_string.simps) (auto split: if_splits)
qed

lemma nat_to_string_nonempty [simp]: "nat_to_string n \<noteq> []"
  by (subst nat_to_string.simps) simp

lemma int_to_string_inj [simp]: "int_to_string i = int_to_string j \<longleftrightarrow> i = j"
proof
  assume eq: "int_to_string i = int_to_string j"
  have no_minus: "nat_to_string n \<noteq> CHR ''-'' # s" for n s
  proof
    assume "nat_to_string n = CHR ''-'' # s"
    then have "is_ascii_digit (CHR ''-'')"
      by (metis list.set_intros(1) nat_to_string_digits)
    then show False by (simp add: is_ascii_digit_def byte_of_def)
  qed
  show "i = j"
    using eq no_minus no_minus [symmetric] by (auto simp: int_to_string_def split: if_splits)
qed simp

lemma int_to_string_chars: "c \<in> set (int_to_string i) \<Longrightarrow> is_ascii_digit c \<or> c = CHR ''-''"
  by (auto simp: int_to_string_def dest: nat_to_string_digits split: if_splits)

text \<open>Text up to a delimiter that does not occur in it is determined by the whole.\<close>

lemma append_delim_eq:
  "c \<notin> set a \<Longrightarrow> c \<notin> set b \<Longrightarrow> a @ c # x = b @ c # y \<longleftrightarrow> a = b \<and> x = y"
proof (induction a arbitrary: b)
  case Nil
  then show ?case by (cases b) auto
next
  case (Cons d a)
  then show ?case by (cases b) auto
qed

section \<open>Association lists\<close>

text \<open>
  A \<open>HashMap\<close> is an association list with distinct keys: its order stands for the map's
  unspecified iteration order, and no lemma about it depends on that order.
\<close>

definition wf_alist :: "('k \<times> 'v) list \<Rightarrow> bool" where
  "wf_alist m \<longleftrightarrow> distinct (map fst m)"

definition alist_put :: "'k \<Rightarrow> 'v \<Rightarrow> ('k \<times> 'v) list \<Rightarrow> ('k \<times> 'v) list" where
  "alist_put k v m = AList.update k v m"

definition alist_remove :: "'k \<Rightarrow> ('k \<times> 'v) list \<Rightarrow> ('k \<times> 'v) list" where
  "alist_remove k m = filter (\<lambda>(k', _). k' \<noteq> k) m"

lemma map_of_alist_put [simp]: "map_of (alist_put k v m) = (map_of m)(k \<mapsto> v)"
  by (simp add: alist_put_def update_conv')

lemma map_of_filter_key: "map_of (filter (\<lambda>(k, _). P k) m) k = (if P k then map_of m k else None)"
  by (induction m) auto

lemma map_of_alist_remove [simp]: "map_of (alist_remove k m) = (map_of m)(k := None)"
  by (rule ext) (simp add: alist_remove_def map_of_filter_key)

lemma fst_alist_remove [simp]: "map fst (alist_remove k m) = filter (\<lambda>k'. k' \<noteq> k) (map fst m)"
  by (induction m) (auto simp: alist_remove_def)

lemma set_alist_remove: "set (alist_remove k m) = {x \<in> set m. fst x \<noteq> k}"
  by (auto simp: alist_remove_def)

lemma wf_alist_Nil [simp]: "wf_alist []"
  by (simp add: wf_alist_def)

lemma wf_alist_put [simp]: "wf_alist m \<Longrightarrow> wf_alist (alist_put k v m)"
  by (simp add: wf_alist_def alist_put_def distinct_update)

lemma wf_alist_remove [simp]: "wf_alist m \<Longrightarrow> wf_alist (alist_remove k m)"
  by (simp add: wf_alist_def)

lemma wf_alist_filter: "wf_alist m \<Longrightarrow> wf_alist (filter P m)"
  unfolding wf_alist_def by (rule distinct_map_filter)

lemma map_of_in: "wf_alist m \<Longrightarrow> (k, v) \<in> set m \<longleftrightarrow> map_of m k = Some v"
  by (simp add: wf_alist_def)

lemma set_alist_put: "set (alist_put k v m) \<subseteq> insert (k, v) (set m)"
  unfolding alist_put_def by (induction m) auto

lemma alist_put_fresh: "map_of m k = None \<Longrightarrow> alist_put k v m = m @ [(k, v)]"
  unfolding alist_put_def by (induction m) (auto split: if_splits)

lemma alist_remove_fresh: "k \<notin> set (map fst m) \<Longrightarrow> alist_remove k m = m"
  by (induction m) (auto simp: alist_remove_def)


section \<open>Ordered maps\<close>

text \<open>A \<open>BTreeMap\<close> is an association list whose keys are strictly increasing.\<close>

definition wf_omap :: "('k::linorder \<times> 'v) list \<Rightarrow> bool" where
  "wf_omap m \<longleftrightarrow> sorted_wrt (<) (map fst m)"

fun omap_insert :: "'k::linorder \<Rightarrow> 'v \<Rightarrow> ('k \<times> 'v) list \<Rightarrow> ('k \<times> 'v) list" where
  "omap_insert k v [] = [(k, v)]"
| "omap_insert k v ((k', v') # m) =
     (if k < k' then (k, v) # (k', v') # m
      else if k = k' then (k, v) # m
      else (k', v') # omap_insert k v m)"

definition omap_of_list :: "('k::linorder \<times> 'v) list \<Rightarrow> ('k \<times> 'v) list" where
  "omap_of_list = foldl (\<lambda>m (k, v). omap_insert k v m) []"

lemma fst_set_omap_insert [simp]: "fst ` set (omap_insert k v m) = insert k (fst ` set m)"
  by (induction m rule: omap_insert.induct) auto

lemma wf_omap_Nil [simp]: "wf_omap []"
  by (simp add: wf_omap_def)

lemma wf_omap_Cons: "wf_omap ((k, v) # m) \<longleftrightarrow> (\<forall>k' \<in> fst ` set m. k < k') \<and> wf_omap m"
  by (simp add: wf_omap_def)

lemma wf_omap_insert [simp]: "wf_omap m \<Longrightarrow> wf_omap (omap_insert k v m)"
  by (induction m rule: omap_insert.induct) (auto simp: wf_omap_Cons)

lemma map_of_omap_insert [simp]: "map_of (omap_insert k v m) = (map_of m)(k \<mapsto> v)"
  by (induction k v m rule: omap_insert.induct) auto

lemma wf_omap_distinct: "wf_omap m \<Longrightarrow> distinct (map fst m)"
  by (simp add: wf_omap_def strict_sorted_iff)

lemma wf_omap_foldl:
  "wf_omap m \<Longrightarrow> wf_omap (foldl (\<lambda>m (k, v). omap_insert k v m) m kvs)"
  by (induction kvs arbitrary: m) (auto simp: case_prod_beta)

lemma wf_omap_of_list [simp]: "wf_omap (omap_of_list kvs)"
  by (simp add: omap_of_list_def wf_omap_foldl)

lemma map_of_omap_foldl:
  "map_of (foldl (\<lambda>m (k, v). omap_insert k v m) m kvs) = map_of m ++ map_of (rev kvs)"
  by (induction kvs arbitrary: m) (auto simp: case_prod_beta map_add_def fun_eq_iff split: option.splits)

lemma map_of_omap_of_list [simp]: "map_of (omap_of_list kvs) = map_of (rev kvs)"
  by (simp add: omap_of_list_def map_of_omap_foldl)

text \<open>An ordered map is determined by its contents.\<close>

lemma omap_ext:
  assumes "wf_omap m" "wf_omap m'" "map_of m = map_of m'"
  shows "m = m'"
proof -
  have d: "distinct (map fst m)" "distinct (map fst m')"
    using assms(1,2) by (simp_all add: wf_omap_distinct)
  have "set m = set m'"
    using assms(3) map_of_inject_set [OF d] by simp
  moreover have "inj_on fst (set m)"
    using d(1) by (simp add: distinct_map)
  moreover have "sorted (map fst m)" "sorted (map fst m')"
    using assms(1,2) by (simp_all add: wf_omap_def strict_sorted_iff)
  ultimately show ?thesis
    using d by (intro map_sorted_distinct_set_unique [where f = fst]) simp_all
qed

lemma omap_of_list_perm:
  assumes "distinct (map fst kvs)" "set kvs = set kvs'" "length kvs = length kvs'"
  shows "omap_of_list kvs = omap_of_list kvs'"
proof (rule omap_ext)
  have "distinct kvs" using assms(1) by (simp add: distinct_map)
  then have d': "distinct kvs'"
    using assms(2,3) by (metis card_distinct distinct_card)
  then have "distinct (map fst kvs')"
    using assms(1,2) by (simp add: distinct_map)
  then have "map_of (rev kvs) = map_of (rev kvs')"
    using assms by (subst map_of_inject_set) (simp_all add: rev_map [symmetric])
  then show "map_of (omap_of_list kvs) = map_of (omap_of_list kvs')"
    by simp
qed simp_all

end
