(* ===== verification/Float64.thy ===== *)
theory Float64
  imports Prelude
begin

text \<open>
  Rust's \<open>f64\<close> as its IEEE 754 binary64 bit pattern. Comparisons are exact: a finite value is
  read as an integer multiple of \<open>2 ^ -1074\<close>, the least positive subnormal, so that \<open>p >= 0.5\<close>
  and \<open>(0.0..=1.0).contains(&p)\<close> become comparisons of integers. The two infinities read as
  integers beyond every finite value, and a comparison with a NaN is false.
  \<open>f64_div_nat\<close> is the correctly rounded (nearest, ties to even) quotient of two small naturals.
\<close>

type_synonym f64 = "64 word"

definition f64_negative :: "f64 \<Rightarrow> bool" where
  "f64_negative v \<longleftrightarrow> 2 ^ 63 \<le> unat v"

definition f64_exponent :: "f64 \<Rightarrow> nat" where
  "f64_exponent v = unat v div 2 ^ 52 mod 2 ^ 11"

definition f64_fraction :: "f64 \<Rightarrow> nat" where
  "f64_fraction v = unat v mod 2 ^ 52"

definition is_finite :: "f64 \<Rightarrow> bool" where
  "is_finite v \<longleftrightarrow> f64_exponent v \<noteq> 2047"

definition is_nan :: "f64 \<Rightarrow> bool" where
  "is_nan v \<longleftrightarrow> f64_exponent v = 2047 \<and> f64_fraction v \<noteq> 0"

definition f64_magnitude :: "f64 \<Rightarrow> nat" where
  "f64_magnitude v =
     (if f64_exponent v = 0 then f64_fraction v
      else (2 ^ 52 + f64_fraction v) * 2 ^ (f64_exponent v - 1))"

definition f64_scaled :: "f64 \<Rightarrow> int" where
  "f64_scaled v = (if f64_negative v then - int (f64_magnitude v) else int (f64_magnitude v))"

definition f64_le :: "f64 \<Rightarrow> f64 \<Rightarrow> bool" where
  "f64_le a b \<longleftrightarrow> \<not> is_nan a \<and> \<not> is_nan b \<and> f64_scaled a \<le> f64_scaled b"

definition f64_half :: f64 where
  "f64_half = 0x3FE0000000000000"

definition f64_one :: f64 where
  "f64_one = 0x3FF0000000000000"

lemma f64_scaled_zero [simp]: "f64_scaled 0 = 0"
  by (simp add: f64_scaled_def f64_magnitude_def f64_exponent_def f64_fraction_def)

lemma f64_scaled_one: "f64_scaled f64_one = 2 ^ 1074"
  by (simp add: f64_scaled_def f64_magnitude_def f64_exponent_def f64_fraction_def
      f64_negative_def f64_one_def)

lemma f64_scaled_half: "f64_scaled f64_half = 2 ^ 1073"
  by (simp add: f64_scaled_def f64_magnitude_def f64_exponent_def f64_fraction_def
      f64_negative_def f64_half_def)

lemma not_nan_constants [simp]: "\<not> is_nan 0" "\<not> is_nan f64_half" "\<not> is_nan f64_one"
  by (simp_all add: is_nan_def f64_exponent_def f64_half_def f64_one_def)

section \<open>Division of naturals\<close>

fun bit_length :: "nat \<Rightarrow> nat" where
  "bit_length n = (if n = 0 then 0 else Suc (bit_length (n div 2)))"

declare bit_length.simps [simp del]

definition round_half_even :: "nat \<Rightarrow> nat \<Rightarrow> nat" where
  "round_half_even n d =
     (let q = n div d; r = n mod d
      in if 2 * r < d then q else if d < 2 * r then Suc q else if even q then q else Suc q)"

text \<open>
  The scale \<open>k\<close> puts \<open>n * 2 ^ k / d\<close> between \<open>2 ^ 52\<close> and \<open>2 ^ 53\<close>, so that its rounding is the
  53-bit significand of the quotient, whose exponent field is \<open>1075 - k\<close>. A significand rounded
  up to \<open>2 ^ 53\<close> carries into the exponent field, as the addition of the bit patterns does.
\<close>

definition f64_div_scale :: "nat \<Rightarrow> nat \<Rightarrow> nat" where
  "f64_div_scale n d =
     (let k = 52 + bit_length d - bit_length n
      in if n * 2 ^ k < 2 ^ 52 * d then Suc k else k)"

definition f64_div_nat :: "nat \<Rightarrow> nat \<Rightarrow> f64" where
  "f64_div_nat n d =
     (if n = 0 then 0
      else let k = f64_div_scale n d; m = round_half_even (n * 2 ^ k) d
           in word_of_nat ((1075 - k) * 2 ^ 52 + m - 2 ^ 52))"

lemma bit_length_small [simp]: "bit_length 0 = 0" "bit_length (Suc 0) = 1"
  by (simp_all add: bit_length.simps)

lemma bit_length_bounds: "0 < n \<Longrightarrow> 2 ^ (bit_length n - 1) \<le> n \<and> n < 2 ^ bit_length n"
proof (induction n rule: bit_length.induct)
  case (1 n)
  show ?case
  proof (cases "n div 2 = 0")
    case True
    then have "n = 1" using "1.prems" by simp
    then show ?thesis by simp
  next
    case False
    have bl: "bit_length n = Suc (bit_length (n div 2))"
      using "1.prems" by (subst bit_length.simps) simp
    have b2: "bit_length (n div 2) = Suc (bit_length (n div 2) - 1)"
      using False by (subst (1 2) bit_length.simps) simp
    have "2 ^ (bit_length (n div 2) - 1) \<le> n div 2" "n div 2 < 2 ^ bit_length (n div 2)"
      using "1.IH" "1.prems" False by simp_all
    then show ?thesis
      unfolding bl by (subst b2) (simp add: less_mult_imp_div_less, linarith)
  qed
qed

lemma bit_length_mono: "a \<le> b \<Longrightarrow> bit_length a \<le> bit_length b"
proof (induction a arbitrary: b rule: bit_length.induct)
  case (1 a)
  then show ?case
    by (cases "a = 0") (simp_all add: bit_length.simps [of a] bit_length.simps [of b] div_le_mono)
qed

lemma round_half_even_le: "0 < d \<Longrightarrow> n \<le> N * d \<Longrightarrow> round_half_even n d \<le> N"
proof -
  assume d: "0 < d" and le: "n \<le> N * d"
  have q: "n div d \<le> N"
    using le d by (metis div_le_mono nonzero_mult_div_cancel_right less_numeral_extra(3))
  show ?thesis
  proof (cases "n div d = N")
    case True
    then have "n mod d = 0"
      using le d by (metis add_cancel_right_right div_mult_mod_eq le_add1 le_antisym)
    then show ?thesis using True d by (simp add: round_half_even_def)
  next
    case False
    then show ?thesis using q by (auto simp: round_half_even_def Let_def)
  qed
qed

lemma round_half_even_ge: "0 < d \<Longrightarrow> N * d \<le> n \<Longrightarrow> N \<le> round_half_even n d"
proof -
  assume d: "0 < d" and le: "N * d \<le> n"
  have "N \<le> n div d"
    using le d by (simp add: less_eq_div_iff_mult_less_eq)
  then show ?thesis by (auto simp: round_half_even_def Let_def)
qed


lemma f64_div_scale_bounds:
  assumes n: "0 < n" "n \<le> d"
  defines "k \<equiv> f64_div_scale n d"
  shows "2 ^ 52 * d \<le> n * 2 ^ k" "n * 2 ^ k \<le> 2 ^ 53 * d" "52 \<le> k" "k \<le> 53 + bit_length d"
proof -
  define bn bd k0 where "bn = bit_length n" and "bd = bit_length d" and "k0 = 52 + bd - bn"
  have d: "0 < d" using n by simp
  have bn: "2 ^ (bn - 1) \<le> n" "n < 2 ^ bn" and bd: "2 ^ (bd - 1) \<le> d" "d < 2 ^ bd"
    using bit_length_bounds [OF n(1)] bit_length_bounds [OF d] by (simp_all add: bn_def bd_def)
  have pos: "0 < bn" "0 < bd" using bn(2) bd(2) n(1) d by (auto intro: Suc_leI gr0I)
  have mono: "bn \<le> bd" using bit_length_mono [OF n(2)] by (simp add: bn_def bd_def)
  have low: "2 ^ 51 * d \<le> n * 2 ^ k0"
  proof -
    have "2 ^ 51 * d \<le> 2 ^ 51 * 2 ^ bd" using bd(2) by simp
    also have "\<dots> = 2 ^ (51 + bd)" by (simp only: power_add)
    also have "\<dots> = 2 ^ (bn - 1) * 2 ^ k0"
      using pos mono by (simp add: k0_def flip: power_add)
    also have "\<dots> \<le> n * 2 ^ k0" using bn(1) by simp
    finally show ?thesis .
  qed
  have high: "n * 2 ^ k0 \<le> 2 ^ 53 * d"
  proof -
    have "n * 2 ^ k0 \<le> 2 ^ bn * 2 ^ k0" using bn(2) by simp
    also have "\<dots> = 2 ^ (53 + (bd - 1))"
      using pos mono by (simp add: k0_def flip: power_add)
    also have "\<dots> = 2 ^ 53 * 2 ^ (bd - 1)" by (simp only: power_add)
    also have "\<dots> \<le> 2 ^ 53 * d" using bd(1) by simp
    finally show ?thesis .
  qed
  have k: "k = (if n * 2 ^ k0 < 2 ^ 52 * d then Suc k0 else k0)"
    by (simp add: k_def f64_div_scale_def k0_def bn_def bd_def Let_def)
  show "2 ^ 52 * d \<le> n * 2 ^ k" "n * 2 ^ k \<le> 2 ^ 53 * d"
    using low high by (auto simp: k)
  show "52 \<le> k" "k \<le> 53 + bit_length d"
    using mono by (auto simp: k k0_def bd_def)
qed

lemma f64_magnitude_of_bits:
  assumes e: "1 \<le> e" "e < 2046" and m: "2 ^ 52 \<le> m" "m \<le> 2 ^ 53"
  defines "v \<equiv> word_of_nat (e * 2 ^ 52 + m - 2 ^ 52) :: f64"
  shows "f64_magnitude v = m * 2 ^ (e - 1)" "is_finite v" "\<not> f64_negative v"
proof -
  have un: "unat v = e * 2 ^ 52 + (m - 2 ^ 52)"
  proof -
    have small: "unat (word_of_nat x :: f64) = x" if "x < 2 ^ 64" for x
      using that by (simp add: unat_of_nat)
    have eq: "e * 2 ^ 52 + m - 2 ^ 52 = e * 2 ^ 52 + (m - 2 ^ 52)"
      using m by simp
    show ?thesis
      unfolding v_def eq using e m by (intro small) simp
  qed
  then show "\<not> f64_negative v" using e m by (simp add: f64_negative_def)
  show "f64_magnitude v = m * 2 ^ (e - 1)" "is_finite v"
  proof -
    consider "m < 2 ^ 53" | "m = 2 ^ 53" using m by linarith
    then have "f64_magnitude v = m * 2 ^ (e - 1) \<and> is_finite v"
    proof cases
      case 1
      then have lt: "m - 2 ^ 52 < 2 ^ 52" by simp
      have "f64_exponent v = e" "f64_fraction v = m - 2 ^ 52"
        using e lt by (simp_all add: f64_exponent_def f64_fraction_def un)
      then show ?thesis using e m by (simp add: f64_magnitude_def is_finite_def)
    next
      case 2
      then have "unat v = (e + 1) * 2 ^ 52" by (simp add: un)
      then have "f64_exponent v = e + 1" "f64_fraction v = 0"
        using e by (simp_all add: f64_exponent_def f64_fraction_def del: mult_Suc)
      moreover have "(2 :: nat) ^ e = 2 * 2 ^ (e - 1)"
        using e by (simp flip: power_Suc)
      ultimately show ?thesis using e 2 by (simp add: f64_magnitude_def is_finite_def)
    qed
    then show "f64_magnitude v = m * 2 ^ (e - 1)" "is_finite v" by simp_all
  qed
qed

text \<open>A quotient of naturals \<open>n \<le> d\<close> rounds to a finite number of the closed unit interval.\<close>

lemma f64_div_nat_unit:
  assumes "0 < d" "d \<le> 2 ^ 53" "n \<le> d"
  shows "is_finite (f64_div_nat n d)" "0 \<le> f64_scaled (f64_div_nat n d)"
    "f64_scaled (f64_div_nat n d) \<le> 2 ^ 1074"
proof -
  have "is_finite (f64_div_nat n d) \<and> 0 \<le> f64_scaled (f64_div_nat n d)
    \<and> f64_scaled (f64_div_nat n d) \<le> 2 ^ 1074"
  proof (cases "n = 0")
    case True
    then show ?thesis by (simp add: f64_div_nat_def is_finite_def f64_exponent_def)
  next
    case False
    define k m where "k = f64_div_scale n d" and "m = round_half_even (n * 2 ^ k) d"
    have b: "2 ^ 52 * d \<le> n * 2 ^ k" "n * 2 ^ k \<le> 2 ^ 53 * d" "52 \<le> k" "k \<le> 53 + bit_length d"
      using f64_div_scale_bounds [of n d] False assms(3) by (simp_all add: k_def)
    have "2 ^ (bit_length d - 1) \<le> (2 :: nat) ^ 53"
      using bit_length_bounds [OF assms(1)] assms(2) by linarith
    then have "bit_length d - 1 \<le> 53" by (rule power_le_imp_le_exp [rotated]) simp
    then have k: "52 \<le> k" "k \<le> 107" using b by linarith+
    have m: "2 ^ 52 \<le> m" "m \<le> 2 ^ 53"
      using b assms(1) by (auto simp: m_def intro: round_half_even_ge round_half_even_le)
    have mk: "m \<le> 2 ^ k"
      using assms by (simp add: m_def round_half_even_le mult.commute)
    have v: "f64_div_nat n d = word_of_nat ((1075 - k) * 2 ^ 52 + m - 2 ^ 52)"
      using False by (simp add: f64_div_nat_def k_def m_def Let_def)
    have "f64_magnitude (f64_div_nat n d) = m * 2 ^ (1075 - k - 1)"
      "is_finite (f64_div_nat n d)" "\<not> f64_negative (f64_div_nat n d)"
      unfolding v using k m by (intro f64_magnitude_of_bits; simp)+
    moreover have "m * 2 ^ (1075 - k - 1) \<le> (2 :: nat) ^ 1074"
    proof -
      have "m * 2 ^ (1075 - k - 1) \<le> 2 ^ k * (2 :: nat) ^ (1075 - k - 1)" using mk by simp
      also have "\<dots> = 2 ^ 1074" using k by (subst power_add [symmetric]) simp
      finally show ?thesis .
    qed
    ultimately have mag: "f64_magnitude (f64_div_nat n d) \<le> 2 ^ 1074"
      and other: "is_finite (f64_div_nat n d)" "\<not> f64_negative (f64_div_nat n d)"
      by (simp_all only: not_False_eq_True)
    have "int x \<le> 2 ^ 1074" if "x \<le> 2 ^ 1074" for x
      using of_nat_mono [OF that, where 'a = int] by (simp only: of_nat_power of_nat_numeral)
    then show ?thesis
      using mag other by (simp only: f64_scaled_def if_False of_nat_0_le_iff simp_thms)
  qed
  then show "is_finite (f64_div_nat n d)" "0 \<le> f64_scaled (f64_div_nat n d)"
    "f64_scaled (f64_div_nat n d) \<le> 2 ^ 1074" by simp_all
qed

end
