(* ===== verification/Json.thy ===== *)
theory Json
  imports Float64
begin

text \<open>
  The JSON trees the code builds and reads (\<open>serde_json::Value\<close>): numbers are unsigned, negative or
  floating, and an object is an ordered map from member names.
\<close>

datatype json_number = PosInt u64 | NegInt u64 | FloatNum f64

datatype json =
    JNull
  | JBool bool
  | JNumber json_number
  | JString string
  | JArray "json list"
  | JObject "(string \<times> json) list"

text \<open>The object literal of \<open>json!\<close>, and the accessors of \<open>Value\<close>.\<close>

definition json_object :: "(string \<times> json) list \<Rightarrow> json" where
  "json_object kvs = JObject (omap_of_list kvs)"

definition json_of_f64 :: "f64 \<Rightarrow> json" where
  "json_of_f64 v = (if is_finite v then JNumber (FloatNum v) else JNull)"

fun as_object :: "json \<Rightarrow> (string \<times> json) list option" where
  "as_object (JObject m) = Some m"
| "as_object _ = None"

fun as_str :: "json \<Rightarrow> string option" where
  "as_str (JString s) = Some s"
| "as_str _ = None"

fun as_u64 :: "json \<Rightarrow> u64 option" where
  "as_u64 (JNumber (PosInt n)) = Some n"
| "as_u64 _ = None"

fun json_get :: "json \<Rightarrow> string \<Rightarrow> json option" where
  "json_get (JObject m) k = map_of m k"
| "json_get _ k = None"

lemma json_get_object [simp]: "json_get (json_object kvs) k = map_of (rev kvs) k"
  by (simp add: json_object_def)

end
