(* ===== verification/Serialize.thy ===== *)
theory Serialize
  imports Json
begin

text \<open>
  Canonical state encoding, \<open>crates/judgment-core/src/serialize.rs\<close>: the typed value tree, the exact
  rendering of DECIMAL values, the canonical bytes of text and struct states with the self-describing
  versioned form, and the JSON value of the request body.

  A string is its bytes. \<open>serde_json::to_string\<close> on a string and the shortest round-trip \<open>{:?}\<close> text of
  a float are the two functions of a \<open>text_codec\<close>, an argument of the encoder; the locale
  \<open>text_codec_laws\<close> states what the code relies on, and \<open>reference_codec\<close> is a codec that has these
  laws.
\<close>

section \<open>Data\<close>

definition CANONICAL_VERSION :: u32 where
  "CANONICAL_VERSION = 1"

datatype state_kind = Kind_Text | Kind_Struct

datatype typed_value =
    TV_Null
  | TV_Bool bool
  | TV_Int u64
  | TV_UInt u64
  | TV_Float f64
  | TV_Decimal string
  | TV_BigInt string
  | TV_UBigInt string
  | TV_Text string
  | TV_Struct "(string \<times> typed_value) list"

record canonical_state =
  cs_version :: u32
  cs_kind :: state_kind
  cs_canonical :: string
  cs_value :: typed_value

record text_codec =
  json_string :: "string \<Rightarrow> string"
  float_debug :: "f64 \<Rightarrow> string"

section \<open>Operations\<close>

fun be_bytes :: "nat \<Rightarrow> nat \<Rightarrow> string" where
  "be_bytes 0 v = []"
| "be_bytes (Suc n) v = be_bytes n (v div 256) @ [char_of (v mod 256)]"

definition versioned_canonical_bytes :: "canonical_state \<Rightarrow> string" where
  "versioned_canonical_bytes s =
     ''DJST'' @ be_bytes 4 (unat (cs_version s))
     @ [case cs_kind s of Kind_Text \<Rightarrow> char_of (1 :: nat) | Kind_Struct \<Rightarrow> char_of (2 :: nat)]
     @ be_bytes 8 (unat (usize_of (length (cs_canonical s))))
     @ cs_canonical s"

definition as_text :: "canonical_state \<Rightarrow> string option" where
  "as_text s = (case cs_value s of TV_Text t \<Rightarrow> Some t | _ \<Rightarrow> None)"

definition format_decimal :: "128 word \<Rightarrow> u8 \<Rightarrow> string" where
  "format_decimal raw scale =
     (if scale = 0 then int_to_string (sint raw)
      else let negative = sint raw < 0;
               digits = nat_to_string (nat \<bar>sint raw\<bar>);
               scale = unat scale;
               out = (if negative then ''-'' else '''')
           in if length digits \<le> scale
              then out @ ''0.'' @ replicate (scale - length digits) (CHR ''0'') @ digits
              else let split = length digits - scale
                   in out @ take split digits @ ''.'' @ drop split digits)"

definition encode_text :: "string \<Rightarrow> canonical_state" where
  "encode_text text =
     \<lparr>cs_version = CANONICAL_VERSION, cs_kind = Kind_Text, cs_canonical = text, cs_value = TV_Text text\<rparr>"

fun validate_value :: "typed_value \<Rightarrow> string + unit"
and validate_fields :: "(string \<times> typed_value) list \<Rightarrow> string + unit" where
  "validate_value (TV_Float v) =
     (if \<not> is_finite v then Inl ''state contains a non-finite floating point value'' else Inr ())"
| "validate_value (TV_Struct fs) = validate_fields fs"
| "validate_value _ = Inr ()"
| "validate_fields [] = Inr ()"
| "validate_fields ((name, v) # fs) = result_bind (validate_value v) (\<lambda>_. validate_fields fs)"

text \<open>\<open>write_fields\<close> is the loop over the enumerated fields of a struct, \<open>idx\<close> its index.\<close>

fun write_value :: "text_codec \<Rightarrow> typed_value \<Rightarrow> string"
and write_fields :: "text_codec \<Rightarrow> nat \<Rightarrow> (string \<times> typed_value) list \<Rightarrow> string" where
  "write_value c TV_Null = ''{\"t\":\"null\"}''"
| "write_value c (TV_Bool b) = ''{\"t\":\"bool\",\"v\":'' @ (if b then ''true'' else ''false'') @ ''}''"
| "write_value c (TV_Int i) = ''{\"t\":\"int\",\"v\":\"'' @ int_to_string (sint i) @ ''\"}''"
| "write_value c (TV_UInt u) = ''{\"t\":\"uint\",\"v\":\"'' @ nat_to_string (unat u) @ ''\"}''"
| "write_value c (TV_Float f) = ''{\"t\":\"float\",\"v\":'' @ float_debug c f @ ''}''"
| "write_value c (TV_Decimal d) = ''{\"t\":\"decimal\",\"v\":'' @ json_string c d @ ''}''"
| "write_value c (TV_BigInt d) = ''{\"t\":\"int128\",\"v\":\"'' @ d @ ''\"}''"
| "write_value c (TV_UBigInt d) = ''{\"t\":\"uint128\",\"v\":\"'' @ d @ ''\"}''"
| "write_value c (TV_Text s) = ''{\"t\":\"text\",\"v\":'' @ json_string c s @ ''}''"
| "write_value c (TV_Struct fs) = ''{\"t\":\"struct\",\"f\":{'' @ write_fields c 0 fs @ ''}}''"
| "write_fields c idx [] = []"
| "write_fields c idx ((name, v) # fs) =
     (if 0 < idx then '','' else '''') @ json_string c name @ '':'' @ write_value c v
     @ write_fields c (Suc idx) fs"

definition encode_struct :: "text_codec \<Rightarrow> (string \<times> typed_value) list \<Rightarrow> string + canonical_state" where
  "encode_struct c fs =
     result_bind (validate_value (TV_Struct fs)) (\<lambda>_.
       Inr \<lparr>cs_version = CANONICAL_VERSION,
            cs_kind = Kind_Struct,
            cs_canonical = ''{\"canonical_version\":'' @ nat_to_string (unat CANONICAL_VERSION)
              @ '',\"state\":'' @ write_value c (TV_Struct fs) @ ''}'',
            cs_value = TV_Struct fs\<rparr>)"

fun to_json_value :: "typed_value \<Rightarrow> json"
and to_json_fields :: "(string \<times> typed_value) list \<Rightarrow> (string \<times> json) list" where
  "to_json_value TV_Null = json_object [(''t'', JString ''null'')]"
| "to_json_value (TV_Bool b) = json_object [(''t'', JString ''bool''), (''v'', JBool b)]"
| "to_json_value (TV_Int i) = json_object [(''t'', JString ''int''), (''v'', JString (int_to_string (sint i)))]"
| "to_json_value (TV_UInt u) = json_object [(''t'', JString ''uint''), (''v'', JString (nat_to_string (unat u)))]"
| "to_json_value (TV_Float f) = json_object [(''t'', JString ''float''), (''v'', json_of_f64 f)]"
| "to_json_value (TV_Decimal d) = json_object [(''t'', JString ''decimal''), (''v'', JString d)]"
| "to_json_value (TV_BigInt d) = json_object [(''t'', JString ''int128''), (''v'', JString d)]"
| "to_json_value (TV_UBigInt d) = json_object [(''t'', JString ''uint128''), (''v'', JString d)]"
| "to_json_value (TV_Text s) = json_object [(''t'', JString ''text''), (''v'', JString s)]"
| "to_json_value (TV_Struct fs) =
     json_object [(''t'', JString ''struct''), (''f'', JObject (omap_of_list (to_json_fields fs)))]"
| "to_json_fields [] = []"
| "to_json_fields ((name, v) # fs) = (name, to_json_value v) # to_json_fields fs"

section \<open>Versioned bytes\<close>

lemma length_be_bytes [simp]: "length (be_bytes n v) = n"
  by (induction n v rule: be_bytes.induct) simp_all

lemma be_bytes_inj: "v < 256 ^ n \<Longrightarrow> w < 256 ^ n \<Longrightarrow> be_bytes n v = be_bytes n w \<Longrightarrow> v = w"
proof (induction n arbitrary: v w)
  case 0
  then show ?case by simp
next
  case (Suc n)
  have "v mod 256 = w mod 256"
  proof -
    have "of_char (char_of (v mod 256) :: char) = (of_char (char_of (w mod 256) :: char) :: nat)"
      using Suc.prems(3) by simp
    then show ?thesis by simp
  qed
  moreover have "v div 256 = w div 256"
    using Suc.prems by (intro Suc.IH) (auto simp: less_mult_imp_div_less mult.commute)
  ultimately show ?case by (metis div_mult_mod_eq)
qed

lemma versioned_bytes_prefix_free:
  assumes "length (cs_canonical a) < 2 ^ 64" "length (cs_canonical b) < 2 ^ 64"
    and "versioned_canonical_bytes a @ x = versioned_canonical_bytes b @ y"
  shows "cs_version a = cs_version b \<and> cs_kind a = cs_kind b \<and> cs_canonical a = cs_canonical b \<and> x = y"
proof -
  have eq: "be_bytes 4 (unat (cs_version a)) = be_bytes 4 (unat (cs_version b))"
    "cs_kind a = cs_kind b"
    "be_bytes 8 (length (cs_canonical a)) = be_bytes 8 (length (cs_canonical b))"
    "cs_canonical a @ x = cs_canonical b @ y"
    using assms by (auto simp: versioned_canonical_bytes_def unat_usize_of append_eq_append_conv
        split: state_kind.splits)
  have "unat (cs_version a) = unat (cs_version b)"
    using eq(1) unsigned_less [of "cs_version a"] unsigned_less [of "cs_version b"]
    by (intro be_bytes_inj) simp_all
  moreover have "length (cs_canonical a) = length (cs_canonical b)"
    using eq(3) assms(1,2) by (intro be_bytes_inj) simp_all
  ultimately show ?thesis using eq by (simp add: word_unat_eq_iff)
qed

section \<open>Exact decimals\<close>

text \<open>The value of digits with leading zeros.\<close>

lemma string_to_nat_zeros: "string_to_nat (replicate n (CHR ''0'') @ s) = string_to_nat s"
  by (induction n) (simp_all add: string_to_nat_def digit_value_def byte_of_def)

definition all_digits :: "string \<Rightarrow> bool" where
  "all_digits s \<longleftrightarrow> list_all is_ascii_digit s"

lemma all_digits_nat [simp]: "all_digits (nat_to_string n)"
  by (auto simp: all_digits_def list_all_iff dest: nat_to_string_digits)

lemma all_digits_append [simp]: "all_digits (a @ b) \<longleftrightarrow> all_digits a \<and> all_digits b"
  by (simp add: all_digits_def)

lemma is_ascii_digit_0 [simp]: "is_ascii_digit (CHR ''0'')"
  by (simp add: is_ascii_digit_def byte_of_def)

lemma format_decimal_parts:
  assumes "0 < scale"
  shows "\<exists>ip fp. format_decimal raw scale = (if sint raw < 0 then ''-'' else '''') @ ip @ ''.'' @ fp
    \<and> ip \<noteq> [] \<and> length fp = unat scale \<and> all_digits (ip @ fp)
    \<and> string_to_nat (ip @ fp) = nat \<bar>sint raw\<bar>"
proof -
  define digits where "digits = nat_to_string (nat \<bar>sint raw\<bar>)"
  define n where "n = unat scale"
  have scale: "scale \<noteq> 0" using assms by auto
  have dg: "all_digits digits" "string_to_nat digits = nat \<bar>sint raw\<bar>"
    by (simp_all add: digits_def)
  show ?thesis
  proof (cases "length digits \<le> n")
    case True
    define fp where "fp = replicate (n - length digits) (CHR ''0'') @ digits"
    have "string_to_nat (''0'' @ fp) = nat \<bar>sint raw\<bar>"
      using string_to_nat_zeros [of "Suc (n - length digits)" digits] dg by (simp add: fp_def)
    moreover have "all_digits (''0'' @ fp)" "length fp = n"
      using True dg by (auto simp: fp_def all_digits_def list_all_iff)
    moreover have "format_decimal raw scale = (if sint raw < 0 then ''-'' else '''') @ ''0'' @ ''.'' @ fp"
      using True scale by (simp add: format_decimal_def Let_def digits_def n_def fp_def)
    ultimately show ?thesis unfolding n_def by blast
  next
    case False
    define ip fp where "ip = take (length digits - n) digits" and "fp = drop (length digits - n) digits"
    have "digits = ip @ fp" by (simp add: ip_def fp_def)
    moreover have "ip \<noteq> []" "length fp = n" using False by (auto simp: ip_def fp_def)
    moreover have "format_decimal raw scale = (if sint raw < 0 then ''-'' else '''') @ ip @ ''.'' @ fp"
      using False scale by (simp add: format_decimal_def Let_def digits_def n_def ip_def fp_def)
    ultimately show ?thesis using dg by (metis n_def)
  qed
qed

section \<open>Canonical bytes determine the state\<close>

text \<open>
  What the encoder relies on: a JSON string literal starts with a quote and can be read off the front
  of any text, and the text of a finite float determines it and holds no closing brace.
\<close>

locale text_codec_laws =
  fixes c :: text_codec
  assumes json_string_quoted: "\<exists>t. json_string c s = CHR 0x22 # t"
    and json_string_unique: "json_string c s @ x = json_string c s' @ y \<Longrightarrow> s = s'"
    and float_debug_inj: "is_finite f \<Longrightarrow> is_finite g \<Longrightarrow> float_debug c f = float_debug c g \<Longrightarrow> f = g"
    and float_debug_plain: "is_finite f \<Longrightarrow> CHR ''}'' \<notin> set (float_debug c f)"

text \<open>The 128-bit integers arrive as decimal text from the host, so they hold no quote.\<close>

fun unquoted :: "typed_value \<Rightarrow> bool"
and unquoted_fields :: "(string \<times> typed_value) list \<Rightarrow> bool" where
  "unquoted (TV_BigInt d) = (CHR 0x22 \<notin> set d)"
| "unquoted (TV_UBigInt d) = (CHR 0x22 \<notin> set d)"
| "unquoted (TV_Struct fs) = unquoted_fields fs"
| "unquoted _ = True"
| "unquoted_fields [] = True"
| "unquoted_fields ((name, v) # fs) = (unquoted v \<and> unquoted_fields fs)"

lemma decimal_unquoted: "CHR 0x22 \<notin> set (int_to_string i)" "CHR 0x22 \<notin> set (nat_to_string n)"
  by (auto dest!: int_to_string_chars nat_to_string_digits simp: is_ascii_digit_def byte_of_def)

lemmas delim_quote = append_delim_eq [where c = "CHR 0x22"]

context text_codec_laws
begin

lemma json_string_eq: "json_string c s @ x = json_string c s' @ y \<longleftrightarrow> s = s' \<and> x = y"
  using json_string_unique by (metis same_append_eq)

lemma json_string_not_delim:
  "d \<noteq> CHR 0x22 \<Longrightarrow> json_string c s @ x \<noteq> d # y" "d \<noteq> CHR 0x22 \<Longrightarrow> d # y \<noteq> json_string c s @ x"
  using json_string_quoted [of s] by auto

lemma float_debug_eq:
  "is_finite f \<Longrightarrow> is_finite g \<Longrightarrow>
   float_debug c f @ CHR ''}'' # x = float_debug c g @ CHR ''}'' # y \<longleftrightarrow> f = g \<and> x = y"
  using float_debug_inj by (auto simp: append_delim_eq float_debug_plain)

lemmas text_eqs = json_string_eq json_string_not_delim float_debug_eq

lemma write_value_unique:
  "validate_value v = Inr () \<Longrightarrow> unquoted v \<Longrightarrow> validate_value w = Inr () \<Longrightarrow> unquoted w \<Longrightarrow>
     write_value c v @ x = write_value c w @ y \<Longrightarrow> v = w \<and> x = y"
  "validate_fields fs = Inr () \<Longrightarrow> unquoted_fields fs \<Longrightarrow> validate_fields gs = Inr () \<Longrightarrow>
     unquoted_fields gs \<Longrightarrow>
     write_fields c i fs @ CHR ''}'' # x = write_fields c i gs @ CHR ''}'' # y \<Longrightarrow> fs = gs \<and> x = y"
proof (induction v and fs arbitrary: w x y and i gs x y rule: validate_value_validate_fields.induct)
  case (1 f)
  then show ?case by (cases w) (auto simp: text_eqs split: if_splits)
next
  case (2 fs)
  show ?case
  proof (cases w)
    case (TV_Struct gs)
    have "write_fields c 0 fs @ CHR ''}'' # (CHR ''}'' # x) = write_fields c 0 gs @ CHR ''}'' # (CHR ''}'' # y)"
      using "2.prems"(5) by (simp add: TV_Struct)
    then have "fs = gs \<and> CHR ''}'' # x = CHR ''}'' # y"
      using "2.prems"(1-4) by (intro "2.IH") (simp_all add: TV_Struct)
    then show ?thesis by (simp add: TV_Struct)
  qed (use "2.prems"(5) in simp_all)
next
  case (4 i gs)
  show ?case
  proof (cases gs)
    case (Cons g gs')
    with "4.prems"(5) show ?thesis by (cases g) (auto simp: text_eqs split: if_splits)
  qed (use "4.prems"(5) in simp)
next
  case (5 name v fs i gs)
  show ?case
  proof (cases gs)
    case Nil
    with "5.prems"(5) show ?thesis by (auto simp: text_eqs split: if_splits)
  next
    case (Cons g gs')
    obtain name' w where g: "g = (name', w)" by (cases g)
    have ok: "validate_value v = Inr ()" "validate_fields fs = Inr ()"
      "validate_value w = Inr ()" "validate_fields gs' = Inr ()"
      using "5.prems" by (auto simp: Cons g result_bind_Inr)
    have "name = name'" and
      eq: "write_value c v @ write_fields c (Suc i) fs @ CHR ''}'' # x
         = write_value c w @ write_fields c (Suc i) gs' @ CHR ''}'' # y"
      using "5.prems"(5) by (auto simp: Cons g text_eqs split: if_splits)
    moreover have "v = w \<and> write_fields c (Suc i) fs @ CHR ''}'' # x = write_fields c (Suc i) gs' @ CHR ''}'' # y"
      using "5.prems" ok eq by (intro "5.IH"(1)) (auto simp: Cons g)
    moreover from this have "fs = gs' \<and> x = y"
      using "5.prems" ok by (intro "5.IH"(2)) (auto simp: Cons g)
    ultimately show ?thesis by (simp add: Cons g)
  qed
qed (case_tac w; auto simp: text_eqs delim_quote decimal_unquoted sint_eq_word unat_eq_word split: if_splits)+

lemma encode_struct_inj:
  assumes "encode_struct c fs = Inr a" "encode_struct c gs = Inr b"
    and "unquoted_fields fs" "unquoted_fields gs"
    and "cs_canonical a = cs_canonical b"
  shows "fs = gs"
proof -
  have "write_value c (TV_Struct fs) @ ''}'' = write_value c (TV_Struct gs) @ ''}''"
    "validate_fields fs = Inr ()" "validate_fields gs = Inr ()"
    using assms by (auto simp: encode_struct_def result_bind_Inr)
  then have "TV_Struct fs = TV_Struct gs \<and> ''}'' = ''}''"
    using assms(3,4) by (intro write_value_unique(1)) simp_all
  then show ?thesis by simp
qed

end

section \<open>A codec with these laws\<close>

text \<open>
  The escaper of RFC 8259 with the short escapes for the five named control characters and the quote
  and backslash, \<open>\u00XX\<close> for the other control characters and every other byte as it is; a
  finite float is rendered as sign, significand and binary exponent.
\<close>

definition hex_digit :: "nat \<Rightarrow> char" where
  "hex_digit n = (if n < 10 then char_of (48 + n) else char_of (87 + n))"

definition json_escape_char :: "char \<Rightarrow> string" where
  "json_escape_char ch =
     (let n = byte_of ch; bs = CHR 0x5C
      in if n = 0x22 then [bs, CHR 0x22]
         else if n = 0x5C then [bs, bs]
         else if n = 8 then [bs, CHR ''b'']
         else if n = 9 then [bs, CHR ''t'']
         else if n = 10 then [bs, CHR ''n'']
         else if n = 12 then [bs, CHR ''f'']
         else if n = 13 then [bs, CHR ''r'']
         else if n < 32 then [bs, CHR ''u'', CHR ''0'', CHR ''0'', hex_digit (n div 16), hex_digit (n mod 16)]
         else [ch])"

definition json_escape :: "string \<Rightarrow> string" where
  "json_escape s = CHR 0x22 # concat (map json_escape_char s) @ [CHR 0x22]"

definition float_text :: "f64 \<Rightarrow> string" where
  "float_text f = (if f64_negative f then ''-'' else '''') @ nat_to_string (f64_fraction f)
     @ ''p'' @ nat_to_string (f64_exponent f)"

definition reference_codec :: text_codec where
  "reference_codec = \<lparr>json_string = json_escape, float_debug = float_text\<rparr>"

text \<open>Reading one escaped character back.\<close>

definition hex_value :: "char \<Rightarrow> nat" where
  "hex_value h = (if byte_of h < 58 then byte_of h - 48 else byte_of h - 87)"

definition unescape_head :: "string \<Rightarrow> char" where
  "unescape_head s =
     (let e = s ! 1
      in if hd s \<noteq> CHR 0x5C then hd s
         else if e = CHR ''b'' then char_of (8 :: nat)
         else if e = CHR ''t'' then char_of (9 :: nat)
         else if e = CHR ''n'' then char_of (10 :: nat)
         else if e = CHR ''f'' then char_of (12 :: nat)
         else if e = CHR ''r'' then char_of (13 :: nat)
         else if e = CHR ''u'' then char_of (16 * hex_value (s ! 4) + hex_value (s ! 5))
         else e)"

lemma hex_value_digit [simp]: "n < 16 \<Longrightarrow> hex_value (hex_digit n) = n"
  by (simp add: hex_value_def hex_digit_def byte_of_def)

lemma unescape_head_escape: "unescape_head (json_escape_char a @ x) = a"
proof -
  have ch: "char_of (byte_of a) = a" by (simp add: byte_of_def)
  have inj: "byte_of a = byte_of b \<Longrightarrow> a = b" for b by (simp add: byte_of_def)
  consider "byte_of a = byte_of (CHR 0x22)" | "byte_of a = byte_of (CHR 0x5C)" | "byte_of a = 8" | "byte_of a = 9" | "byte_of a = 10" | "byte_of a = 12" | "byte_of a = 13"
    | "byte_of a \<notin> {0x22, 0x5C, 8, 9, 10, 12, 13}" "byte_of a < 32"
    | "byte_of a \<notin> {0x22, 0x5C, 8, 9, 10, 12, 13}" "\<not> byte_of a < 32"
    by (auto simp: byte_of_def)
  then show ?thesis
  proof cases
    case 1
    then have "a = CHR 0x22" by (rule inj)
    then show ?thesis by (simp add: json_escape_char_def unescape_head_def Let_def byte_of_def)
  next
    case 2
    then have "a = CHR 0x5C" by (rule inj)
    then show ?thesis by (simp add: json_escape_char_def unescape_head_def Let_def byte_of_def)
  next
    case 8
    then show ?thesis using ch by (simp add: json_escape_char_def unescape_head_def Let_def)
  next
    case 9
    then have "a \<noteq> CHR 0x5C" by (auto simp: byte_of_def)
    with 9 show ?thesis by (simp add: json_escape_char_def unescape_head_def Let_def)
  qed (use ch in \<open>simp_all add: json_escape_char_def unescape_head_def Let_def byte_of_def\<close>)
qed

lemma json_escape_char_unique:
  "json_escape_char a @ x = json_escape_char b @ y \<Longrightarrow> a = b"
  by (metis unescape_head_escape)

lemma json_escape_head: "json_escape_char a @ x \<noteq> CHR 0x22 # y" "CHR 0x22 # y \<noteq> json_escape_char a @ x"
  by (auto simp: json_escape_char_def Let_def byte_of_def split: if_splits)

lemma json_escape_chars_unique:
  "concat (map json_escape_char s) @ CHR 0x22 # x = concat (map json_escape_char s') @ CHR 0x22 # y \<Longrightarrow> s = s'"
proof (induction s arbitrary: s')
  case Nil
  then show ?case
    by (cases s') (simp_all add: json_escape_head)
next
  case (Cons a s)
  show ?case
  proof (cases s')
    case Nil
    with Cons.prems show ?thesis
      by (simp add: json_escape_head)
  next
    case s': (Cons b t)
    with Cons.prems have "a = b"
      by (intro json_escape_char_unique) simp
    with s' Cons show ?thesis by simp
  qed
qed

lemma unat_of_f64_parts:
  "unat f = (if f64_negative f then 2 ^ 63 else 0) + f64_exponent f * 2 ^ 52 + f64_fraction f"
proof -
  have lt: "unat f < 2 ^ 64" by (rule unat_less_64)
  define m where "m = unat f div 2 ^ 52"
  have m: "m < 2 ^ 12" using lt by (simp add: m_def less_mult_imp_div_less)
  have "m = (if 2 ^ 11 \<le> m then 2 ^ 11 else 0) + m mod 2 ^ 11"
    using m by (auto simp: mod_if)
  moreover have e: "f64_exponent f = m mod 2 ^ 11"
    by (simp only: f64_exponent_def m_def)
  moreover have "2 ^ 11 \<le> m \<longleftrightarrow> f64_negative f"
    by (simp add: m_def f64_negative_def less_eq_div_iff_mult_less_eq)
  moreover have "unat f = m * 2 ^ 52 + f64_fraction f"
    by (simp add: m_def f64_fraction_def div_mult_mod_eq)
  ultimately show ?thesis
    using e by (cases "f64_negative f") auto
qed

lemma float_text_inj: "float_text f = float_text g \<Longrightarrow> f = g"
proof -
  assume eq: "float_text f = float_text g"
  have noP: "CHR ''p'' \<notin> set (nat_to_string n)" for n
    by (auto dest!: nat_to_string_digits simp: is_ascii_digit_def byte_of_def)
  have noM: "nat_to_string n @ s \<noteq> CHR ''-'' # t" for n s t
    using nat_to_string_digits [of "CHR ''-''" n] by (cases "nat_to_string n")
      (auto simp: is_ascii_digit_def byte_of_def)
  have "f64_negative f = f64_negative g \<and> f64_fraction f = f64_fraction g \<and> f64_exponent f = f64_exponent g"
    using eq noM noM [symmetric]
    by (auto simp: float_text_def append_delim_eq [OF noP noP] split: if_splits)
  then show "f = g"
    using unat_of_f64_parts [of f] unat_of_f64_parts [of g] by (simp add: word_unat_eq_iff)
qed

interpretation reference: text_codec_laws reference_codec
proof
  show "\<exists>t. json_string reference_codec s = CHR 0x22 # t" for s
    by (simp add: reference_codec_def json_escape_def)
  show "json_string reference_codec s @ x = json_string reference_codec s' @ y \<Longrightarrow> s = s'" for s s' x y
    by (rule json_escape_chars_unique [of s x s' y]) (simp add: reference_codec_def json_escape_def)
  show "float_debug reference_codec f = float_debug reference_codec g \<Longrightarrow> f = g" for f g
    by (simp add: reference_codec_def float_text_inj)
  show "CHR ''}'' \<notin> set (float_debug reference_codec f)" for f
    by (auto simp: reference_codec_def float_text_def dest!: nat_to_string_digits
        simp: is_ascii_digit_def byte_of_def)
qed

end
