(* ===== verification/Judgment.thy ===== *)
theory Judgment
  imports Serialize
begin

text \<open>
  Judgment semantics, \<open>crates/judgment-core/src/judgment.rs\<close>: requests and the checks their
  constructors make, the complete identity of a judgment, results, the validation of a provider's
  answer, the threshold of \<open>jev_bool\<close> and the error values.
\<close>

section \<open>Errors\<close>

datatype error_kind = InvalidInput | InvalidResponse | Provider | Configuration

record judgment_error =
  je_kind :: error_kind
  je_message :: string

type_synonym 'a result = "judgment_error + 'a"

definition invalid_input :: "string \<Rightarrow> judgment_error" where
  "invalid_input m = \<lparr>je_kind = InvalidInput, je_message = m\<rparr>"

definition invalid_response :: "string \<Rightarrow> judgment_error" where
  "invalid_response m = \<lparr>je_kind = InvalidResponse, je_message = m\<rparr>"

definition provider_error :: "string \<Rightarrow> judgment_error" where
  "provider_error m = \<lparr>je_kind = Provider, je_message = m\<rparr>"

definition configuration :: "string \<Rightarrow> judgment_error" where
  "configuration m = \<lparr>je_kind = Configuration, je_message = m\<rparr>"

section \<open>Requests\<close>

definition DEFAULT_REQUEST_KEY :: string where
  "DEFAULT_REQUEST_KEY = ''r0''"

datatype question_kind = Kind_Noul | Kind_Choice

record judgment_request =
  rq_kind :: question_kind
  rq_state :: canonical_state
  rq_criterion :: "string option"
  rq_question :: "string option"
  rq_choices :: "string list"
  rq_request_key :: string

definition noul_request :: "canonical_state \<Rightarrow> string \<Rightarrow> judgment_request result" where
  "noul_request state criterion =
     (if is_blank criterion then Inl (invalid_input ''criterion must not be empty or whitespace'')
      else Inr \<lparr>rq_kind = Kind_Noul, rq_state = state, rq_criterion = Some criterion,
                rq_question = None, rq_choices = [], rq_request_key = DEFAULT_REQUEST_KEY\<rparr>)"

text \<open>The loop over the enumerated labels; \<open>seen\<close> is the slice \<open>choices[..idx]\<close>.\<close>

fun check_labels :: "string list \<Rightarrow> string list \<Rightarrow> unit result" where
  "check_labels seen [] = Inr ()"
| "check_labels seen (label # labels) =
     (if is_blank label
      then Inl (invalid_input ''choices must not contain empty or whitespace labels'')
      else if label \<in> set seen
      then Inl (invalid_input ''choices must not contain duplicate labels'')
      else check_labels (seen @ [label]) labels)"

definition choice_request :: "canonical_state \<Rightarrow> string \<Rightarrow> string list \<Rightarrow> judgment_request result" where
  "choice_request state question choices =
     (if is_blank question then Inl (invalid_input ''question must not be empty or whitespace'')
      else if length choices < 2
      then Inl (invalid_input ''choices must contain at least two labels'')
      else result_bind (check_labels [] choices) (\<lambda>_.
        Inr \<lparr>rq_kind = Kind_Choice, rq_state = state, rq_criterion = None,
             rq_question = Some question, rq_choices = choices,
             rq_request_key = DEFAULT_REQUEST_KEY\<rparr>))"

section \<open>Identities\<close>

record identity_context =
  ic_provider_namespace :: string
  ic_endpoint :: string
  ic_requested_model :: string
  ic_effective_model :: "string option"
  ic_credential_scope :: u64
  ic_model_binding_scope :: u64

record judgment_identity =
  id_canonical_version :: u32
  id_state_kind :: state_kind
  id_canonical_bytes :: string
  id_question_kind :: question_kind
  id_criterion :: "string option"
  id_question :: "string option"
  id_choices :: "string list"
  id_provider_namespace :: string
  id_endpoint :: string
  id_requested_model :: string
  id_effective_model :: "string option"
  id_credential_scope :: u64
  id_unresolved_model_scope :: "u64 option"

definition new_identity :: "judgment_request \<Rightarrow> identity_context \<Rightarrow> judgment_identity" where
  "new_identity request context =
     \<lparr>id_canonical_version = cs_version (rq_state request),
      id_state_kind = cs_kind (rq_state request),
      id_canonical_bytes = cs_canonical (rq_state request),
      id_question_kind = rq_kind request,
      id_criterion = rq_criterion request,
      id_question = rq_question request,
      id_choices = rq_choices request,
      id_provider_namespace = ic_provider_namespace context,
      id_endpoint = ic_endpoint context,
      id_requested_model = ic_requested_model context,
      id_effective_model = ic_effective_model context,
      id_credential_scope = ic_credential_scope context,
      id_unresolved_model_scope =
        (if ic_effective_model context = None then Some (ic_model_binding_scope context) else None)\<rparr>"

definition same_batch_context :: "judgment_identity \<Rightarrow> judgment_identity \<Rightarrow> bool" where
  "same_batch_context a b \<longleftrightarrow>
     id_canonical_version a = id_canonical_version b
     \<and> id_question_kind a = id_question_kind b
     \<and> id_criterion a = id_criterion b
     \<and> id_question a = id_question b
     \<and> id_choices a = id_choices b
     \<and> id_provider_namespace a = id_provider_namespace b
     \<and> id_endpoint a = id_endpoint b
     \<and> id_requested_model a = id_requested_model b
     \<and> id_effective_model a = id_effective_model b
     \<and> id_credential_scope a = id_credential_scope b
     \<and> id_unresolved_model_scope a = id_unresolved_model_scope b"

section \<open>Results and their validation\<close>

datatype judgment_result = Noul f64 | Choice string

definition as_probability :: "judgment_result \<Rightarrow> f64 option" where
  "as_probability r = (case r of Noul p \<Rightarrow> Some p | Choice _ \<Rightarrow> None)"

definition as_label :: "judgment_result \<Rightarrow> string option" where
  "as_label r = (case r of Noul _ \<Rightarrow> None | Choice label \<Rightarrow> Some label)"

definition validate_probability :: "f64 \<Rightarrow> f64 result" where
  "validate_probability value =
     (if \<not> is_finite value
      then Inl (invalid_response ''provider returned a non-finite probability'')
      else if \<not> (f64_le 0 value \<and> f64_le value f64_one)
      then Inl (invalid_response ''provider returned a probability outside [0,1]'')
      else Inr value)"

definition validate_label :: "string \<Rightarrow> string list \<Rightarrow> string result" where
  "validate_label label choices =
     (if list_ex (\<lambda>c. c = label) choices then Inr label
      else Inl (invalid_response ''provider returned a label outside the candidate set''))"

definition validate_judgment_result :: "judgment_request \<Rightarrow> judgment_result \<Rightarrow> unit result" where
  "validate_judgment_result request r =
     (case (rq_kind request, r) of
        (Kind_Noul, Noul probability) \<Rightarrow> result_bind (validate_probability probability) (\<lambda>_. Inr ())
      | (Kind_Choice, Choice label) \<Rightarrow> result_bind (validate_label label (rq_choices request)) (\<lambda>_. Inr ())
      | _ \<Rightarrow> Inl (invalid_response ''provider result type does not match the requested judgment''))"

definition bool_from_probability :: "f64 \<Rightarrow> bool" where
  "bool_from_probability probability = f64_le f64_half probability"

section \<open>The abstract contract\<close>

text \<open>
  What a result must be for a question: a finite probability between 0 and 1 for a binary question,
  an exact member of the candidates for a choice. \<open>well_formed_request\<close> is what the constructors
  establish.
\<close>

definition unit_probability :: "f64 \<Rightarrow> bool" where
  "unit_probability p \<longleftrightarrow> is_finite p \<and> 0 \<le> f64_scaled p \<and> f64_scaled p \<le> 2 ^ 1074"

definition valid_answer :: "question_kind \<Rightarrow> string list \<Rightarrow> judgment_result \<Rightarrow> bool" where
  "valid_answer kind choices r =
     (case r of Noul p \<Rightarrow> kind = Kind_Noul \<and> unit_probability p
      | Choice label \<Rightarrow> kind = Kind_Choice \<and> label \<in> set choices)"

definition well_formed_request :: "judgment_request \<Rightarrow> bool" where
  "well_formed_request rq \<longleftrightarrow>
     (case rq_kind rq of
        Kind_Noul \<Rightarrow> (case rq_criterion rq of None \<Rightarrow> False | Some c \<Rightarrow> \<not> is_blank c)
          \<and> rq_question rq = None \<and> rq_choices rq = []
      | Kind_Choice \<Rightarrow> (case rq_question rq of None \<Rightarrow> False | Some q \<Rightarrow> \<not> is_blank q)
          \<and> rq_criterion rq = None
          \<and> 2 \<le> length (rq_choices rq) \<and> distinct (rq_choices rq)
          \<and> (\<forall>label \<in> set (rq_choices rq). \<not> is_blank label))"

lemma finite_not_nan: "is_finite p \<Longrightarrow> \<not> is_nan p"
  by (simp add: is_finite_def is_nan_def)

lemma validate_probability_iff [simp]: "validate_probability p = Inr q \<longleftrightarrow> q = p \<and> unit_probability p"
  by (auto simp: validate_probability_def unit_probability_def f64_le_def finite_not_nan f64_scaled_one)

lemma validate_label_iff [simp]: "validate_label l cs = Inr m \<longleftrightarrow> m = l \<and> l \<in> set cs"
  by (auto simp: validate_label_def list_ex_iff)

lemma validate_judgment_result_iff [simp]:
  "validate_judgment_result rq r = Inr () \<longleftrightarrow> valid_answer (rq_kind rq) (rq_choices rq) r"
  by (cases r; cases "rq_kind rq")
    (auto simp: validate_judgment_result_def valid_answer_def result_bind_Inr)

lemma check_labels_iff [simp]:
  "check_labels seen labels = Inr () \<longleftrightarrow>
     distinct labels \<and> set labels \<inter> set seen = {} \<and> (\<forall>l \<in> set labels. \<not> is_blank l)"
  by (induction seen labels rule: check_labels.induct) auto

lemma bool_from_probability_iff:
  "unit_probability p \<Longrightarrow> bool_from_probability p \<longleftrightarrow> 2 ^ 1073 \<le> f64_scaled p"
  by (simp add: bool_from_probability_def f64_le_def unit_probability_def finite_not_nan f64_scaled_half)

end
