(* ===== verification/Provider_Protocol.thy ===== *)
theory Provider_Protocol
  imports Judgment
begin

text \<open>
  The provider protocol, \<open>crates/judgment-core/src/provider.rs\<close>: capability declarations, answers and
  metadata, the validation of a batch against its requests, and the \<open>Provider\<close> trait with its
  default methods. A trait object is a record of functions over the state \<open>'w\<close> of the outside world
  (the service, the network), so that a call may answer differently each time.
\<close>

section \<open>Data\<close>

datatype capability_status = Verified | Unsupported | Unknown

record provider_capabilities =
  pc_protocol_version :: string
  pc_noul :: capability_status
  pc_choice :: capability_status
  pc_multi_state_batch :: capability_status
  pc_max_batch_judgments :: "usize option"
  pc_max_choices :: "usize option"

record provider_usage =
  pu_input_tokens :: "u64 option"
  pu_output_tokens :: "u64 option"

record provider_metadata =
  pm_requested_model :: "string option"
  pm_effective_model :: "string option"
  pm_usage :: "provider_usage option"
  pm_inference_time_ms :: "u64 option"
  pm_serialization_time_ns :: "u64 option"
  pm_external_roundtrip_ns :: "u64 option"

record provider_answer =
  pa_request_key :: string
  pa_result :: judgment_result

record provider_batch_result =
  br_answers :: "provider_answer list"
  br_metadata :: provider_metadata

definition supports :: "provider_capabilities \<Rightarrow> question_kind \<Rightarrow> capability_status" where
  "supports caps kind = (case kind of Kind_Noul \<Rightarrow> pc_noul caps | Kind_Choice \<Rightarrow> pc_choice caps)"

definition supports_multi_state_batch :: "provider_capabilities \<Rightarrow> bool" where
  "supports_multi_state_batch caps \<longleftrightarrow> pc_multi_state_batch caps = Verified"

definition default_metadata :: provider_metadata where
  "default_metadata =
     \<lparr>pm_requested_model = None, pm_effective_model = None, pm_usage = None,
      pm_inference_time_ms = None, pm_serialization_time_ns = None, pm_external_roundtrip_ns = None\<rparr>"

section \<open>Validation of a batch\<close>

fun collect_expected :: "string list \<Rightarrow> judgment_request list \<Rightarrow> string list result" where
  "collect_expected expected [] = Inr expected"
| "collect_expected expected (request # requests) =
     (if rq_request_key request \<in> set expected
      then Inl (invalid_response ''provider batch contains duplicate request keys'')
      else collect_expected (rq_request_key request # expected) requests)"

definition validate_answer :: "judgment_request \<Rightarrow> judgment_result \<Rightarrow> unit result" where
  "validate_answer request r =
     (case (rq_kind request, r) of
        (Kind_Noul, Noul probability) \<Rightarrow> result_bind (validate_probability probability) (\<lambda>_. Inr ())
      | (Kind_Choice, Choice label) \<Rightarrow> result_bind (validate_label label (rq_choices request)) (\<lambda>_. Inr ())
      | _ \<Rightarrow> Inl (invalid_response ''provider batch answer type does not match the request''))"

fun check_answers ::
  "judgment_request list \<Rightarrow> string list \<Rightarrow> provider_answer list \<Rightarrow> string list result" where
  "check_answers requests seen [] = Inr seen"
| "check_answers requests seen (answer # answers) =
     (if pa_request_key answer \<in> set seen
      then Inl (invalid_response ''provider batch contains duplicate answer keys'')
      else case find (\<lambda>request. rq_request_key request = pa_request_key answer) requests of
        None \<Rightarrow> Inl (invalid_response ''provider batch contains an unknown answer key'')
      | Some request \<Rightarrow>
          result_bind (validate_answer request (pa_result answer)) (\<lambda>_.
            check_answers requests (pa_request_key answer # seen) answers))"

definition validate_batch_result ::
  "judgment_request list \<Rightarrow> provider_batch_result \<Rightarrow> unit result" where
  "validate_batch_result requests response =
     result_bind (collect_expected [] requests) (\<lambda>expected.
       if length (br_answers response) \<noteq> length requests
       then Inl (invalid_response ''provider batch answer count does not match the request count'')
       else result_bind (check_answers requests [] (br_answers response)) (\<lambda>seen.
         if set seen \<noteq> set expected
         then Inl (invalid_response ''provider batch answer keys do not match the request keys'')
         else Inr ()))"

section \<open>The trait and its default methods\<close>

record 'w provider =
  p_capabilities :: provider_capabilities
  p_makes_external_request :: bool
  p_judge :: "judgment_request \<Rightarrow> 'w \<Rightarrow> judgment_result result \<times> 'w"
  p_judge_with_metadata :: "judgment_request \<Rightarrow> 'w \<Rightarrow> provider_batch_result result \<times> 'w"
  p_cache_model_identity :: "string \<Rightarrow> string option"
  p_estimate_request_bytes :: "judgment_request list \<Rightarrow> usize"
  p_judge_many :: "judgment_request list \<Rightarrow> 'w \<Rightarrow> provider_batch_result result \<times> 'w"

definition opt_len :: "string option \<Rightarrow> usize" where
  "opt_len s = (case s of None \<Rightarrow> 0 | Some t \<Rightarrow> usize_of (length t))"

definition default_judge_with_metadata ::
  "(judgment_request \<Rightarrow> 'w \<Rightarrow> judgment_result result \<times> 'w)
   \<Rightarrow> judgment_request \<Rightarrow> 'w \<Rightarrow> provider_batch_result result \<times> 'w" where
  "default_judge_with_metadata judge request w =
     (case judge request w of
        (Inl e, w') \<Rightarrow> (Inl e, w')
      | (Inr r, w') \<Rightarrow>
          (Inr \<lparr>br_answers = [\<lparr>pa_request_key = rq_request_key request, pa_result = r\<rparr>],
                br_metadata = default_metadata\<rparr>, w'))"

definition default_cache_model_identity :: "string \<Rightarrow> string option" where
  "default_cache_model_identity requested_model = None"

definition add_request_estimate :: "usize \<Rightarrow> judgment_request \<Rightarrow> usize" where
  "add_request_estimate bytes request =
     (let text_bytes = sat_add (sat_add (opt_len (rq_criterion request)) (opt_len (rq_question request)))
                         (sum_list (map (\<lambda>c. usize_of (length c)) (rq_choices request)))
      in sat_add (sat_add (sat_add (sat_add bytes 512)
           (sat_mul (usize_of (length (cs_canonical (rq_state request)))) 6))
           (sat_mul text_bytes 6))
           (sat_mul (usize_of (length (rq_request_key request))) 6))"

definition default_estimate_request_bytes :: "judgment_request list \<Rightarrow> usize" where
  "default_estimate_request_bytes requests = foldl add_request_estimate 1024 requests"

definition default_judge_many ::
  "provider_capabilities \<Rightarrow> (judgment_request \<Rightarrow> 'w \<Rightarrow> judgment_result result \<times> 'w)
   \<Rightarrow> judgment_request list \<Rightarrow> 'w \<Rightarrow> provider_batch_result result \<times> 'w" where
  "default_judge_many caps judge requests w =
     (case requests of
        [request] \<Rightarrow>
          (if supports caps (rq_kind request) \<noteq> Verified
           then (Inl (configuration ''provider capability for this question type is not verified''), w)
           else case judge request w of
             (Inl e, w') \<Rightarrow> (Inl e, w')
           | (Inr r, w') \<Rightarrow>
               let response = \<lparr>br_answers = [\<lparr>pa_request_key = rq_request_key request, pa_result = r\<rparr>],
                               br_metadata = default_metadata\<rparr>
               in (result_bind (validate_batch_result requests response) (\<lambda>_. Inr response), w'))
      | _ \<Rightarrow> (Inl (configuration ''provider adapter does not implement multi-judgment requests''), w))"

section \<open>What validation establishes\<close>

lemma collect_expected_iff:
  "collect_expected ex rqs = Inr ks \<longleftrightarrow>
     ks = rev (map rq_request_key rqs) @ ex \<and> distinct (map rq_request_key rqs)
     \<and> set (map rq_request_key rqs) \<inter> set ex = {}"
  by (induction ex rqs arbitrary: ks rule: collect_expected.induct) auto

lemma validate_answer_iff [simp]:
  "validate_answer rq r = Inr () \<longleftrightarrow> valid_answer (rq_kind rq) (rq_choices rq) r"
  by (cases r; cases "rq_kind rq") (auto simp: validate_answer_def valid_answer_def result_bind_Inr)

definition answers_request :: "judgment_request list \<Rightarrow> provider_answer \<Rightarrow> bool" where
  "answers_request requests a \<longleftrightarrow>
     (\<exists>rq. find (\<lambda>rq. rq_request_key rq = pa_request_key a) requests = Some rq
        \<and> valid_answer (rq_kind rq) (rq_choices rq) (pa_result a))"

lemma check_answers_iff:
  "check_answers rqs seen as = Inr ks \<longleftrightarrow>
     ks = rev (map pa_request_key as) @ seen \<and> distinct (map pa_request_key as)
     \<and> set (map pa_request_key as) \<inter> set seen = {} \<and> (\<forall>a \<in> set as. answers_request rqs a)"
  by (induction rqs seen as arbitrary: ks rule: check_answers.induct)
    (auto simp: answers_request_def result_bind_Inr split: option.splits)

definition covers_batch :: "judgment_request list \<Rightarrow> provider_batch_result \<Rightarrow> bool" where
  "covers_batch requests response \<longleftrightarrow>
     distinct (map rq_request_key requests)
     \<and> distinct (map pa_request_key (br_answers response))
     \<and> set (map pa_request_key (br_answers response)) = set (map rq_request_key requests)
     \<and> (\<forall>a \<in> set (br_answers response). answers_request requests a)"

lemma validate_batch_result_iff [simp]:
  "validate_batch_result requests response = Inr () \<longleftrightarrow> covers_batch requests response"
proof -
  have "length (br_answers response) = length requests" if "covers_batch requests response"
  proof -
    have "length (map pa_request_key (br_answers response))
        = card (set (map pa_request_key (br_answers response)))"
      using that by (subst distinct_card) (simp_all add: covers_batch_def)
    also have "\<dots> = card (set (map rq_request_key requests))"
      using that by (simp add: covers_batch_def)
    also have "\<dots> = length (map rq_request_key requests)"
      using that by (subst distinct_card) (simp_all add: covers_batch_def)
    finally show ?thesis by simp
  qed
  then show ?thesis
    by (auto simp: validate_batch_result_def result_bind_Inr collect_expected_iff check_answers_iff
        covers_batch_def)
qed

lemma find_distinct_key:
  "distinct (map rq_request_key requests) \<Longrightarrow> rq \<in> set requests \<Longrightarrow>
   find (\<lambda>r. rq_request_key r = rq_request_key rq) requests = Some rq"
  by (induction requests) (auto simp: rev_image_eqI)

text \<open>The answer the executor looks up under a request's key is a valid answer for that request.\<close>

definition answer_map :: "provider_batch_result \<Rightarrow> string \<Rightarrow> judgment_result option" where
  "answer_map response = map_of (rev (map (\<lambda>a. (pa_request_key a, pa_result a)) (br_answers response)))"

lemma covers_batch_lookup:
  assumes "covers_batch requests response" "rq \<in> set requests"
  shows "\<exists>r. answer_map response (rq_request_key rq) = Some r \<and> valid_answer (rq_kind rq) (rq_choices rq) r"
proof -
  let ?kvs = "map (\<lambda>a. (pa_request_key a, pa_result a)) (br_answers response)"
  have dist: "distinct (map fst ?kvs)" using assms(1) by (simp add: covers_batch_def comp_def)
  obtain a where a: "a \<in> set (br_answers response)" "pa_request_key a = rq_request_key rq"
    using assms by (force simp: covers_batch_def)
  then have "answer_map response (rq_request_key rq) = Some (pa_result a)"
    using dist unfolding answer_map_def
    by (intro map_of_is_SomeI) (auto simp: rev_map [symmetric] image_iff intro!: bexI [of _ a])
  moreover have "answers_request requests a"
    using assms(1) a(1) by (simp add: covers_batch_def)
  then have "valid_answer (rq_kind rq) (rq_choices rq) (pa_result a)"
    using assms a(2) by (auto simp: answers_request_def covers_batch_def find_distinct_key)
  ultimately show ?thesis by blast
qed

lemma covers_single:
  assumes "covers_batch [rq] response"
  shows "\<exists>a. br_answers response = [a] \<and> pa_request_key a = rq_request_key rq
    \<and> valid_answer (rq_kind rq) (rq_choices rq) (pa_result a)"
proof -
  have d: "distinct (map pa_request_key (br_answers response))"
    and s: "set (map pa_request_key (br_answers response)) = {rq_request_key rq}"
    and v: "\<forall>a \<in> set (br_answers response). answers_request [rq] a"
    using assms by (simp_all add: covers_batch_def)
  have "length (map pa_request_key (br_answers response)) = 1"
    using distinct_card [OF d] s by simp
  then obtain a where a: "br_answers response = [a]" by (auto simp: length_Suc_conv)
  then show ?thesis using s v by (auto simp: answers_request_def split: if_splits)
qed

end
