(* ===== verification/Core_Properties.thy ===== *)
theory Core_Properties
  imports Provider_Protocol
begin

text \<open>
  The properties of the data the core exchanges: canonical states and their bytes, requests and
  identities, provider answers and their validation.
\<close>

section \<open>Canonical bytes\<close>

text \<open>C31: The versioned bytes of a state are self-delimiting: whatever follows them, they determine
  the version, the kind and the canonical payload.\<close>

theorem versioned_bytes_self_delimiting:
  assumes "length (cs_canonical a) < 2 ^ 64" "length (cs_canonical b) < 2 ^ 64"
    and "versioned_canonical_bytes a @ x = versioned_canonical_bytes b @ y"
  shows "cs_version a = cs_version b \<and> cs_kind a = cs_kind b \<and> cs_canonical a = cs_canonical b \<and> x = y"
  using assms by (rule versioned_bytes_prefix_free)

theorem versioned_bytes_witness:
  "cs_canonical (encode_text ''a'') = cs_canonical (encode_text ''a'')
   \<and> versioned_canonical_bytes (encode_text ''a'') \<noteq> versioned_canonical_bytes (encode_text ''b'')"
  using versioned_bytes_self_delimiting [of "encode_text ''a''" "encode_text ''b''" "[]" "[]"]
  by (auto simp: encode_text_def)

text \<open>C30: Two structs with the same canonical bytes are the same struct: field names, types and values
  of any nesting are determined by the encoding, with 128-bit integers given as decimal texts. The
  JSON string and float printers are those of the library, assumed unambiguous.\<close>

theorem encode_struct_injective:
  assumes "text_codec_laws c"
    and "encode_struct c fs = Inr a" "encode_struct c gs = Inr b"
    and "unquoted_fields fs" "unquoted_fields gs"
    and "cs_canonical a = cs_canonical b"
  shows "fs = gs"
  using text_codec_laws.encode_struct_inj [OF assms] .

theorem encode_struct_witness:
  "\<exists>a. encode_struct reference_codec [(''n'', TV_Int 5)] = Inr a
     \<and> (\<forall>b. encode_struct reference_codec [(''n'', TV_UInt 5)] = Inr b \<longrightarrow> cs_canonical a \<noteq> cs_canonical b)"
proof -
  have "text_codec_laws reference_codec" by unfold_locales
  from encode_struct_injective [OF this, of "[(''n'', TV_Int 5)]" _ "[(''n'', TV_UInt 5)]"]
  show ?thesis by (auto simp: encode_struct_def result_bind_def)
qed

fun finite_value :: "typed_value \<Rightarrow> bool" and finite_fields :: "(string \<times> typed_value) list \<Rightarrow> bool" where
  "finite_value (TV_Float v) \<longleftrightarrow> is_finite v"
| "finite_value (TV_Struct fs) \<longleftrightarrow> finite_fields fs"
| "finite_value _ \<longleftrightarrow> True"
| "finite_fields [] \<longleftrightarrow> True"
| "finite_fields ((name, v) # fs) \<longleftrightarrow> finite_value v \<and> finite_fields fs"

lemma validate_value_iff:
  "validate_value v = Inr () \<longleftrightarrow> finite_value v" "validate_fields fs = Inr () \<longleftrightarrow> finite_fields fs"
  by (induction v and fs rule: validate_value_validate_fields.induct) (auto simp: result_bind_Inr)

text \<open>A struct state is refused exactly when some float in it, at any depth, is not finite; an
  accepted state is stamped with the current version.\<close>

theorem encode_struct_accepts_iff_finite:
  "(case encode_struct c fs of
      Inl message \<Rightarrow> \<not> finite_fields fs
    | Inr state \<Rightarrow> finite_fields fs \<and> cs_version state = CANONICAL_VERSION \<and> cs_value state = TV_Struct fs)"
  using validate_value_iff(2) [of fs]
  by (cases "validate_fields fs") (auto simp: encode_struct_def result_bind_def)

text \<open>C38: A DECIMAL is rendered exactly, at every scale: its sign, at least one integer digit and, when
  the scale is positive, a point and exactly as many fraction digits as the scale; the digits read as a
  number are the magnitude of the raw value.\<close>

theorem format_decimal_exact:
  "\<exists>ip fp. format_decimal raw scale
       = (if sint raw < 0 then ''-'' else '''') @ ip @ (if scale = 0 then '''' else ''.'' @ fp)
     \<and> ip \<noteq> [] \<and> length fp = unat scale \<and> all_digits (ip @ fp)
     \<and> string_to_nat (ip @ fp) = nat \<bar>sint raw\<bar>"
proof (cases "scale = 0")
  case True
  then show ?thesis
    by (intro exI [of _ "nat_to_string (nat \<bar>sint raw\<bar>)"] exI [of _ "[]"])
      (simp add: format_decimal_def int_to_string_def)
next
  case False
  then have "0 < scale" by (simp add: word_gt_0)
  from format_decimal_parts [OF this, of raw] show ?thesis using False by simp
qed

section \<open>Requests and identities\<close>

text \<open>A request is constructed exactly from admissible input, and is then well-formed: a criterion
  that is not blank, or a question that is not blank with at least two distinct non-blank labels. Any
  other input is an invalid-input error.\<close>

theorem request_constructors_validate:
  "(case noul_request state criterion of
      Inl e \<Rightarrow> is_blank criterion \<and> je_kind e = InvalidInput
    | Inr rq \<Rightarrow> \<not> is_blank criterion \<and> well_formed_request rq \<and> rq_state rq = state)
   \<and> (case choice_request state question choices of
      Inl e \<Rightarrow> je_kind e = InvalidInput \<and> (is_blank question \<or> length choices < 2 \<or> \<not> distinct choices
        \<or> (\<exists>label \<in> set choices. is_blank label))
    | Inr rq \<Rightarrow> well_formed_request rq \<and> rq_state rq = state \<and> rq_choices rq = choices)"
proof -
  have err: "je_kind e = InvalidInput" if "check_labels seen labels = Inl e" for seen labels e
    using that
    by (induction seen labels rule: check_labels.induct) (auto simp: invalid_input_def split: if_splits)
  have bad: "\<not> distinct labels \<or> (\<exists>l \<in> set labels. is_blank l)" if "check_labels [] labels = Inl e" for labels e
    using that check_labels_iff [of "[]" labels] by auto
  have noul: "case noul_request state criterion of
      Inl e \<Rightarrow> is_blank criterion \<and> je_kind e = InvalidInput
    | Inr rq \<Rightarrow> \<not> is_blank criterion \<and> well_formed_request rq \<and> rq_state rq = state"
    by (simp add: noul_request_def well_formed_request_def invalid_input_def)
  show ?thesis
  proof (cases "check_labels [] choices")
    case (Inl e)
    then show ?thesis
      using noul err [OF Inl] bad [OF Inl]
      by (simp add: choice_request_def invalid_input_def result_bind_def)
  next
    case (Inr u)
    then have "distinct choices \<and> (\<forall>l \<in> set choices. \<not> is_blank l)"
      using check_labels_iff [of "[]" choices] by simp
    then show ?thesis
      using noul Inr
      by (simp add: choice_request_def well_formed_request_def invalid_input_def result_bind_def
          del: check_labels_iff)
  qed
qed

text \<open>A state as the encoders make it; a struct with its 128-bit integers given as decimal texts.\<close>

definition encoded_state :: "text_codec \<Rightarrow> canonical_state \<Rightarrow> bool" where
  "encoded_state c st \<longleftrightarrow>
     (\<exists>text. st = encode_text text) \<or> (\<exists>fs. encode_struct c fs = Inr st \<and> unquoted_fields fs)"

lemma encoded_state_eq:
  assumes "text_codec_laws c" "encoded_state c st" "encoded_state c st'"
  shows "cs_version st = cs_version st'"
    and "cs_kind st = cs_kind st' \<and> cs_canonical st = cs_canonical st' \<longleftrightarrow> cs_value st = cs_value st'"
proof -
  have struct: "cs_version st = CANONICAL_VERSION \<and> cs_kind st = Kind_Struct \<and> cs_value st = TV_Struct fs"
    if "encode_struct c fs = Inr st" for st fs
    using that by (auto simp: encode_struct_def result_bind_Inr)
  show "cs_version st = cs_version st'"
    using assms(2,3) struct by (auto simp: encoded_state_def encode_text_def)
  have same: "cs_canonical st = cs_canonical st' \<longleftrightarrow> fs = gs"
    if "encode_struct c fs = Inr st" "encode_struct c gs = Inr st'" "unquoted_fields fs" "unquoted_fields gs" for fs gs
    using text_codec_laws.encode_struct_inj [OF assms(1) that] that by auto
  show "cs_kind st = cs_kind st' \<and> cs_canonical st = cs_canonical st' \<longleftrightarrow> cs_value st = cs_value st'"
    using assms(2,3) struct same by (auto simp: encoded_state_def encode_text_def)
qed

text \<open>C32: Two requests share an identity exactly when they ask the same question of the same state in the
  same context. For states made by the encoders the canonical bytes of an identity stand for the value of
  the state: identities coincide exactly when the state values, the kind of question, its criterion or
  text and its candidates in order coincide, together with the provider, endpoint, requested model, model
  version and credential scope, and, only while the model version is unknown, the scope that binds the
  model to one query. The request key is no part of an identity, and neither is how a state was built.\<close>

theorem identity_determines_judgment:
  assumes "text_codec_laws c" and "encoded_state c (rq_state rq)" "encoded_state c (rq_state rq')"
  shows "new_identity rq ctx = new_identity rq' ctx' \<longleftrightarrow>
     cs_value (rq_state rq) = cs_value (rq_state rq')
     \<and> rq_kind rq = rq_kind rq' \<and> rq_criterion rq = rq_criterion rq' \<and> rq_question rq = rq_question rq'
     \<and> rq_choices rq = rq_choices rq'
     \<and> ic_provider_namespace ctx = ic_provider_namespace ctx' \<and> ic_endpoint ctx = ic_endpoint ctx'
     \<and> ic_requested_model ctx = ic_requested_model ctx' \<and> ic_effective_model ctx = ic_effective_model ctx'
     \<and> ic_credential_scope ctx = ic_credential_scope ctx'
     \<and> (ic_effective_model ctx = None \<longrightarrow> ic_model_binding_scope ctx = ic_model_binding_scope ctx')"
  using encoded_state_eq [OF assms] by (auto simp: new_identity_def)

theorem identity_determines_witness:
  "\<exists>st st'. encode_struct reference_codec [(''n'', TV_Int 5)] = Inr st \<and> encode_struct reference_codec [(''n'', TV_UInt 5)] = Inr st'
     \<and> (\<forall>ctx. new_identity \<lparr>rq_kind = Kind_Noul, rq_state = st, rq_criterion = Some ''c'', rq_question = None,
          rq_choices = [], rq_request_key = ''r0''\<rparr> ctx
       \<noteq> new_identity \<lparr>rq_kind = Kind_Noul, rq_state = st', rq_criterion = Some ''c'', rq_question = None,
          rq_choices = [], rq_request_key = ''r0''\<rparr> ctx)"
proof -
  have laws: "text_codec_laws reference_codec" by unfold_locales
  obtain st st' where st: "encode_struct reference_codec [(''n'', TV_Int 5)] = Inr st" "cs_value st = TV_Struct [(''n'', TV_Int 5)]"
    "encode_struct reference_codec [(''n'', TV_UInt 5)] = Inr st'" "cs_value st' = TV_Struct [(''n'', TV_UInt 5)]"
    by (simp add: encode_struct_def result_bind_def)
  have "encoded_state reference_codec st" "encoded_state reference_codec st'"
    unfolding encoded_state_def
    by (intro disjI2 exI [of _ "[(''n'', TV_Int 5)]"] exI [of _ "[(''n'', TV_UInt 5)]"], simp add: st)+
  then show ?thesis
    using st by (intro exI [of _ st] exI [of _ st']) (simp add: identity_determines_judgment [OF laws])
qed

section \<open>Answers\<close>

text \<open>A result is accepted exactly when it is a valid answer to its request: a finite probability
  between zero and one for a binary question, one of the candidates for a choice. Every refusal is an
  invalid-response error.\<close>

theorem result_validation_exact:
  "(case validate_judgment_result rq r of
      Inl e \<Rightarrow> \<not> valid_answer (rq_kind rq) (rq_choices rq) r \<and> je_kind e = InvalidResponse
    | Inr _ \<Rightarrow> valid_answer (rq_kind rq) (rq_choices rq) r)"
proof (cases "validate_judgment_result rq r")
  case (Inl e)
  have "je_kind e = InvalidResponse"
    using Inl
    by (cases r; cases "rq_kind rq")
      (auto simp: validate_judgment_result_def validate_probability_def validate_label_def
        invalid_response_def result_bind_def split: if_splits)
  then show ?thesis using Inl validate_judgment_result_iff [of rq r] by auto
next
  case (Inr u)
  then have "valid_answer (rq_kind rq) (rq_choices rq) r"
    using validate_judgment_result_iff [of rq r] by simp
  then show ?thesis using Inr by (simp del: validate_judgment_result_iff)
qed

text \<open>The boolean reading of a valid probability is exact at the threshold: true exactly from one
  half on, with no rounding.\<close>

theorem boolean_threshold_exact:
  assumes "unit_probability p"
  shows "bool_from_probability p \<longleftrightarrow> 2 ^ 1073 \<le> f64_scaled p"
  using assms by (rule bool_from_probability_iff)

text \<open>C29: A batch response is accepted exactly when it answers each request once and validly: request
  keys and answer keys are distinct, they are the same keys, and each answer is valid for the request
  of its key, whatever the order of the answers.\<close>

theorem batch_validation_exact:
  "validate_batch_result requests response = Inr () \<longleftrightarrow>
     distinct (map rq_request_key requests) \<and> distinct (map pa_request_key (br_answers response))
     \<and> set (map pa_request_key (br_answers response)) = set (map rq_request_key requests)
     \<and> (\<forall>a \<in> set (br_answers response). \<forall>rq \<in> set requests. rq_request_key rq = pa_request_key a \<longrightarrow>
          valid_answer (rq_kind rq) (rq_choices rq) (pa_result a))"
proof -
  have one: "answers_request requests a \<longleftrightarrow> (\<forall>rq \<in> set requests. rq_request_key rq = pa_request_key a \<longrightarrow>
      valid_answer (rq_kind rq) (rq_choices rq) (pa_result a))"
    if d: "distinct (map rq_request_key requests)" and m: "pa_request_key a \<in> set (map rq_request_key requests)" for a
  proof -
    obtain rq where rq: "rq \<in> set requests" "rq_request_key rq = pa_request_key a" using m by auto
    have uniq: "rq' = rq" if "rq' \<in> set requests" "rq_request_key rq' = pa_request_key a" for rq'
      using that rq d by (simp add: distinct_map inj_on_def)
    have "find (\<lambda>r. rq_request_key r = pa_request_key a) requests = Some rq"
      using find_distinct_key [OF d rq(1)] rq(2) by simp
    then have "answers_request requests a \<longleftrightarrow> valid_answer (rq_kind rq) (rq_choices rq) (pa_result a)"
      by (simp add: answers_request_def)
    then show ?thesis using rq uniq by blast
  qed
  show ?thesis
    unfolding validate_batch_result_iff covers_batch_def
  proof (intro conj_cong refl ball_cong)
    fix a
    assume d: "distinct (map rq_request_key requests)"
      and k: "set (map pa_request_key (br_answers response)) = set (map rq_request_key requests)"
      and a: "a \<in> set (br_answers response)"
    have "pa_request_key a \<in> set (map rq_request_key requests)"
      unfolding k [symmetric] using a by simp
    then show "answers_request requests a \<longleftrightarrow> (\<forall>rq \<in> set requests. rq_request_key rq = pa_request_key a \<longrightarrow>
        valid_answer (rq_kind rq) (rq_choices rq) (pa_result a))" by (rule one [OF d])
  qed
qed

theorem batch_validation_witness:
  "validate_batch_result [\<lparr>rq_kind = Kind_Choice, rq_state = encode_text '''', rq_criterion = None,
      rq_question = Some ''q'', rq_choices = [''a'', ''b''], rq_request_key = ''r0''\<rparr>]
     \<lparr>br_answers = [\<lparr>pa_request_key = ''r0'', pa_result = Choice ''b''\<rparr>], br_metadata = default_metadata\<rparr> = Inr ()"
  by (subst batch_validation_exact) (simp add: valid_answer_def)

end
