(* ===== verification/Metrics.thy ===== *)
theory Metrics
  imports Json
begin

text \<open>
  \<open>crates/judgment-core/src/metrics.rs\<close>: the counters of one query and the redacted profile built from
  them. The profile is the JSON tree handed to \<open>serde_json::to_string\<close>. Floating-point arithmetic is
  Rust's: each operation is correctly rounded (\<open>f64_ratio\<close>, nearest, ties to even).
\<close>

section \<open>Positive floating-point arithmetic\<close>

text \<open>
  The correctly rounded quotient of naturals of any size whose quotient is a normal number, and the
  arithmetic of non-negative finite values through it.
\<close>

definition f64_ratio_scale :: "nat \<Rightarrow> nat \<Rightarrow> int" where
  "f64_ratio_scale n d =
     (let k = 52 + int (bit_length d) - int (bit_length n)
      in if n * 2 ^ nat k < 2 ^ 52 * d * 2 ^ nat (- k) then k + 1 else k)"

definition f64_ratio :: "nat \<Rightarrow> nat \<Rightarrow> f64" where
  "f64_ratio n d =
     (if n = 0 then 0
      else let k = f64_ratio_scale n d;
               m = round_half_even (n * 2 ^ nat k) (d * 2 ^ nat (- k))
           in word_of_int ((1075 - k) * 2 ^ 52 + int m - 2 ^ 52))"

definition f64_of_nat :: "nat \<Rightarrow> f64" where
  "f64_of_nat n = f64_ratio n 1"

definition f64_mul :: "f64 \<Rightarrow> f64 \<Rightarrow> f64" where
  "f64_mul a b = f64_ratio (f64_magnitude a * f64_magnitude b) (2 ^ 2148)"

definition f64_div :: "f64 \<Rightarrow> f64 \<Rightarrow> f64" where
  "f64_div a b = f64_ratio (f64_magnitude a) (f64_magnitude b)"

section \<open>Counters\<close>

record query_counts =
  qc_input_rows :: u64
  qc_null_rows :: u64
  qc_valid_rows :: u64
  qc_unique_judgments :: u64
  qc_deduplicated_rows :: u64
  qc_cache_hit_judgments :: u64
  qc_provider_invocations :: u64
  qc_external_requests :: u64
  qc_batched_requests :: u64
  qc_batch_size_histogram :: "(usize \<times> u64) list"
  qc_failed_requests :: u64
  qc_reported_models :: "string list"
  qc_input_tokens :: "u64 option"
  qc_output_tokens :: "u64 option"
  qc_usage_response_count :: u64
  qc_usage_missing_count :: u64
  qc_serialization_time_ns :: u128
  qc_serialization_observed_count :: u64
  qc_external_roundtrip_ns :: u128
  qc_external_roundtrip_count :: u64
  qc_inference_time_ms :: u128
  qc_inference_observed_count :: u64
  qc_inference_missing_count :: u64

definition default_counts :: query_counts where
  "default_counts =
     \<lparr>qc_input_rows = 0, qc_null_rows = 0, qc_valid_rows = 0, qc_unique_judgments = 0,
      qc_deduplicated_rows = 0, qc_cache_hit_judgments = 0, qc_provider_invocations = 0,
      qc_external_requests = 0, qc_batched_requests = 0, qc_batch_size_histogram = [],
      qc_failed_requests = 0, qc_reported_models = [], qc_input_tokens = None, qc_output_tokens = None,
      qc_usage_response_count = 0, qc_usage_missing_count = 0, qc_serialization_time_ns = 0,
      qc_serialization_observed_count = 0, qc_external_roundtrip_ns = 0, qc_external_roundtrip_count = 0,
      qc_inference_time_ms = 0, qc_inference_observed_count = 0, qc_inference_missing_count = 0\<rparr>"

record profile_report =
  pr_status :: string
  pr_provider :: "string option"
  pr_requested_model :: "string option"
  pr_counts :: query_counts
  pr_elapsed :: nat
  pr_detailed_timing :: bool

section \<open>The profile\<close>

definition json_u64 :: "u64 \<Rightarrow> json" where
  "json_u64 n = JNumber (PosInt n)"

definition json_opt :: "('a \<Rightarrow> json) \<Rightarrow> 'a option \<Rightarrow> json" where
  "json_opt f x = (case x of None \<Rightarrow> JNull | Some y \<Rightarrow> f y)"

definition millis :: "nat \<Rightarrow> f64" where
  "millis nanoseconds = f64_div (f64_of_nat nanoseconds) (f64_of_nat 1000000)"

definition usage_complete :: "query_counts \<Rightarrow> bool" where
  "usage_complete counts \<longleftrightarrow> 0 < qc_external_requests counts \<and> qc_usage_missing_count counts = 0
     \<and> qc_usage_response_count counts = qc_external_requests counts"

definition inference_complete :: "query_counts \<Rightarrow> bool" where
  "inference_complete counts \<longleftrightarrow> 0 < qc_external_requests counts \<and> qc_inference_missing_count counts = 0
     \<and> qc_inference_observed_count counts = qc_external_requests counts"

definition usage_input :: "query_counts \<Rightarrow> u64 option" where
  "usage_input counts = (if usage_complete counts then qc_input_tokens counts else None)"

definition usage_output :: "query_counts \<Rightarrow> u64 option" where
  "usage_output counts = (if usage_complete counts then qc_output_tokens counts else None)"

definition timing :: "profile_report \<Rightarrow> f64 \<Rightarrow> bool \<Rightarrow> json" where
  "timing report value observed = (if pr_detailed_timing report \<and> observed then json_of_f64 value else JNull)"

definition typesafe_priced :: "profile_report \<Rightarrow> bool" where
  "typesafe_priced report \<longleftrightarrow> pr_provider report = Some ''typesafe''"

definition cost_unknown_reason :: "profile_report \<Rightarrow> string" where
  "cost_unknown_reason report =
     (let counts = pr_counts report
      in if \<not> typesafe_priced report then ''provider_pricing_not_applicable_or_unverified''
         else if qc_external_requests counts = 0 then ''no_external_requests''
         else if 0 < qc_failed_requests counts then ''failed_requests_may_be_billable''
         else if \<not> usage_complete counts \<or> usage_input counts = None
         then ''provider_usage_unavailable_or_incomplete''
         else '''')"

definition unit_rate :: f64 where
  "unit_rate = f64_ratio 42 1000"

definition BILLING_UNIT :: string where
  "BILLING_UNIT = ''USD per 1,000,000 input tokens''"

definition RATE_SOURCE :: string where
  "RATE_SOURCE = ''https://typesafe.ai/blog/introducing-system-one-models-and-jev''"

definition RATE_OBSERVED_AT :: string where
  "RATE_OBSERVED_AT = ''2026-09-23''"

definition cost_amount :: "u64 \<Rightarrow> f64" where
  "cost_amount tokens = f64_div (f64_mul (f64_of_nat (unat tokens)) unit_rate) (f64_of_nat 1000000)"

definition cost_estimate :: "profile_report \<Rightarrow> json" where
  "cost_estimate report =
     (let reason = cost_unknown_reason report;
          priced = (\<lambda>value. if typesafe_priced report then value else JNull)
      in if reason = ''''
         then json_object
           [(''amount'', json_of_f64 (cost_amount (case usage_input (pr_counts report) of None \<Rightarrow> 0 | Some t \<Rightarrow> t))),
            (''currency'', JString ''USD''),
            (''billing_unit'', JString BILLING_UNIT),
            (''unit_rate'', json_of_f64 unit_rate),
            (''rate_source'', JString RATE_SOURCE),
            (''rate_observed_at'', JString RATE_OBSERVED_AT),
            (''unknown_reason'', JNull)]
         else json_object
           [(''amount'', JNull),
            (''currency'', priced (JString ''USD'')),
            (''billing_unit'', priced (JString BILLING_UNIT)),
            (''unit_rate'', priced (json_of_f64 unit_rate)),
            (''rate_source'', priced (JString RATE_SOURCE)),
            (''rate_observed_at'', priced (JString RATE_OBSERVED_AT)),
            (''unknown_reason'', JString reason)])"

definition counts_json :: "query_counts \<Rightarrow> json" where
  "counts_json counts = json_object
     [(''input_rows'', json_u64 (qc_input_rows counts)),
      (''null_rows'', json_u64 (qc_null_rows counts)),
      (''valid_rows'', json_u64 (qc_valid_rows counts)),
      (''unique_judgments'', json_u64 (qc_unique_judgments counts)),
      (''deduplicated_rows'', json_u64 (qc_deduplicated_rows counts)),
      (''cache_hit_judgments'', json_u64 (qc_cache_hit_judgments counts)),
      (''provider_invocations'', json_u64 (qc_provider_invocations counts)),
      (''external_requests'', json_u64 (qc_external_requests counts)),
      (''batched_requests'', json_u64 (qc_batched_requests counts)),
      (''batch_size_histogram'',
         json_object (map (\<lambda>(size, count). (nat_to_string (unat size), json_u64 count))
                        (qc_batch_size_histogram counts))),
      (''failed_requests'', json_u64 (qc_failed_requests counts))]"

definition timing_json :: "profile_report \<Rightarrow> json" where
  "timing_json report =
     (let counts = pr_counts report; requests = qc_external_requests counts
      in json_object
        [(''query_wall'', json_of_f64 (millis (pr_elapsed report))),
         (''serialization_sum'', timing report (millis (unat (qc_serialization_time_ns counts)))
            (qc_serialization_observed_count counts = requests \<and> 0 < requests)),
         (''external_roundtrip_sum'', timing report (millis (unat (qc_external_roundtrip_ns counts)))
            (qc_external_roundtrip_count counts = requests \<and> 0 < requests)),
         (''server_inference_sum'',
            if inference_complete counts then json_of_f64 (f64_of_nat (unat (qc_inference_time_ms counts))) else JNull),
         (''pure_network_sum'', JNull)])"

definition render_profile :: "profile_report \<Rightarrow> json" where
  "render_profile report =
     (let counts = pr_counts report
      in json_object
        [(''schema_version'', json_u64 1),
         (''status'', JString (pr_status report)),
         (''provider'', json_opt JString (pr_provider report)),
         (''requested_model'', json_opt JString (pr_requested_model report)),
         (''reported_models'', JArray (map JString (qc_reported_models counts))),
         (''counts'', counts_json counts),
         (''timing_ms'', timing_json report),
         (''usage'', json_object
           [(''input_tokens'', json_opt json_u64 (usage_input counts)),
            (''output_tokens'', json_opt json_u64 (usage_output counts)),
            (''missing_response_count'', json_u64 (qc_usage_missing_count counts))]),
         (''cost_estimate'', cost_estimate report)])"

end
