(* ===== verification/Typesafe.thy ===== *)
theory Typesafe
  imports Metrics Provider_Protocol
begin

text \<open>
  The HTTP adapter, \<open>src/provider/typesafe.rs\<close>: the request bodies it builds, the strict reading of
  responses, and one exchange over HTTP. What is not the program's own is an argument, the record
  \<open>services\<close>: the clock, \<open>serde_json\<close>'s parser and printer of values, and \<open>ureq\<close>'s sending of a
  request (under the agent's timeout) and reading of a response body (under a size limit). The state
  \<open>'w\<close> of the outside world is threaded through every call of them.
\<close>

section \<open>Services\<close>

record http_request =
  hr_url :: string
  hr_content_type :: string
  hr_authorization :: "string option"
  hr_body :: string

record http_response =
  hs_status :: "16 word"
  hs_header :: "string \<Rightarrow> string option"

record 'w services =
  sv_now :: "'w \<Rightarrow> nat \<times> 'w"
  sv_from_str :: "string \<Rightarrow> json option"
  sv_to_vec :: "json \<Rightarrow> string option"
  sv_send :: "u64 \<Rightarrow> http_request \<Rightarrow> 'w \<Rightarrow> (string + http_response) \<times> 'w"
  sv_read_body :: "u64 \<Rightarrow> 'w \<Rightarrow> (string + string) \<times> 'w"

section \<open>Reading numbers\<close>

text \<open>\<open>Value::as_f64\<close>: integers are converted with rounding to nearest, ties to even.\<close>

definition f64_neg :: "f64 \<Rightarrow> f64" where
  "f64_neg v = v + 2 ^ 63"

fun as_f64 :: "json \<Rightarrow> f64 option" where
  "as_f64 (JNumber (PosInt n)) = Some (f64_of_nat (unat n))"
| "as_f64 (JNumber (NegInt n)) = Some (f64_neg (f64_of_nat (nat \<bar>sint n\<bar>)))"
| "as_f64 (JNumber (FloatNum v)) = Some v"
| "as_f64 _ = None"

definition typed_answer_value :: "json \<Rightarrow> string \<Rightarrow> string \<Rightarrow> json result" where
  "typed_answer_value answer expected_type value_field =
     (case as_object answer of
        None \<Rightarrow> Inl (invalid_response ''provider answer is not a typed answer object'')
      | Some obj \<Rightarrow>
          if (case map_of obj ''type'' of None \<Rightarrow> None | Some t \<Rightarrow> as_str t) \<noteq> Some expected_type
          then Inl (invalid_response (''provider answer type does not match the requested ''
                 @ expected_type @ '' question''))
          else case map_of obj value_field of
            None \<Rightarrow> Inl (invalid_response (''provider '' @ expected_type @ '' answer is missing the ''
                 @ [CHR 0x27] @ value_field @ [CHR 0x27] @ '' field''))
          | Some v \<Rightarrow> Inr v)"

section \<open>The adapter\<close>

definition VERIFIED_BATCH_EFFECTIVE_MODEL :: string where
  "VERIFIED_BATCH_EFFECTIVE_MODEL = ''jev-1.13.0''"

definition multi_state_batch_status :: "string \<Rightarrow> capability_status" where
  "multi_state_batch_status model =
     (if model = ''jev-latest'' \<or> model = VERIFIED_BATCH_EFFECTIVE_MODEL then Verified else Unknown)"

text \<open>\<open>tp_timeout_ms\<close> is the global timeout of the agent.\<close>

record typesafe_provider =
  tp_timeout_ms :: u64
  tp_api_url :: string
  tp_model :: string
  tp_max_response_bytes :: u64
  tp_credential :: "string option"
  tp_protocol_version :: string
  tp_multi_state_batch :: capability_status
  tp_max_choices :: "usize option"
  tp_reject_truncated_header :: bool
  tp_auth_hint :: string
  tp_cacheable_model_aliases :: bool

definition with_protocol ::
  "string \<Rightarrow> string \<Rightarrow> u64 \<Rightarrow> u64 \<Rightarrow> string option \<Rightarrow> string \<Rightarrow> capability_status \<Rightarrow> usize option \<Rightarrow> bool
   \<Rightarrow> string \<Rightarrow> bool \<Rightarrow> typesafe_provider" where
  [simp]: "with_protocol api_url model timeout_ms max_response_bytes credential protocol_version multi_state_batch
       max_choices reject_truncated_header auth_hint cacheable_model_aliases =
     \<lparr>tp_timeout_ms = timeout_ms, tp_api_url = api_url, tp_model = model,
      tp_max_response_bytes = max_response_bytes, tp_credential = credential,
      tp_protocol_version = protocol_version, tp_multi_state_batch = multi_state_batch,
      tp_max_choices = max_choices, tp_reject_truncated_header = reject_truncated_header,
      tp_auth_hint = auth_hint, tp_cacheable_model_aliases = cacheable_model_aliases\<rparr>"

definition new_typesafe :: "string \<Rightarrow> string \<Rightarrow> u64 \<Rightarrow> u64 \<Rightarrow> string \<Rightarrow> typesafe_provider" where
  "new_typesafe api_url model timeout_ms max_response_bytes credential =
     with_protocol api_url model timeout_ms max_response_bytes (Some credential) ''typesafe-systemone/v1''
       (multi_state_batch_status model) None False ''check DUCKJEU_API_KEY or TYPESAFE_API_KEY'' True"

definition new_localjev :: "string \<Rightarrow> string \<Rightarrow> u64 \<Rightarrow> u64 \<Rightarrow> string option \<Rightarrow> typesafe_provider" where
  "new_localjev api_url model timeout_ms max_response_bytes credential =
     with_protocol api_url model timeout_ms max_response_bytes credential ''local-jev/64a0b31''
       Unsupported (Some 255) True ''check DUCKJEU_LOCAL_JEV_API_KEY'' False"

definition typesafe_capabilities :: "typesafe_provider \<Rightarrow> provider_capabilities" where
  "typesafe_capabilities p =
     \<lparr>pc_protocol_version = tp_protocol_version p, pc_noul = Verified, pc_choice = Verified,
      pc_multi_state_batch = tp_multi_state_batch p, pc_max_batch_judgments = None,
      pc_max_choices = tp_max_choices p\<rparr>"

definition check_request_capabilities :: "typesafe_provider \<Rightarrow> judgment_request \<Rightarrow> unit result" where
  "check_request_capabilities p request =
     (if (case tp_max_choices p of None \<Rightarrow> False
          | Some maximum \<Rightarrow> rq_kind request = Kind_Choice \<and> unat maximum < length (rq_choices request))
      then Inl (configuration ''choice count exceeds the verified provider limit'')
      else Inr ())"

text \<open>A model is pinned when it is \<open>jev-\<close> and at least two groups of digits separated by dots.\<close>

definition typesafe_cache_model_identity :: "typesafe_provider \<Rightarrow> string \<Rightarrow> string option" where
  "typesafe_cache_model_identity p requested_model =
     (if \<not> tp_cacheable_model_aliases p then None
      else case strip_prefix ''jev-'' requested_model of
        None \<Rightarrow> None
      | Some version \<Rightarrow>
          let components = split_on (CHR ''.'') version
          in if trim requested_model \<noteq> requested_model \<or> length components < 2
                \<or> list_ex (\<lambda>part. part = [] \<or> \<not> list_all is_ascii_digit part) components
             then None else Some requested_model)"

section \<open>Request bodies\<close>

definition state_row :: "judgment_request \<Rightarrow> json" where
  "state_row request =
     (case cs_value (rq_state request) of TV_Text text \<Rightarrow> JString text | other \<Rightarrow> to_json_value other)"

definition criteria_object :: "string list \<Rightarrow> json" where
  "criteria_object choices = JObject (omap_of_list (map (\<lambda>label. (label, JNull)) choices))"

definition noul_instructions :: "nat \<Rightarrow> string" where
  "noul_instructions row_index =
     ''Evaluate whether state.condition holds for state.rows['' @ nat_to_string row_index
     @ '']. Answer with the probability that it holds.''"

definition choice_instructions :: "string \<Rightarrow> nat \<Rightarrow> string" where
  "choice_instructions question row_index =
     ''Caller question: '' @ question @ [CHR 0x0A]
     @ ''Select the single candidate label that best answers this question for state.rows[''
     @ nat_to_string row_index @ ''].''"

definition question_object :: "(string \<times> json) list \<Rightarrow> string \<Rightarrow> string \<Rightarrow> json" where
  "question_object criteria question_type instructions =
     JObject (omap_of_list (criteria
       @ [(''type'', JString question_type), (''instructions'', JString instructions)]))"

definition request_body :: "typesafe_provider \<Rightarrow> (string \<times> json) list \<Rightarrow> (string \<times> json) list \<Rightarrow> json" where
  "request_body p state questions = json_object
     [(''model'', JString (tp_model p)),
      (''state'', JObject (omap_of_list state)),
      (''questions'', JObject (omap_of_list questions))]"

definition build_body :: "typesafe_provider \<Rightarrow> judgment_request \<Rightarrow> json" where
  "build_body p request =
     (let rows = (''rows'', JArray [state_row request])
      in case rq_kind request of
        Kind_Noul \<Rightarrow>
          request_body p
            [rows, (''condition'', JString (case rq_criterion request of None \<Rightarrow> [] | Some c \<Rightarrow> c))]
            [(rq_request_key request, question_object [] ''noul'' (noul_instructions 0))]
      | Kind_Choice \<Rightarrow>
          request_body p [rows]
            [(rq_request_key request,
              question_object [(''criteria'', criteria_object (rq_choices request))] ''choice''
                (choice_instructions (case rq_question request of None \<Rightarrow> [] | Some q \<Rightarrow> q) 0))])"

text \<open>The first loop of \<open>build_batch_body\<close>; \<open>keys\<close> is the set of keys seen so far.\<close>

fun check_batch ::
  "typesafe_provider \<Rightarrow> judgment_request \<Rightarrow> string list \<Rightarrow> judgment_request list \<Rightarrow> unit result" where
  "check_batch p first keys [] = Inr ()"
| "check_batch p first keys (request # requests) =
     result_bind (check_request_capabilities p request) (\<lambda>_.
       if rq_request_key request \<in> set keys
       then Inl (configuration ''TypeSafe batch question keys must be unique'')
       else if rq_kind request \<noteq> rq_kind first \<or> rq_criterion request \<noteq> rq_criterion first
          \<or> rq_question request \<noteq> rq_question first \<or> rq_choices request \<noteq> rq_choices first
       then Inl (configuration ''TypeSafe batch judgments must share one compatible question context'')
       else check_batch p first (rq_request_key request # keys) requests)"

definition batch_question :: "nat \<Rightarrow> judgment_request \<Rightarrow> json result" where
  "batch_question row_index request =
     (case rq_kind request of
        Kind_Noul \<Rightarrow> Inr (question_object [] ''noul'' (noul_instructions row_index))
      | Kind_Choice \<Rightarrow>
          (case rq_question request of
             None \<Rightarrow> Inl (configuration ''TypeSafe choice batch is missing its question'')
           | Some caller_question \<Rightarrow>
               Inr (question_object [(''criteria'', criteria_object (rq_choices request))] ''choice''
                 (choice_instructions caller_question row_index))))"

text \<open>The second loop, over the enumerated requests.\<close>

fun batch_questions :: "nat \<Rightarrow> judgment_request list \<Rightarrow> (string \<times> json) list result" where
  "batch_questions row_index [] = Inr []"
| "batch_questions row_index (request # requests) =
     result_bind (batch_question row_index request) (\<lambda>question.
       result_bind (batch_questions (Suc row_index) requests) (\<lambda>questions.
         Inr ((rq_request_key request, question) # questions)))"

definition batch_state :: "judgment_request \<Rightarrow> judgment_request list \<Rightarrow> (string \<times> json) list result" where
  "batch_state first requests =
     (let rows = (''rows'', JArray (map state_row requests))
      in case rq_kind first of
        Kind_Noul \<Rightarrow>
          (case rq_criterion first of
             None \<Rightarrow> Inl (configuration ''TypeSafe noul batch is missing its criterion'')
           | Some condition \<Rightarrow> Inr [rows, (''condition'', JString condition)])
      | Kind_Choice \<Rightarrow> Inr [rows])"

definition build_batch_body :: "typesafe_provider \<Rightarrow> judgment_request list \<Rightarrow> json result" where
  "build_batch_body p requests =
     (case requests of
        [] \<Rightarrow> Inl (configuration ''TypeSafe batch must contain at least one judgment'')
      | [first] \<Rightarrow> Inr (build_body p first)
      | first # _ \<Rightarrow>
          result_bind (check_batch p first [] requests) (\<lambda>_.
          result_bind (batch_state first requests) (\<lambda>state.
          result_bind (batch_questions 0 requests) (\<lambda>questions.
            Inr (request_body p state questions)))))"

definition estimate_request_bytes :: "'w services \<Rightarrow> typesafe_provider \<Rightarrow> judgment_request list \<Rightarrow> usize" where
  "estimate_request_bytes sv p requests =
     (case build_batch_body p requests of
        Inl _ \<Rightarrow> - 1
      | Inr body \<Rightarrow> (case sv_to_vec sv body of None \<Rightarrow> - 1 | Some bytes \<Rightarrow> usize_of (length bytes)))"

section \<open>Reading a response\<close>

definition parse_answer :: "judgment_request \<Rightarrow> json \<Rightarrow> judgment_result result" where
  "parse_answer request answer =
     (case rq_kind request of
        Kind_Noul \<Rightarrow>
          result_bind (typed_answer_value answer ''noul'' ''noul'') (\<lambda>v.
            case as_f64 v of
              None \<Rightarrow> Inl (invalid_response ''provider noul answer is not a number'')
            | Some value \<Rightarrow> result_bind (validate_probability value) (\<lambda>p. Inr (Noul p)))
      | Kind_Choice \<Rightarrow>
          result_bind (typed_answer_value answer ''choice'' ''choice'') (\<lambda>v.
            case as_str v of
              None \<Rightarrow> Inl (invalid_response ''provider choice answer is not a string'')
            | Some label \<Rightarrow>
                result_bind (validate_label label (rq_choices request)) (\<lambda>l. Inr (Choice l))))"

text \<open>The loop over the requests; each key was checked to be present before.\<close>

fun parse_answers :: "(string \<times> json) list \<Rightarrow> judgment_request list \<Rightarrow> provider_answer list result" where
  "parse_answers answers [] = Inr []"
| "parse_answers answers (request # requests) =
     result_bind (parse_answer request (the (map_of answers (rq_request_key request)))) (\<lambda>r.
       result_bind (parse_answers answers requests) (\<lambda>rest.
         Inr (\<lparr>pa_request_key = rq_request_key request, pa_result = r\<rparr> # rest)))"

definition response_usage :: "json \<Rightarrow> provider_usage option" where
  "response_usage parsed =
     (case json_get parsed ''usage'' of
        None \<Rightarrow> None
      | Some v \<Rightarrow> (case as_object v of
          None \<Rightarrow> None
        | Some usage \<Rightarrow> Some
            \<lparr>pu_input_tokens = (case map_of usage ''input_tokens'' of None \<Rightarrow> None | Some n \<Rightarrow> as_u64 n),
             pu_output_tokens = (case map_of usage ''output_tokens'' of None \<Rightarrow> None | Some n \<Rightarrow> as_u64 n)\<rparr>))"

definition response_metadata :: "typesafe_provider \<Rightarrow> json \<Rightarrow> provider_metadata" where
  "response_metadata p parsed =
     \<lparr>pm_requested_model = Some (tp_model p),
      pm_effective_model = (case json_get parsed ''model'' of None \<Rightarrow> None | Some m \<Rightarrow> as_str m),
      pm_usage = response_usage parsed,
      pm_inference_time_ms = None, pm_serialization_time_ns = None, pm_external_roundtrip_ns = None\<rparr>"

definition parse_batch_response ::
  "'w services \<Rightarrow> typesafe_provider \<Rightarrow> judgment_request list \<Rightarrow> string \<Rightarrow> provider_batch_result result" where
  "parse_batch_response sv p requests body =
     (case sv_from_str sv body of
        None \<Rightarrow> Inl (invalid_response ''provider returned a body that is not valid JSON'')
      | Some parsed \<Rightarrow>
          (case (case json_get parsed ''answers'' of None \<Rightarrow> None | Some v \<Rightarrow> as_object v) of
             None \<Rightarrow> Inl (invalid_response ''provider response is missing the 'answers' object'')
           | Some answers \<Rightarrow>
               if length answers \<noteq> length requests
                  \<or> list_ex (\<lambda>request. map_of answers (rq_request_key request) = None) requests
               then Inl (invalid_response
                 ''provider response answers do not match the requested question keys'')
               else result_bind (parse_answers answers requests) (\<lambda>answers.
                 let response = \<lparr>br_answers = answers, br_metadata = response_metadata p parsed\<rparr>
                 in result_bind (validate_batch_result requests response) (\<lambda>_. Inr response))))"

definition parse_response ::
  "'w services \<Rightarrow> typesafe_provider \<Rightarrow> judgment_request \<Rightarrow> string \<Rightarrow> judgment_result result" where
  "parse_response sv p request body =
     result_bind (parse_batch_response sv p [request] body) (\<lambda>response.
       Inr (pa_result (br_answers response ! 0)))"

section \<open>The HTTP exchange\<close>

definition elapsed_ns :: "nat \<Rightarrow> nat \<Rightarrow> u64" where
  "elapsed_ns started now = word_of_nat (min (now - started) (2 ^ 64 - 1))"

definition http_request_for :: "typesafe_provider \<Rightarrow> string \<Rightarrow> http_request" where
  "http_request_for p body =
     \<lparr>hr_url = tp_api_url p, hr_content_type = ''application/json'',
      hr_authorization = map_option (\<lambda>credential. ''Bearer '' @ credential) (tp_credential p),
      hr_body = body\<rparr>"

definition status_error :: "typesafe_provider \<Rightarrow> 16 word \<Rightarrow> judgment_error" where
  "status_error p status =
     (if status = 401 \<or> status = 403
      then provider_error (''provider returned HTTP '' @ nat_to_string (unat status) @ '' (''
             @ tp_auth_hint p @ '').'')
      else provider_error (''provider returned HTTP '' @ nat_to_string (unat status)))"

definition send_error :: "string \<Rightarrow> judgment_error" where
  "send_error err = provider_error (''provider request failed: '' @ err)"

definition read_error :: "string \<Rightarrow> judgment_error" where
  "read_error err = provider_error (''provider response could not be read: '' @ err)"

definition truncated_response :: "http_response \<Rightarrow> bool" where
  "truncated_response response \<longleftrightarrow>
     (case hs_header response ''x-local-jev-truncated'' of
        None \<Rightarrow> False | Some v \<Rightarrow> to_ascii_lowercase v = ''true'')"

text \<open>From the arrival of the response's head on.\<close>

definition receive_body ::
  "'w services \<Rightarrow> typesafe_provider \<Rightarrow> judgment_request list \<Rightarrow> http_response \<Rightarrow> u64 \<Rightarrow> nat \<Rightarrow> 'w
   \<Rightarrow> provider_batch_result result \<times> 'w" where
  "receive_body sv p requests response serialization_ns roundtrip_started w =
     (if \<not> (200 \<le> hs_status response \<and> hs_status response < 300)
      then (Inl (status_error p (hs_status response)), w)
      else if tp_reject_truncated_header p \<and> truncated_response response
      then (Inl (provider_error ''local-jev truncated the state; refusing a result based on partial input''), w)
      else case sv_read_body sv (tp_max_response_bytes p) w of
        (Inl err, w) \<Rightarrow> (Inl (read_error err), w)
      | (Inr body_text, w) \<Rightarrow>
          (case parse_batch_response sv p requests body_text of
             Inl e \<Rightarrow> (Inl e, w)
           | Inr r \<Rightarrow>
               if 1 < length requests
                  \<and> pm_effective_model (br_metadata r) \<noteq> Some VERIFIED_BATCH_EFFECTIVE_MODEL
               then (Inl (provider_error
                      ''provider model does not match the verified multi-state batch model''), w)
               else let (now, w) = sv_now sv w
                    in (Inr (r\<lparr>br_metadata := (br_metadata r)
                              \<lparr>pm_serialization_time_ns := Some serialization_ns,
                               pm_external_roundtrip_ns := Some (elapsed_ns roundtrip_started now)\<rparr>\<rparr>), w)))"

definition post_body ::
  "'w services \<Rightarrow> typesafe_provider \<Rightarrow> judgment_request list \<Rightarrow> json \<Rightarrow> nat \<Rightarrow> 'w
   \<Rightarrow> provider_batch_result result \<times> 'w" where
  "post_body sv p requests body serialization_started w =
     (case sv_to_vec sv body of
        None \<Rightarrow> (Inl (provider_error ''provider request could not be serialized''), w)
      | Some bytes \<Rightarrow>
          let (now, w) = sv_now sv w;
              serialization_ns = elapsed_ns serialization_started now;
              (roundtrip_started, w) = sv_now sv w
          in case sv_send sv (tp_timeout_ms p) (http_request_for p bytes) w of
               (Inl err, w) \<Rightarrow> (Inl (send_error err), w)
             | (Inr response, w) \<Rightarrow>
                 receive_body sv p requests response serialization_ns roundtrip_started w)"

definition post_single ::
  "'w services \<Rightarrow> typesafe_provider \<Rightarrow> judgment_request \<Rightarrow> 'w \<Rightarrow> provider_batch_result result \<times> 'w" where
  "post_single sv p request w =
     (case check_request_capabilities p request of
        Inl e \<Rightarrow> (Inl e, w)
      | Inr _ \<Rightarrow>
          let (serialization_started, w) = sv_now sv w
          in post_body sv p [request] (build_body p request) serialization_started w)"

definition typesafe_judge_many ::
  "'w services \<Rightarrow> typesafe_provider \<Rightarrow> judgment_request list \<Rightarrow> 'w \<Rightarrow> provider_batch_result result \<times> 'w" where
  "typesafe_judge_many sv p requests w =
     (if length requests = 1 then post_single sv p (requests ! 0) w
      else case tp_multi_state_batch p of
        Unknown \<Rightarrow> (Inl (configuration ''provider multi-state batch capability is not verified''), w)
      | Unsupported \<Rightarrow> (Inl (configuration ''provider does not support cross-state batch requests''), w)
      | Verified \<Rightarrow>
          let (serialization_started, w) = sv_now sv w
          in case build_batch_body p requests of
               Inl e \<Rightarrow> (Inl e, w)
             | Inr body \<Rightarrow> post_body sv p requests body serialization_started w)"

definition typesafe_judge ::
  "'w services \<Rightarrow> typesafe_provider \<Rightarrow> judgment_request \<Rightarrow> 'w \<Rightarrow> judgment_result result \<times> 'w" where
  "typesafe_judge sv p request w =
     (case post_single sv p request w of
        (Inl e, w) \<Rightarrow> (Inl e, w)
      | (Inr response, w) \<Rightarrow> (Inr (pa_result (br_answers response ! 0)), w))"

definition typesafe_as_provider :: "'w services \<Rightarrow> typesafe_provider \<Rightarrow> 'w provider" where
  "typesafe_as_provider sv p =
     \<lparr>p_capabilities = typesafe_capabilities p,
      p_makes_external_request = True,
      p_judge = typesafe_judge sv p,
      p_judge_with_metadata = post_single sv p,
      p_cache_model_identity = typesafe_cache_model_identity p,
      p_estimate_request_bytes = estimate_request_bytes sv p,
      p_judge_many = typesafe_judge_many sv p\<rparr>"

end
