(* ===== verification/Cache.thy ===== *)
theory Cache
  imports Judgment
begin

text \<open>
  The bounded judgment cache, \<open>crates/judgment-core/src/cache.rs\<close>: policies, the least-recently-used
  cache with its byte accounting and counters, and a refinement of it to a list of entries in
  order of recency. An \<open>Instant\<close> and a \<open>Duration\<close> are nanoseconds; \<open>checked_add\<close> fails beyond the
  signed 64-bit seconds of the platform clock. The entry map is an association list in the
  unspecified order of the \<open>HashMap\<close>.
\<close>

section \<open>Data\<close>

type_synonym instant = nat
type_synonym duration = nat

definition INSTANT_LIMIT :: instant where
  "INSTANT_LIMIT = 2 ^ 63 * 10 ^ 9"

definition checked_add :: "instant \<Rightarrow> duration \<Rightarrow> instant option" where
  "checked_add t d = (if t + d < INSTANT_LIMIT then Some (t + d) else None)"

record cache_policy =
  cp_max_entries :: usize
  cp_max_bytes :: usize
  cp_ttl :: duration

record cache_counters =
  cc_expirations :: u64
  cc_evictions :: u64

record cache_entry =
  ce_result :: judgment_result
  ce_inserted_at :: instant
  ce_expires_at :: instant
  ce_estimated_bytes :: usize

record judgment_cache =
  jc_entries :: "(judgment_identity \<times> cache_entry) list"
  jc_lru :: "judgment_identity list"
  jc_estimated_bytes :: usize
  jc_counters :: cache_counters

definition default_cache :: judgment_cache where
  "default_cache =
     \<lparr>jc_entries = [], jc_lru = [], jc_estimated_bytes = 0,
      jc_counters = \<lparr>cc_expirations = 0, cc_evictions = 0\<rparr>\<rparr>"

definition policy_validate :: "cache_policy \<Rightarrow> unit result" where
  "policy_validate p =
     (if cp_max_entries p = 0 \<or> cp_max_bytes p = 0 \<or> cp_ttl p = 0
      then Inl (configuration ''cache entry, byte, and TTL limits must be positive'')
      else Inr ())"

section \<open>Bookkeeping\<close>

definition count_expiration :: "judgment_cache \<Rightarrow> judgment_cache" where
  "count_expiration c = c\<lparr>jc_counters := (jc_counters c)
     \<lparr>cc_expirations := sat_add (cc_expirations (jc_counters c)) 1\<rparr>\<rparr>"

definition count_eviction :: "judgment_cache \<Rightarrow> judgment_cache" where
  "count_eviction c = c\<lparr>jc_counters := (jc_counters c)
     \<lparr>cc_evictions := sat_add (cc_evictions (jc_counters c)) 1\<rparr>\<rparr>"

text \<open>\<open>position\<close> followed by \<open>VecDeque::remove\<close> takes the first occurrence out.\<close>

definition touch :: "judgment_identity \<Rightarrow> judgment_cache \<Rightarrow> judgment_cache" where
  "touch k c = c\<lparr>jc_lru := remove1 k (jc_lru c) @ [k]\<rparr>"

definition remove_entry :: "judgment_identity \<Rightarrow> judgment_cache \<Rightarrow> judgment_cache" where
  "remove_entry k c =
     (case map_of (jc_entries c) k of
        Some entry \<Rightarrow> c\<lparr>jc_entries := alist_remove k (jc_entries c),
                        jc_estimated_bytes := sat_sub (jc_estimated_bytes c) (ce_estimated_bytes entry)\<rparr>
      | None \<Rightarrow> c)"

definition cache_remove :: "judgment_identity \<Rightarrow> judgment_cache \<Rightarrow> judgment_cache" where
  "cache_remove k c = (let c = remove_entry k c in c\<lparr>jc_lru := remove1 k (jc_lru c)\<rparr>)"

definition prune_expired :: "instant \<Rightarrow> judgment_cache \<Rightarrow> judgment_cache" where
  "prune_expired now c =
     (let expired = map fst (filter (\<lambda>(_, entry). ce_expires_at entry \<le> now) (jc_entries c))
      in foldl (\<lambda>c k. count_expiration (cache_remove k c)) c expired)"

lemma lru_remove_entry [simp]: "jc_lru (remove_entry k c) = jc_lru c"
  by (simp add: remove_entry_def split: option.splits)

lemma lru_counts [simp]: "jc_lru (count_eviction c) = jc_lru c" "jc_lru (count_expiration c) = jc_lru c"
  by (simp_all add: count_eviction_def count_expiration_def)

text \<open>
  The two eviction loops: pop the least recently used key while the condition holds. The flag is
  False when the loop ended because the queue was empty.
\<close>

function evict_while :: "(judgment_cache \<Rightarrow> bool) \<Rightarrow> judgment_cache \<Rightarrow> bool \<times> judgment_cache" where
  "evict_while over c =
     (if over c
      then case jc_lru c of
        [] \<Rightarrow> (False, c)
      | oldest # rest \<Rightarrow> evict_while over (count_eviction (remove_entry oldest (c\<lparr>jc_lru := rest\<rparr>)))
      else (True, c))"
  by pat_completeness auto

termination
  by (relation "measure (\<lambda>(over, c). length (jc_lru c))") auto

declare evict_while.simps [simp del]

section \<open>Public operations\<close>

definition cache_lookup ::
  "judgment_identity \<Rightarrow> instant \<Rightarrow> judgment_cache \<Rightarrow> judgment_result option \<times> judgment_cache" where
  "cache_lookup k now c =
     (let expired = (case map_of (jc_entries c) k of Some entry \<Rightarrow> ce_expires_at entry \<le> now | None \<Rightarrow> False)
      in if expired then (None, count_expiration (cache_remove k c))
         else case map_of (jc_entries c) k of
           None \<Rightarrow> (None, c)
         | Some entry \<Rightarrow> (Some (ce_result entry), touch k c))"

definition tighten_expiry :: "cache_policy \<Rightarrow> cache_entry \<Rightarrow> cache_entry" where
  "tighten_expiry policy entry =
     (case checked_add (ce_inserted_at entry) (cp_ttl policy) of
        Some policy_expiry \<Rightarrow> entry\<lparr>ce_expires_at := min (ce_expires_at entry) policy_expiry\<rparr>
      | None \<Rightarrow> entry)"

definition reconcile_policy :: "instant \<Rightarrow> cache_policy \<Rightarrow> judgment_cache \<Rightarrow> bool \<times> judgment_cache" where
  "reconcile_policy now policy c =
     (if policy_validate policy \<noteq> Inr () then (False, c)
      else let c = c\<lparr>jc_entries := map (\<lambda>(k, entry). (k, tighten_expiry policy entry)) (jc_entries c)\<rparr>;
               c = prune_expired now c;
               (_, c) = evict_while (\<lambda>c. unat (cp_max_entries policy) < length (jc_entries c)
                            \<or> cp_max_bytes policy < jc_estimated_bytes c) c
           in (True, c))"

definition lookup_with_policy ::
  "judgment_identity \<Rightarrow> instant \<Rightarrow> cache_policy \<Rightarrow> judgment_cache
   \<Rightarrow> judgment_result option \<times> judgment_cache" where
  "lookup_with_policy k now policy c =
     (case reconcile_policy now policy c of
        (False, c) \<Rightarrow> (None, c)
      | (True, c) \<Rightarrow> cache_lookup k now c)"

definition opt_bytes :: "string option \<Rightarrow> usize" where
  "opt_bytes s = (case s of None \<Rightarrow> 0 | Some t \<Rightarrow> usize_of (length t))"

definition estimated_entry_bytes :: "judgment_identity \<Rightarrow> judgment_result \<Rightarrow> usize" where
  "estimated_entry_bytes k r =
     (let text_bytes = sat_add (sat_add (sat_add (sat_add (sat_add (sat_add
            (opt_bytes (id_criterion k))
            (opt_bytes (id_question k)))
            (foldl (\<lambda>sum value. sat_add sum (usize_of (length value))) 0 (id_choices k)))
            (usize_of (length (id_provider_namespace k))))
            (usize_of (length (id_endpoint k))))
            (usize_of (length (id_requested_model k))))
            (opt_bytes (id_effective_model k));
          result_bytes = (case r of Noul _ \<Rightarrow> 8 | Choice label \<Rightarrow> usize_of (length label))
      in sat_add (sat_add (sat_add 512
           (sat_mul (usize_of (length (id_canonical_bytes k))) 6))
           (sat_mul text_bytes 6))
           result_bytes)"

definition insert_success ::
  "judgment_identity \<Rightarrow> judgment_result \<Rightarrow> instant \<Rightarrow> cache_policy \<Rightarrow> judgment_cache
   \<Rightarrow> bool \<times> judgment_cache" where
  "insert_success k r now policy c =
     (if policy_validate policy \<noteq> Inr () then (False, c)
      else case checked_add now (cp_ttl policy) of
        None \<Rightarrow> (False, c)
      | Some expires_at \<Rightarrow>
          let (_, c) = reconcile_policy now policy c;
              estimated = estimated_entry_bytes k r
          in if cp_max_bytes policy < estimated then (False, cache_remove k c)
             else case evict_while (\<lambda>c. unat (cp_max_entries policy) \<le> length (jc_entries c)
                        \<or> cp_max_bytes policy < sat_add (jc_estimated_bytes c) estimated)
                    (cache_remove k c) of
               (False, c) \<Rightarrow> (False, c)
             | (True, c) \<Rightarrow>
                 (True, c\<lparr>jc_estimated_bytes := sat_add (jc_estimated_bytes c) estimated,
                          jc_lru := jc_lru c @ [k],
                          jc_entries := alist_put k
                            \<lparr>ce_result = r, ce_inserted_at = now, ce_expires_at = expires_at,
                             ce_estimated_bytes = estimated\<rparr> (jc_entries c)\<rparr>))"

definition insert_outcome ::
  "judgment_identity \<Rightarrow> judgment_result result \<Rightarrow> instant \<Rightarrow> cache_policy \<Rightarrow> judgment_cache
   \<Rightarrow> bool \<times> judgment_cache" where
  "insert_outcome k outcome now policy c =
     (case outcome of Inl _ \<Rightarrow> (False, c) | Inr r \<Rightarrow> insert_success k r now policy c)"

definition cache_clear :: "judgment_cache \<Rightarrow> nat \<times> judgment_cache" where
  "cache_clear c =
     (length (jc_entries c), c\<lparr>jc_entries := [], jc_lru := [], jc_estimated_bytes := 0\<rparr>)"

definition cache_len :: "instant \<Rightarrow> judgment_cache \<Rightarrow> nat \<times> judgment_cache" where
  "cache_len now c = (let c = prune_expired now c in (length (jc_entries c), c))"

end
