(* ===== verification/Cache_Refinement.thy ===== *)
theory Cache_Refinement
  imports Cache
begin

text \<open>
  The specification of the cache and the proof that the code implements it. Abstractly a cache is
  the list of its entries, least recently used first; \<open>cache_rel\<close> relates a cache of the code to
  that list: the map holds exactly those entries, the queue holds exactly their keys in that order,
  and the byte counter is their exact sum. Every public operation preserves the relation.
\<close>

type_synonym lru_list = "(judgment_identity \<times> cache_entry) list"

definition entry_bytes :: "lru_list \<Rightarrow> nat" where
  "entry_bytes l = sum_list (map (\<lambda>(_, e). unat (ce_estimated_bytes e)) l)"

definition cache_rel :: "judgment_cache \<Rightarrow> lru_list \<Rightarrow> bool" where
  "cache_rel c l \<longleftrightarrow> distinct (map fst l) \<and> wf_alist (jc_entries c) \<and> set (jc_entries c) = set l
     \<and> jc_lru c = map fst l \<and> unat (jc_estimated_bytes c) = entry_bytes l"

section \<open>The specification\<close>

definition live :: "instant \<Rightarrow> lru_list \<Rightarrow> lru_list" where
  "live now l = filter (\<lambda>(_, e). now < ce_expires_at e) l"

fun spec_evict :: "(lru_list \<Rightarrow> bool) \<Rightarrow> lru_list \<Rightarrow> lru_list" where
  "spec_evict over [] = []"
| "spec_evict over (x # l) = (if over (x # l) then spec_evict over l else x # l)"

definition spec_lookup :: "judgment_identity \<Rightarrow> instant \<Rightarrow> lru_list \<Rightarrow> judgment_result option \<times> lru_list" where
  "spec_lookup k now l =
     (case map_of l k of
        None \<Rightarrow> (None, l)
      | Some e \<Rightarrow> (if now < ce_expires_at e then (Some (ce_result e), alist_remove k l @ [(k, e)])
                  else (None, alist_remove k l)))"

definition within :: "cache_policy \<Rightarrow> lru_list \<Rightarrow> bool" where
  "within p l \<longleftrightarrow> length l \<le> unat (cp_max_entries p) \<and> entry_bytes l \<le> unat (cp_max_bytes p)"

definition spec_reconcile :: "instant \<Rightarrow> cache_policy \<Rightarrow> lru_list \<Rightarrow> lru_list" where
  "spec_reconcile now p l =
     spec_evict (\<lambda>l. \<not> within p l) (live now (map (\<lambda>(k, e). (k, tighten_expiry p e)) l))"

definition spec_insert ::
  "judgment_identity \<Rightarrow> judgment_result \<Rightarrow> instant \<Rightarrow> instant \<Rightarrow> cache_policy \<Rightarrow> lru_list \<Rightarrow> lru_list" where
  "spec_insert k r now expires_at p l =
     (let est = estimated_entry_bytes k r;
          l = alist_remove k (spec_reconcile now p l)
      in if cp_max_bytes p < est then l
         else spec_evict (\<lambda>l. unat (cp_max_entries p) \<le> length l
                    \<or> unat (cp_max_bytes p) < entry_bytes l + unat est) l
              @ [(k, \<lparr>ce_result = r, ce_inserted_at = now, ce_expires_at = expires_at,
                     ce_estimated_bytes = est\<rparr>)])"

section \<open>Lemmas on lists of entries\<close>

named_theorems cache_rel_intros "operations preserve the refinement relation"

lemma entry_bytes_simps [simp]:
  "entry_bytes [] = 0" "entry_bytes (x # l) = unat (ce_estimated_bytes (snd x)) + entry_bytes l"
  "entry_bytes (l @ l') = entry_bytes l + entry_bytes l'"
  by (simp_all add: entry_bytes_def case_prod_beta)

lemma entry_bytes_filter_le: "entry_bytes (filter P l) \<le> entry_bytes l"
  by (induction l) auto

lemma entry_bytes_remove:
  "distinct (map fst l) \<Longrightarrow> map_of l k = Some e \<Longrightarrow>
   entry_bytes l = entry_bytes (alist_remove k l) + unat (ce_estimated_bytes e)"
proof (induction l)
  case (Cons x l)
  show ?case
  proof (cases "fst x = k")
    case True
    then have "alist_remove k (x # l) = l"
      using Cons.prems(1) alist_remove_fresh [of k l] by (auto simp: alist_remove_def)
    then show ?thesis using True Cons.prems(2) by (auto simp: prod_eq_iff split: if_splits)
  next
    case False
    then show ?thesis using Cons by (auto simp: alist_remove_def split: if_splits)
  qed
qed simp

lemma cache_relD:
  assumes "cache_rel c l"
  shows "distinct (map fst l)" "wf_alist (jc_entries c)" "set (jc_entries c) = set l"
    "jc_lru c = map fst l" "unat (jc_estimated_bytes c) = entry_bytes l"
    "map_of (jc_entries c) = map_of l" "length (jc_entries c) = length l"
proof -
  show rel: "distinct (map fst l)" "wf_alist (jc_entries c)" "set (jc_entries c) = set l"
    "jc_lru c = map fst l" "unat (jc_estimated_bytes c) = entry_bytes l"
    using assms by (simp_all add: cache_rel_def)
  then show "map_of (jc_entries c) = map_of l"
    by (subst map_of_inject_set) (simp_all add: wf_alist_def)
  have "distinct (jc_entries c)" "distinct l"
    using rel by (simp_all add: wf_alist_def distinct_map)
  then show "length (jc_entries c) = length l"
    using rel(3) by (metis distinct_card)
qed

lemma cache_rel_counters [simp]:
  "cache_rel (count_expiration c) l = cache_rel c l" "cache_rel (count_eviction c) l = cache_rel c l"
  by (simp_all add: cache_rel_def count_expiration_def count_eviction_def)

lemma entries_counters [simp]:
  "jc_entries (count_expiration c) = jc_entries c" "jc_entries (count_eviction c) = jc_entries c"
  by (simp_all add: count_expiration_def count_eviction_def)

lemma filter_fst_map: "filter (\<lambda>k'. k' \<noteq> k) (map fst l) = map fst (alist_remove k l)"
  by simp

lemma cache_rel_remove [cache_rel_intros]:
  assumes "cache_rel c l"
  shows "cache_rel (cache_remove k c) (alist_remove k l)"
proof -
  note rel = cache_relD [OF assms]
  have lru: "remove1 k (jc_lru c) = map fst (alist_remove k l)"
    using rel(1,4) by (simp add: distinct_remove1_removeAll removeAll_filter_not_eq eq_commute)
  show ?thesis
  proof (cases "map_of l k")
    case None
    then have "alist_remove k l = l"
      by (intro alist_remove_fresh) (simp add: map_of_eq_None_iff)
    then show ?thesis using assms lru None rel
      by (simp add: cache_remove_def remove_entry_def cache_rel_def)
  next
    case (Some e)
    then show ?thesis
      using rel lru entry_bytes_remove [OF rel(1) Some]
      by (simp add: cache_remove_def remove_entry_def cache_rel_def set_alist_remove
          unat_sat_sub distinct_filter flip: filter_fst_map)
  qed
qed

lemma cache_rel_pop [cache_rel_intros]:
  assumes "cache_rel c (x # l)"
  shows "cache_rel (count_eviction (remove_entry (fst x) (c\<lparr>jc_lru := map fst l\<rparr>))) l"
proof -
  note rel = cache_relD [OF assms]
  have "alist_remove (fst x) (x # l) = l"
    using rel(1) alist_remove_fresh [of "fst x" l] by (auto simp: alist_remove_def)
  moreover have "cache_remove (fst x) c = remove_entry (fst x) (c\<lparr>jc_lru := map fst l\<rparr>)"
    using rel by (auto simp: cache_remove_def remove_entry_def split: option.splits)
  ultimately show ?thesis using cache_rel_remove [OF assms, of "fst x"] by simp
qed

lemma cache_rel_evict:
  assumes "cache_rel c l" and "\<And>c l. cache_rel c l \<Longrightarrow> over c = over' l" and "\<not> over' []"
  shows "fst (evict_while over c) \<and> cache_rel (snd (evict_while over c)) (spec_evict over' l)"
  using assms(1)
proof (induction l arbitrary: c)
  case Nil
  then show ?case using assms(2,3) by (subst (1 2) evict_while.simps) simp
next
  case (Cons x l)
  have lru: "jc_lru c = fst x # map fst l" using Cons.prems by (simp add: cache_rel_def)
  show ?case
  proof (cases "over c")
    case True
    then show ?thesis
      using Cons.IH [OF cache_rel_pop [OF Cons.prems]] lru assms(2) [OF Cons.prems]
      by (subst (1 2) evict_while.simps) simp
  next
    case False
    then show ?thesis
      using Cons.prems assms(2) [OF Cons.prems] by (subst (1 2) evict_while.simps) simp
  qed
qed

lemma cache_rel_foldl_remove:
  "cache_rel c l \<Longrightarrow>
   cache_rel (foldl (\<lambda>c k. count_expiration (cache_remove k c)) c ks) (filter (\<lambda>(k, _). k \<notin> set ks) l)"
proof (induction ks arbitrary: c l)
  case (Cons k ks)
  have "filter (\<lambda>(k', _). k' \<notin> set (k # ks)) l = filter (\<lambda>(k', _). k' \<notin> set ks) (alist_remove k l)"
    by (auto simp: alist_remove_def case_prod_beta intro: filter_cong)
  then show ?case
    using Cons.IH [of "count_expiration (cache_remove k c)" "alist_remove k l"]
      cache_rel_remove [OF Cons.prems, of k] by simp
qed (simp add: case_prod_beta)

lemma cache_rel_prune [cache_rel_intros]:
  assumes "cache_rel c l"
  shows "cache_rel (prune_expired now c) (live now l)"
proof -
  note rel = cache_relD [OF assms]
  define ks where "ks = map fst (filter (\<lambda>(_, e). ce_expires_at e \<le> now) (jc_entries c))"
  have "(case x of (k, _) \<Rightarrow> k \<notin> set ks) = (case x of (_, e) \<Rightarrow> now < ce_expires_at e)"
    if "x \<in> set l" for x
    using that rel(3) eq_key_imp_eq_value [OF rel(1)] by (force simp: ks_def image_iff not_le)
  then have "filter (\<lambda>(k, _). k \<notin> set ks) l = live now l"
    unfolding live_def by (intro filter_cong) auto
  then show ?thesis
    using cache_rel_foldl_remove [OF assms, of ks]
    by (simp add: prune_expired_def ks_def)
qed

lemma tighten_bytes [simp]: "ce_estimated_bytes (tighten_expiry p e) = ce_estimated_bytes e"
  and tighten_result [simp]: "ce_result (tighten_expiry p e) = ce_result e"
  and tighten_inserted [simp]: "ce_inserted_at (tighten_expiry p e) = ce_inserted_at e"
  by (simp_all add: tighten_expiry_def split: option.splits)

lemma cache_rel_tighten [cache_rel_intros]:
  "cache_rel c l \<Longrightarrow>
   cache_rel (c\<lparr>jc_entries := map (\<lambda>(k, e). (k, tighten_expiry p e)) (jc_entries c)\<rparr>)
     (map (\<lambda>(k, e). (k, tighten_expiry p e)) l)"
  by (auto simp: cache_rel_def wf_alist_def entry_bytes_def comp_def case_prod_unfold)

section \<open>The operations implement the specification\<close>

lemma policy_validate_iff [simp]:
  "policy_validate p = Inr () \<longleftrightarrow> cp_max_entries p \<noteq> 0 \<and> cp_max_bytes p \<noteq> 0 \<and> cp_ttl p \<noteq> 0"
  by (simp add: policy_validate_def)

lemma cache_rel_default [simp]: "cache_rel default_cache []"
  by (simp add: cache_rel_def default_cache_def)

lemma cache_rel_lookup:
  assumes "cache_rel c l"
  shows "fst (cache_lookup k now c) = fst (spec_lookup k now l)"
    and "cache_rel (snd (cache_lookup k now c)) (snd (spec_lookup k now l))"
proof -
  note rel = cache_relD [OF assms]
  show "fst (cache_lookup k now c) = fst (spec_lookup k now l)"
    by (auto simp: cache_lookup_def spec_lookup_def rel(6) Let_def split: option.splits)
  show "cache_rel (snd (cache_lookup k now c)) (snd (spec_lookup k now l))"
  proof (cases "map_of l k")
    case None
    then show ?thesis using assms by (simp add: cache_lookup_def spec_lookup_def rel(6) Let_def)
  next
    case (Some e)
    have "cache_rel (touch k c) (alist_remove k l @ [(k, e)])"
    proof -
      have "remove1 k (jc_lru c) = map fst (alist_remove k l)"
        using rel(1,4) by (simp add: distinct_remove1_removeAll removeAll_filter_not_eq eq_commute)
      moreover have "set (alist_remove k l @ [(k, e)]) = set l"
        using Some rel(1) map_of_SomeD [OF Some] eq_key_imp_eq_value [OF rel(1)]
        by (auto simp: set_alist_remove)
      ultimately show ?thesis
        using rel entry_bytes_remove [OF rel(1) Some]
        by (simp add: cache_rel_def touch_def distinct_filter flip: filter_fst_map)
    qed
    then show ?thesis
      using Some assms cache_rel_remove [OF assms, of k]
      by (auto simp: cache_lookup_def spec_lookup_def rel(6) Let_def not_le)
  qed
qed

lemma cache_rel_within:
  "cache_rel c l \<Longrightarrow>
   (unat (cp_max_entries p) < length (jc_entries c) \<or> cp_max_bytes p < jc_estimated_bytes c)
   = (\<not> within p l)"
  by (auto simp: within_def cache_relD word_less_nat_alt)

lemma cache_rel_reconcile:
  assumes "cache_rel c l"
  shows "policy_validate p = Inr () \<Longrightarrow> fst (reconcile_policy now p c)"
    and "policy_validate p = Inr () \<Longrightarrow> cache_rel (snd (reconcile_policy now p c)) (spec_reconcile now p l)"
    and "policy_validate p \<noteq> Inr () \<Longrightarrow> reconcile_policy now p c = (False, c)"
proof -
  define c' where "c' = prune_expired now
    (c\<lparr>jc_entries := map (\<lambda>(k, e). (k, tighten_expiry p e)) (jc_entries c)\<rparr>)"
  define over where "over = (\<lambda>c :: judgment_cache. unat (cp_max_entries p) < length (jc_entries c)
    \<or> cp_max_bytes p < jc_estimated_bytes c)"
  have "cache_rel c' (live now (map (\<lambda>(k, e). (k, tighten_expiry p e)) l))"
    unfolding c'_def by (intro cache_rel_intros assms)
  then have "fst (evict_while over c')
    \<and> cache_rel (snd (evict_while over c')) (spec_reconcile now p l)"
    unfolding spec_reconcile_def over_def
    by (rule cache_rel_evict) (use cache_rel_within in blast, simp add: within_def)
  moreover have "reconcile_policy now p c = (True, snd (evict_while over c'))"
    if "policy_validate p = Inr ()"
    using that by (simp add: reconcile_policy_def Let_def c'_def over_def case_prod_beta)
  ultimately show "policy_validate p = Inr () \<Longrightarrow> fst (reconcile_policy now p c)"
    "policy_validate p = Inr () \<Longrightarrow> cache_rel (snd (reconcile_policy now p c)) (spec_reconcile now p l)"
    by simp_all
  show "policy_validate p \<noteq> Inr () \<Longrightarrow> reconcile_policy now p c = (False, c)"
    by (simp add: reconcile_policy_def)
qed

lemma spec_evict_props:
  "\<not> over [] \<Longrightarrow> \<not> over (spec_evict over l)"
  "\<exists>xs. l = xs @ spec_evict over l"
  by (induction l) (auto intro: exI [of _ "[]"] exI [of _ "_ # _"])

lemma spec_evict_id [simp]: "\<not> over l \<Longrightarrow> spec_evict over l = l"
  by (cases l) simp_all

lemma spec_evict_distinct: "distinct (map fst l) \<Longrightarrow> distinct (map fst (spec_evict over l))"
  by (induction l) auto

lemma set_spec_evict: "set (spec_evict over l) \<subseteq> set l"
  by (induction l) auto

lemma within_reconcile: "within p (spec_reconcile now p l)"
  unfolding spec_reconcile_def
  by (rule spec_evict_props(1) [THEN notnotD]) (simp add: within_def)

lemma saturating_sum_exact:
  assumes "cp_max_bytes p \<noteq> - 1"
  shows "cp_max_bytes p < sat_add a b \<longleftrightarrow> unat (cp_max_bytes p) < unat a + unat b"
proof -
  have "unat (cp_max_bytes p) \<noteq> unat (- 1 :: usize)"
    using assms by (simp only: unat_eq_word not_False_eq_True)
  then have "unat (cp_max_bytes p) < 2 ^ 64 - 1"
    using unat_less_64 [of "cp_max_bytes p"] by (simp add: unat_word_max)
  then show ?thesis
    by (simp add: word_less_nat_alt unat_sat_add)
qed

text \<open>The entry \<open>insert_success\<close> stores, and the two loop conditions on either level.\<close>

definition new_entry :: "judgment_identity \<Rightarrow> judgment_result \<Rightarrow> instant \<Rightarrow> instant \<Rightarrow> cache_entry" where
  "new_entry k r now expires_at =
     \<lparr>ce_result = r, ce_inserted_at = now, ce_expires_at = expires_at,
      ce_estimated_bytes = estimated_entry_bytes k r\<rparr>"

definition no_room :: "cache_policy \<Rightarrow> usize \<Rightarrow> judgment_cache \<Rightarrow> bool" where
  "no_room p est c \<longleftrightarrow> unat (cp_max_entries p) \<le> length (jc_entries c)
     \<or> cp_max_bytes p < sat_add (jc_estimated_bytes c) est"

definition spec_no_room :: "cache_policy \<Rightarrow> usize \<Rightarrow> lru_list \<Rightarrow> bool" where
  "spec_no_room p est l \<longleftrightarrow> unat (cp_max_entries p) \<le> length l
     \<or> unat (cp_max_bytes p) < entry_bytes l + unat est"

lemma insert_success_unfold:
  assumes "policy_validate p = Inr ()" "checked_add now (cp_ttl p) = Some expires_at"
    and "reconcile_policy now p c = (True, c0)"
  shows "insert_success k r now p c =
    (if cp_max_bytes p < estimated_entry_bytes k r then (False, cache_remove k c0)
     else case evict_while (no_room p (estimated_entry_bytes k r)) (cache_remove k c0) of
       (False, c) \<Rightarrow> (False, c)
     | (True, c) \<Rightarrow>
         (True, c\<lparr>jc_estimated_bytes := sat_add (jc_estimated_bytes c) (estimated_entry_bytes k r),
                  jc_lru := jc_lru c @ [k],
                  jc_entries := alist_put k (new_entry k r now expires_at) (jc_entries c)\<rparr>))"
  unfolding insert_success_def no_room_def new_entry_def using assms by (simp only: Let_def) simp

lemma spec_insert_unfold:
  "spec_insert k r now expires_at p l =
    (if cp_max_bytes p < estimated_entry_bytes k r then alist_remove k (spec_reconcile now p l)
     else spec_evict (spec_no_room p (estimated_entry_bytes k r)) (alist_remove k (spec_reconcile now p l))
       @ [(k, new_entry k r now expires_at)])"
  unfolding spec_insert_def spec_no_room_def new_entry_def by (simp only: Let_def)

lemma no_room_rel:
  "cp_max_bytes p \<noteq> - 1 \<Longrightarrow> cache_rel c l \<Longrightarrow> no_room p est c = spec_no_room p est l"
  by (simp add: no_room_def spec_no_room_def cache_relD saturating_sum_exact)

lemma cache_rel_append:
  assumes rel: "cache_rel c l" and fresh: "k \<notin> fst ` set l"
    and fits: "\<not> spec_no_room p (ce_estimated_bytes e) l"
  shows "cache_rel (c\<lparr>jc_estimated_bytes := sat_add (jc_estimated_bytes c) (ce_estimated_bytes e),
      jc_lru := jc_lru c @ [k], jc_entries := alist_put k e (jc_entries c)\<rparr>) (l @ [(k, e)])"
proof -
  note r = cache_relD [OF rel]
  have put: "alist_put k e (jc_entries c) = jc_entries c @ [(k, e)]"
    using fresh by (intro alist_put_fresh) (simp add: r(6) map_of_eq_None_iff)
  have "entry_bytes l + unat (ce_estimated_bytes e) < 2 ^ 64"
    using fits unat_less_64 [of "cp_max_bytes p"] by (simp add: spec_no_room_def)
  then have "unat (sat_add (jc_estimated_bytes c) (ce_estimated_bytes e))
      = entry_bytes l + unat (ce_estimated_bytes e)"
    by (simp add: unat_sat_add r(5))
  then show ?thesis
    using r(1-4) fresh by (simp add: cache_rel_def put wf_alist_def image_set [symmetric] del: image_set)
qed

lemma cache_rel_insert:
  assumes rel: "cache_rel c l" and p: "policy_validate p = Inr ()" "cp_max_bytes p \<noteq> - 1"
    and exp: "checked_add now (cp_ttl p) = Some expires_at"
  shows "fst (insert_success k r now p c) \<longleftrightarrow> estimated_entry_bytes k r \<le> cp_max_bytes p"
    and "cache_rel (snd (insert_success k r now p c)) (spec_insert k r now expires_at p l)"
proof -
  define est where "est = estimated_entry_bytes k r"
  obtain c0 where c0: "reconcile_policy now p c = (True, c0)" and rel0: "cache_rel c0 (spec_reconcile now p l)"
    using cache_rel_reconcile [OF rel, of p now] p(1) by (cases "reconcile_policy now p c") auto
  define c1 l1 where "c1 = cache_remove k c0" and "l1 = alist_remove k (spec_reconcile now p l)"
  have rel1: "cache_rel c1 l1"
    unfolding c1_def l1_def by (intro cache_rel_intros rel0)
  note unfold = insert_success_unfold [OF p(1) exp c0, of k r, folded est_def c1_def]
    spec_insert_unfold [of k r now expires_at p l, folded est_def l1_def]
  have "(fst (insert_success k r now p c) \<longleftrightarrow> est \<le> cp_max_bytes p)
    \<and> cache_rel (snd (insert_success k r now p c)) (spec_insert k r now expires_at p l)"
  proof (cases "cp_max_bytes p < est")
    case True
    then show ?thesis using rel1 by (simp add: unfold)
  next
    case False
    have nil: "\<not> spec_no_room p est []"
      using False p(1) by (auto simp: spec_no_room_def word_less_nat_alt unat_eq_0)
    have "fst (evict_while (no_room p est) c1)
      \<and> cache_rel (snd (evict_while (no_room p est) c1)) (spec_evict (spec_no_room p est) l1)"
      by (rule cache_rel_evict [OF rel1]) (simp_all add: no_room_rel [OF p(2)] nil)
    then obtain c2 where c2: "evict_while (no_room p est) c1 = (True, c2)"
      and rel2: "cache_rel c2 (spec_evict (spec_no_room p est) l1)"
      by (cases "evict_while (no_room p est) c1") auto
    have "k \<notin> fst ` set (spec_evict (spec_no_room p est) l1)"
      using set_spec_evict [of "spec_no_room p est" l1] by (auto simp: l1_def set_alist_remove)
    moreover have "\<not> spec_no_room p (ce_estimated_bytes (new_entry k r now expires_at))
        (spec_evict (spec_no_room p est) l1)"
      using spec_evict_props(1) [where over = "spec_no_room p est", OF nil]
      by (simp add: new_entry_def est_def)
    ultimately show ?thesis
      using cache_rel_append [OF rel2, of k p "new_entry k r now expires_at"] False
      by (simp add: unfold c2) (simp add: new_entry_def est_def)
  qed
  then show "fst (insert_success k r now p c) \<longleftrightarrow> estimated_entry_bytes k r \<le> cp_max_bytes p"
    and "cache_rel (snd (insert_success k r now p c)) (spec_insert k r now expires_at p l)"
    by (simp_all add: est_def)
qed

lemma insert_success_invalid:
  "policy_validate p \<noteq> Inr () \<Longrightarrow> insert_success k r now p c = (False, c)"
  "checked_add now (cp_ttl p) = None \<Longrightarrow> insert_success k r now p c = (False, c)"
  by (simp_all add: insert_success_def)

lemma cache_rel_clear:
  "cache_rel c l \<Longrightarrow> fst (cache_clear c) = length l"
  "cache_rel (snd (cache_clear c)) []"
  by (simp_all add: cache_clear_def cache_relD(7)) (simp add: cache_rel_def)

lemma cache_rel_len:
  assumes "cache_rel c l"
  shows "fst (cache_len now c) = length (live now l)"
    and "cache_rel (snd (cache_len now c)) (live now l)"
  using cache_rel_prune [OF assms, of now]
  by (simp_all add: cache_len_def Let_def cache_relD(7))

end
