(* ===== verification/Cache_Properties.thy ===== *)
theory Cache_Properties
  imports Cache_Refinement
begin

text \<open>
  What clients of the cache rely on. \<open>cache_wf\<close> is the invariant of the code's cache and \<open>recency\<close>
  its abstraction; the operations implement the specification of \<open>Cache_Refinement\<close> through them.
  The locale \<open>result_store\<close> is the interface the connection runtime uses: whatever a lookup returns
  was stored under that key.
\<close>

section \<open>The invariant and the abstraction function\<close>

definition recency :: "judgment_cache \<Rightarrow> lru_list" where
  "recency c = map (\<lambda>k. (k, the (map_of (jc_entries c) k))) (jc_lru c)"

definition cache_wf :: "judgment_cache \<Rightarrow> bool" where
  "cache_wf c \<longleftrightarrow> distinct (jc_lru c) \<and> wf_alist (jc_entries c)
     \<and> set (jc_lru c) = fst ` set (jc_entries c)
     \<and> unat (jc_estimated_bytes c) = entry_bytes (jc_entries c)"

lemma entry_bytes_set_cong:
  assumes "distinct (map fst l)" "distinct (map fst l')" "set l = set l'"
  shows "entry_bytes l = entry_bytes l'"
proof -
  have "distinct l" "distinct l'" using assms by (simp_all add: distinct_map)
  then show ?thesis
    unfolding entry_bytes_def by (simp only: sum_list_distinct_conv_sum_set assms(3))
qed

lemma cache_rel_iff: "cache_rel c l \<longleftrightarrow> cache_wf c \<and> l = recency c"
proof
  assume rel: "cache_rel c l"
  note r = cache_relD [OF rel]
  have "recency c = map (\<lambda>x. (fst x, the (map_of l (fst x)))) l"
    by (simp add: recency_def r(4,6))
  also have "\<dots> = l"
    using r(1) by (intro map_idI) (auto simp: map_of_is_SomeI)
  finally show "cache_wf c \<and> l = recency c"
    using r entry_bytes_set_cong [of "jc_entries c" l] by (auto simp: cache_wf_def wf_alist_def)
next
  assume a: "cache_wf c \<and> l = recency c"
  then have wf: "distinct (jc_lru c)" "distinct (map fst (jc_entries c))"
    "set (jc_lru c) = fst ` set (jc_entries c)"
    "unat (jc_estimated_bytes c) = entry_bytes (jc_entries c)" and l: "l = recency c"
    by (simp_all add: cache_wf_def wf_alist_def)
  have fst: "map fst l = jc_lru c" by (simp add: l recency_def comp_def)
  have "set l = (\<lambda>x. (fst x, the (map_of (jc_entries c) (fst x)))) ` set (jc_entries c)"
    by (simp add: l recency_def wf(3) image_image)
  also have "\<dots> = id ` set (jc_entries c)"
    using wf(2) by (intro image_cong) (auto simp: map_of_is_SomeI)
  finally have "set (jc_entries c) = set l" by simp
  then show "cache_rel c l"
    using wf fst entry_bytes_set_cong [of "jc_entries c" l] by (simp add: cache_rel_def wf_alist_def)
qed

lemma cache_rel_recency: "cache_wf c \<Longrightarrow> cache_rel c (recency c)"
  by (simp add: cache_rel_iff)

section \<open>Sequences of operations\<close>

datatype cache_op =
    Op_Lookup judgment_identity instant
  | Op_Lookup_With_Policy judgment_identity instant cache_policy
  | Op_Reconcile instant cache_policy
  | Op_Insert judgment_identity judgment_result instant cache_policy
  | Op_Insert_Outcome judgment_identity "judgment_result result" instant cache_policy
  | Op_Len instant
  | Op_Clear

fun apply_cache_op :: "cache_op \<Rightarrow> judgment_cache \<Rightarrow> judgment_cache" where
  "apply_cache_op (Op_Lookup k now) c = snd (cache_lookup k now c)"
| "apply_cache_op (Op_Lookup_With_Policy k now p) c = snd (lookup_with_policy k now p c)"
| "apply_cache_op (Op_Reconcile now p) c = snd (reconcile_policy now p c)"
| "apply_cache_op (Op_Insert k r now p) c = snd (insert_success k r now p c)"
| "apply_cache_op (Op_Insert_Outcome k outcome now p) c = snd (insert_outcome k outcome now p c)"
| "apply_cache_op (Op_Len now) c = snd (cache_len now c)"
| "apply_cache_op Op_Clear c = snd (cache_clear c)"

text \<open>The byte limit a policy may carry: the configuration reads it from a signed 64-bit option.\<close>

fun op_limits_ok :: "cache_op \<Rightarrow> bool" where
  "op_limits_ok (Op_Insert k r now p) \<longleftrightarrow> cp_max_bytes p \<noteq> - 1"
| "op_limits_ok (Op_Insert_Outcome k outcome now p) \<longleftrightarrow> cp_max_bytes p \<noteq> - 1"
| "op_limits_ok _ \<longleftrightarrow> True"

lemma wf_insert_success:
  assumes "cache_wf c" "cp_max_bytes p \<noteq> - 1"
  shows "cache_wf (snd (insert_success k r now p c))"
proof (cases "policy_validate p = Inr () \<and> checked_add now (cp_ttl p) \<noteq> None")
  case True
  then show ?thesis
    using cache_rel_insert(2) [OF cache_rel_recency [OF assms(1)] _ assms(2)]
    by (auto simp: cache_rel_iff)
next
  case False
  then have "insert_success k r now p c = (False, c)"
    by (auto simp del: policy_validate_iff intro: insert_success_invalid)
  then show ?thesis using assms(1) by simp
qed

lemma wf_reconcile: "cache_wf c \<Longrightarrow> cache_wf (snd (reconcile_policy now p c))"
  using cache_rel_reconcile [OF cache_rel_recency, of c p now]
  by (cases "policy_validate p = Inr ()") (auto simp: cache_rel_iff)

lemma wf_lookup: "cache_wf c \<Longrightarrow> cache_wf (snd (cache_lookup k now c))"
  using cache_rel_lookup(2) [OF cache_rel_recency, of c k now] by (simp add: cache_rel_iff)

lemma wf_apply_cache_op:
  assumes "cache_wf c" "op_limits_ok op"
  shows "cache_wf (apply_cache_op op c)"
proof (cases op)
  case (Op_Lookup_With_Policy k now p)
  then show ?thesis
    using wf_reconcile [OF assms(1), of now p] wf_lookup
    by (auto simp: lookup_with_policy_def split: prod.splits bool.splits)
next
  case (Op_Len now)
  then show ?thesis
    using cache_rel_len(2) [OF cache_rel_recency [OF assms(1)], of now] by (simp add: cache_rel_iff)
next
  case Op_Clear
  then show ?thesis using cache_rel_clear(2) [of c] by (simp add: cache_rel_iff)
next
  case (Op_Insert_Outcome k outcome now p)
  then show ?thesis
    using assms wf_insert_success by (auto simp: insert_outcome_def split: sum.splits)
qed (use assms wf_lookup wf_reconcile wf_insert_success in auto)

section \<open>The interface of a result store\<close>

text \<open>
  \<open>holds s k r\<close>: the store has result \<open>r\<close> under key \<open>k\<close>. A client may rely on a lookup returning
  something the store holds, and on no operation but \<open>put\<close> adding anything.
\<close>

locale result_store =
  fixes find_in :: "'k \<Rightarrow> 't \<Rightarrow> 's \<Rightarrow> 'r option \<times> 's"
    and put :: "'k \<Rightarrow> 'r \<Rightarrow> 't \<Rightarrow> 'p \<Rightarrow> 's \<Rightarrow> bool \<times> 's"
    and tidy :: "'t \<Rightarrow> 'p \<Rightarrow> 's \<Rightarrow> bool \<times> 's"
    and wipe :: "'s \<Rightarrow> nat \<times> 's"
    and holds :: "'s \<Rightarrow> 'k \<Rightarrow> 'r \<Rightarrow> bool"
  assumes find_holds: "find_in k t s = (Some r, s') \<Longrightarrow> holds s k r"
    and find_keeps: "holds (snd (find_in k t s)) k' r' \<Longrightarrow> holds s k' r'"
    and put_keeps: "holds (snd (put k r t p s)) k' r' \<Longrightarrow> (k', r') = (k, r) \<or> holds s k' r'"
    and tidy_keeps: "holds (snd (tidy t p s)) k' r' \<Longrightarrow> holds s k' r'"
    and wipe_empty: "\<not> holds (snd (wipe s)) k' r'"
begin

definition sound :: "('k \<Rightarrow> 'r \<Rightarrow> bool) \<Rightarrow> 's \<Rightarrow> bool" where
  "sound P s \<longleftrightarrow> (\<forall>k r. holds s k r \<longrightarrow> P k r)"

lemma sound_find:
  assumes "sound P s" "find_in k t s = (x, s')"
  shows "sound P s'" "x = Some r \<Longrightarrow> P k r"
  using assms find_keeps [of k t s] find_holds [of k t s r s'] by (auto simp: sound_def)

lemma sound_put: "sound P s \<Longrightarrow> P k r \<Longrightarrow> sound P (snd (put k r t p s))"
  using put_keeps [of k r t p s] by (auto simp: sound_def)

lemma sound_tidy: "sound P s \<Longrightarrow> sound P (snd (tidy t p s))"
  using tidy_keeps [of t p s] by (auto simp: sound_def)

lemma sound_wipe: "sound P (snd (wipe s))"
  using wipe_empty by (simp add: sound_def)

end

section \<open>The cache provides the interface\<close>

definition cache_holds :: "judgment_cache \<Rightarrow> judgment_identity \<Rightarrow> judgment_result \<Rightarrow> bool" where
  "cache_holds c k r \<longleftrightarrow> (k, r) \<in> (\<lambda>(k, e). (k, ce_result e)) ` set (jc_entries c)"

lemma holds_counters [simp]:
  "cache_holds (count_expiration c) = cache_holds c" "cache_holds (count_eviction c) = cache_holds c"
  "cache_holds (c\<lparr>jc_lru := q\<rparr>) = cache_holds c" "cache_holds (touch k c) = cache_holds c"
  by (simp_all add: fun_eq_iff cache_holds_def touch_def)

lemma holds_remove_entry: "cache_holds (remove_entry k c) k' r \<Longrightarrow> cache_holds c k' r"
  by (auto simp: cache_holds_def remove_entry_def set_alist_remove split: option.splits)

lemma holds_remove: "cache_holds (cache_remove k c) k' r \<Longrightarrow> cache_holds c k' r"
  by (simp add: cache_remove_def Let_def holds_remove_entry)

lemma holds_prune: "cache_holds (prune_expired now c) k r \<Longrightarrow> cache_holds c k r"
proof -
  have "cache_holds (foldl (\<lambda>c k. count_expiration (cache_remove k c)) c ks) k r \<Longrightarrow> cache_holds c k r"
    for ks
  proof (induction ks arbitrary: c)
    case (Cons k' ks)
    have "cache_holds (count_expiration (cache_remove k' c)) k r"
      by (rule Cons.IH) (use Cons.prems in simp)
    then show ?case by (simp add: holds_remove)
  qed simp
  then show "cache_holds (prune_expired now c) k r \<Longrightarrow> cache_holds c k r"
    by (simp add: prune_expired_def Let_def)
qed

lemma holds_evict: "cache_holds (snd (evict_while over c)) k r \<Longrightarrow> cache_holds c k r"
proof (induction over c rule: evict_while.induct)
  case (1 over c)
  show ?case
  proof (cases "over c \<and> jc_lru c \<noteq> []")
    case True
    then obtain oldest rest where q: "over c" "jc_lru c = oldest # rest" by (auto simp: neq_Nil_conv)
    have "evict_while over c = evict_while over (count_eviction (remove_entry oldest (c\<lparr>jc_lru := rest\<rparr>)))"
      by (subst evict_while.simps) (simp add: q)
    then show ?thesis using 1 q by (auto dest!: holds_remove_entry)
  next
    case False
    then have "snd (evict_while over c) = c" by (subst evict_while.simps) (auto split: list.splits)
    then show ?thesis using 1 by simp
  qed
qed

lemma holds_tighten:
  "cache_holds (c\<lparr>jc_entries := map (\<lambda>(k, e). (k, tighten_expiry p e)) (jc_entries c)\<rparr>) k r
   \<longleftrightarrow> cache_holds c k r"
  by (simp add: cache_holds_def image_image case_prod_beta)

lemma holds_reconcile: "cache_holds (snd (reconcile_policy now p c)) k r \<Longrightarrow> cache_holds c k r"
  by (auto simp: reconcile_policy_def Let_def case_prod_beta holds_tighten split: if_splits
      dest!: holds_evict holds_prune)

lemma holds_lookup: "cache_holds (snd (cache_lookup k now c)) k' r \<Longrightarrow> cache_holds c k' r"
  by (auto simp: cache_lookup_def Let_def split: if_splits option.splits dest: holds_remove)

lemma lookup_holds: "cache_lookup k now c = (Some r, c') \<Longrightarrow> cache_holds c k r"
  by (auto simp: cache_lookup_def Let_def cache_holds_def split: if_splits option.splits
      dest!: map_of_SomeD intro: rev_image_eqI)

lemma holds_insert:
  "cache_holds (snd (insert_success k r now p c)) k' r' \<Longrightarrow> (k', r') = (k, r) \<or> cache_holds c k' r'"
proof (cases "policy_validate p = Inr () \<and> checked_add now (cp_ttl p) \<noteq> None")
  case True
  then obtain expires_at where exp: "checked_add now (cp_ttl p) = Some expires_at" by auto
  obtain c0 where c0: "reconcile_policy now p c = (True, c0)"
    using True by (auto simp: reconcile_policy_def Let_def case_prod_beta)
  have old: "cache_holds (cache_remove k c0) k' r' \<Longrightarrow> cache_holds c k' r'" for k' r'
    using holds_reconcile [of now p c] by (auto simp: c0 dest: holds_remove)
  assume h: "cache_holds (snd (insert_success k r now p c)) k' r'"
  obtain ok c2 where c2: "evict_while (no_room p (estimated_entry_bytes k r)) (cache_remove k c0) = (ok, c2)"
    by fastforce
  have "cache_holds c2 k' r' \<Longrightarrow> cache_holds c k' r'" for k' r'
    using holds_evict [of "no_room p (estimated_entry_bytes k r)" "cache_remove k c0"]
    by (auto simp: c2 dest: old)
  moreover have "cache_holds c2 k' r' \<or> (k', r') = (k, r)"
    if "cache_holds (c2\<lparr>jc_estimated_bytes := b, jc_lru := q,
        jc_entries := alist_put k (new_entry k r now expires_at) (jc_entries c2)\<rparr>) k' r'" for b q
    using that set_alist_put [of k "new_entry k r now expires_at" "jc_entries c2"]
    by (auto simp: cache_holds_def new_entry_def)
  ultimately show ?thesis
    using h True by (auto simp: insert_success_unfold [OF _ exp c0] c2 dest: old split: if_splits bool.splits)
next
  case False
  then have "insert_success k r now p c = (False, c)"
    by (auto simp del: policy_validate_iff intro: insert_success_invalid)
  then show "cache_holds (snd (insert_success k r now p c)) k' r' \<Longrightarrow> ?thesis" by simp
qed

interpretation store: result_store cache_lookup insert_success reconcile_policy cache_clear cache_holds
  by unfold_locales
    (erule lookup_holds, erule holds_lookup, erule holds_insert, erule holds_reconcile,
      simp add: cache_clear_def cache_holds_def)

section \<open>Properties\<close>

text \<open>C22: Whatever sequence of public operations is run on a fresh cache, with whatever policies and
  clock readings, the entry map, the recency queue and the byte counter stay consistent: the queue
  lists exactly the keys of the map, each once, and the saturating counter is the exact sum of the
  entries' estimates.\<close>

theorem cache_consistent_after_any_operations:
  "list_all op_limits_ok ops \<Longrightarrow> cache_wf (foldl (\<lambda>c op. apply_cache_op op c) default_cache ops)"
proof (induction ops rule: rev_induct)
  case Nil
  then show ?case using cache_rel_default by (simp add: cache_rel_iff)
qed (simp add: wf_apply_cache_op)

text \<open>
  Evicting for room: \<open>l'\<close> is what is left of \<open>l\<close> when the oldest entries are dropped, as few of them as
  \<open>room\<close> demands.
\<close>

definition newest_with_room :: "(lru_list \<Rightarrow> bool) \<Rightarrow> lru_list \<Rightarrow> lru_list \<Rightarrow> bool" where
  "newest_with_room room l l' \<longleftrightarrow> (\<exists>n. l' = drop n l \<and> room l' \<and> (\<forall>m < n. \<not> room (drop m l)))"

lemma spec_evict_newest: "\<not> over [] \<Longrightarrow> newest_with_room (\<lambda>l. \<not> over l) l (spec_evict over l)"
proof (induction l)
  case Nil
  then show ?case by (auto simp: newest_with_room_def)
next
  case (Cons x l)
  show ?case
  proof (cases "over (x # l)")
    case True
    obtain n where n: "spec_evict over l = drop n l" "\<not> over (drop n l)" "\<forall>m < n. over (drop m l)"
      using Cons by (auto simp: newest_with_room_def)
    have "\<forall>m < Suc n. over (drop m (x # l))" using n(3) True by (auto simp: less_Suc_eq_0_disj)
    then show ?thesis using n True by (auto simp: newest_with_room_def intro!: exI [of _ "Suc n"])
  qed (auto simp: newest_with_room_def intro: exI [of _ 0])
qed

text \<open>C23: Inserting a success implements its specification. Under a valid policy with a representable
  expiry, the entries that are live and whose expiry the policy has tightened are first cut to the newest
  that the policy's limits leave room for, dropping the oldest and no more of them than necessary, and an
  older entry of the key goes. The insertion reports success exactly when the new entry fits the byte
  limit on its own. If it does not, the rest stays as it is; if it does, the oldest are dropped once more,
  and again no more than necessary, until the new entry fits in both limits, and it becomes the most
  recent one. Afterwards the count and the byte counter are within the limits.\<close>

theorem insert_keeps_most_recent_within_limits:
  assumes wf: "cache_wf c" and p: "policy_validate p = Inr ()" "cp_max_bytes p \<noteq> - 1"
    and exp: "checked_add now (cp_ttl p) = Some expires_at"
    and ins: "insert_success k r now p c = (ok, c')"
  shows "(ok \<longleftrightarrow> estimated_entry_bytes k r \<le> cp_max_bytes p)
    \<and> (\<exists>kept. newest_with_room (within p) (live now (map (\<lambda>(k, e). (k, tighten_expiry p e)) (recency c))) kept
        \<and> (if ok
           then \<exists>rest. newest_with_room
                  (\<lambda>l. length l + 1 \<le> unat (cp_max_entries p)
                     \<and> entry_bytes l + unat (estimated_entry_bytes k r) \<le> unat (cp_max_bytes p))
                  (alist_remove k kept) rest
                \<and> recency c' = rest @ [(k, \<lparr>ce_result = r, ce_inserted_at = now, ce_expires_at = expires_at,
                     ce_estimated_bytes = estimated_entry_bytes k r\<rparr>)]
           else recency c' = alist_remove k kept))
    \<and> length (jc_entries c') \<le> unat (cp_max_entries p)
    \<and> jc_estimated_bytes c' \<le> cp_max_bytes p"
proof -
  define est kept where "est = estimated_entry_bytes k r" and "kept = spec_reconcile now p (recency c)"
  have ok: "ok \<longleftrightarrow> est \<le> cp_max_bytes p" and rel: "cache_rel c' (spec_insert k r now expires_at p (recency c))"
    using cache_rel_insert [OF cache_rel_recency [OF wf] p exp, of k r] ins by (simp_all add: est_def)
  have kept: "newest_with_room (within p) (live now (map (\<lambda>(k, e). (k, tighten_expiry p e)) (recency c))) kept"
    using spec_evict_newest [of "\<lambda>l. \<not> within p l"] within_reconcile [of p now "[]"]
    by (simp add: kept_def spec_reconcile_def live_def)
  have recent: "recency c' = spec_insert k r now expires_at p (recency c)" using rel by (simp add: cache_rel_iff)
  note insertion = spec_insert_unfold [of k r now expires_at p "recency c", folded est_def kept_def]
  show ?thesis
  proof (cases ok)
    case True
    let ?rest = "spec_evict (spec_no_room p est) (alist_remove k kept)"
    have nil: "\<not> spec_no_room p est []"
      using ok True p(1) by (auto simp: spec_no_room_def word_le_nat_alt unat_eq_0)
    have eq: "spec_insert k r now expires_at p (recency c) = ?rest @ [(k, new_entry k r now expires_at)]"
      using ok True by (simp add: insertion not_less)
    have "(\<lambda>l. \<not> spec_no_room p est l)
        = (\<lambda>l. length l + 1 \<le> unat (cp_max_entries p) \<and> entry_bytes l + unat est \<le> unat (cp_max_bytes p))"
      by (auto simp: spec_no_room_def)
    then have rest: "newest_with_room
        (\<lambda>l. length l + 1 \<le> unat (cp_max_entries p) \<and> entry_bytes l + unat est \<le> unat (cp_max_bytes p))
        (alist_remove k kept) ?rest"
      using spec_evict_newest [where over = "spec_no_room p est" and l = "alist_remove k kept", OF nil] by simp
    have room: "\<not> spec_no_room p est ?rest" by (rule spec_evict_props(1) [where over = "spec_no_room p est", OF nil])
    have "length (jc_entries c') \<le> unat (cp_max_entries p)" "jc_estimated_bytes c' \<le> cp_max_bytes p"
      using room cache_relD(5,7) [OF rel]
      by (simp_all add: eq spec_no_room_def word_le_nat_alt new_entry_def flip: est_def)
    then show ?thesis
      using ok True kept rest recent unfolding eq new_entry_def est_def by (simp only: if_True) blast
  next
    case False
    have eq: "spec_insert k r now expires_at p (recency c) = alist_remove k kept"
      using ok False by (simp add: insertion)
    have "within p kept" by (simp add: kept_def within_reconcile)
    then have "within p (alist_remove k kept)"
      unfolding within_def alist_remove_def using entry_bytes_filter_le length_filter_le le_trans by blast
    then have "length (jc_entries c') \<le> unat (cp_max_entries p)" "jc_estimated_bytes c' \<le> cp_max_bytes p"
      using cache_relD(5,7) [OF rel] by (simp_all add: eq within_def word_le_nat_alt)
    then show ?thesis using ok False kept recent unfolding eq est_def by (simp only: if_False) blast
  qed
qed

text \<open>C24: After a successful insertion a lookup of that key returns exactly the inserted result until
  the policy's time to live has passed, and nothing from then on.\<close>

theorem lookup_after_insert:
  assumes "cache_wf c" "policy_validate p = Inr ()" "cp_max_bytes p \<noteq> - 1"
    and exp: "checked_add now (cp_ttl p) = Some expires_at"
    and fits: "estimated_entry_bytes k r \<le> cp_max_bytes p"
  shows "fst (cache_lookup k later (snd (insert_success k r now p c)))
    = (if later < now + cp_ttl p then Some r else None)"
proof -
  have rel: "cache_rel (snd (insert_success k r now p c)) (spec_insert k r now expires_at p (recency c))"
    by (rule cache_rel_insert(2) [OF cache_rel_recency [OF assms(1)] assms(2,3) exp])
  let ?l = "spec_evict (spec_no_room p (estimated_entry_bytes k r))
    (alist_remove k (spec_reconcile now p (recency c)))"
  have "map_of ?l k = None"
    using set_spec_evict [of "spec_no_room p (estimated_entry_bytes k r)"]
    by (fastforce simp: map_of_eq_None_iff set_alist_remove)
  then have "map_of (spec_insert k r now expires_at p (recency c)) k = Some (new_entry k r now expires_at)"
    using fits by (simp add: spec_insert_unfold not_less [symmetric] map_add_def)
  moreover have "expires_at = now + cp_ttl p"
    using exp by (simp add: checked_add_def split: if_splits)
  ultimately show ?thesis
    by (simp add: cache_rel_lookup(1) [OF rel] spec_lookup_def new_entry_def)
qed

text \<open>C28: A lookup under a policy only serves an entry the cache held for that very identity, neither
  expired by its own expiry nor older than the policy in force at the lookup allows.\<close>

theorem lookup_with_policy_serves_only_fresh_entries:
  assumes wf: "cache_wf c" and now: "now < INSTANT_LIMIT"
    and hit: "lookup_with_policy k now p c = (Some r, c')"
  shows "\<exists>e. map_of (jc_entries c) k = Some e \<and> ce_result e = r
    \<and> now < ce_expires_at e \<and> now < ce_inserted_at e + cp_ttl p"
proof -
  note rel = cache_rel_recency [OF wf]
  have p: "policy_validate p = Inr ()"
    using hit cache_rel_reconcile(3) [OF rel, of p now]
    by (cases "policy_validate p = Inr ()") (auto simp: lookup_with_policy_def)
  obtain c0 where c0: "reconcile_policy now p c = (True, c0)" "cache_rel c0 (spec_reconcile now p (recency c))"
    using cache_rel_reconcile(1,2) [OF rel p, of now] by (cases "reconcile_policy now p c") auto
  have "fst (spec_lookup k now (spec_reconcile now p (recency c))) = Some r"
    using hit c0 cache_rel_lookup(1) [OF c0(2), of k now] by (simp add: lookup_with_policy_def)
  then obtain e where e: "map_of (spec_reconcile now p (recency c)) k = Some e"
    "now < ce_expires_at e" "ce_result e = r"
    by (auto simp: spec_lookup_def split: option.splits if_splits)
  then have "(k, e) \<in> set (live now (map (\<lambda>(k, e). (k, tighten_expiry p e)) (recency c)))"
    using set_spec_evict unfolding spec_reconcile_def by (blast dest: map_of_SomeD)
  then obtain e0 where e0: "(k, e0) \<in> set (recency c)" "e = tighten_expiry p e0"
    by (auto simp: live_def)
  have "map_of (recency c) k = Some e0"
    using e0 cache_relD(1) [OF rel] by simp
  then have "map_of (jc_entries c) k = Some e0"
    using cache_relD(6) [OF rel] by simp
  moreover have "now < ce_expires_at e0 \<and> now < ce_inserted_at e0 + cp_ttl p"
    using e(2) e0(2) now by (auto simp: tighten_expiry_def checked_add_def split: if_splits)
  ultimately show ?thesis using e(3) e0(2) by auto
qed

section \<open>Witnesses\<close>

definition sample_identity :: "string \<Rightarrow> judgment_identity" where
  "sample_identity text =
     \<lparr>id_canonical_version = 1, id_state_kind = Kind_Text, id_canonical_bytes = text,
      id_question_kind = Kind_Noul, id_criterion = Some ''risky'', id_question = None,
      id_choices = [], id_provider_namespace = ''mock'', id_endpoint = ''mock'',
      id_requested_model = ''mock'', id_effective_model = Some ''mock'', id_credential_scope = 1,
      id_unresolved_model_scope = None\<rparr>"

definition sample_policy :: cache_policy where
  "sample_policy = \<lparr>cp_max_entries = 1, cp_max_bytes = 1000, cp_ttl = 10\<rparr>"

theorem cache_consistent_witness:
  "cache_wf (foldl (\<lambda>c op. apply_cache_op op c) default_cache
     [Op_Insert (sample_identity ''a'') (Noul 0) 5 sample_policy, Op_Lookup (sample_identity ''a'') 7,
      Op_Insert (sample_identity ''b'') (Noul 0) 8 sample_policy, Op_Clear])"
  by (rule cache_consistent_after_any_operations) (simp add: sample_policy_def)

lemma sample_estimate [simp]: "estimated_entry_bytes (sample_identity ''a'') (Noul 0) = 652"
  by code_simp

lemma sample_wf [simp]: "cache_wf default_cache"
  using cache_rel_default by (simp add: cache_rel_iff)

theorem insert_keeps_most_recent_witness:
  "recency (snd (insert_success (sample_identity ''a'') (Noul 0) 5 sample_policy default_cache)) \<noteq> []"
  using insert_keeps_most_recent_within_limits [of default_cache sample_policy 5 15
      "sample_identity ''a''" "Noul 0"]
  by (cases "insert_success (sample_identity ''a'') (Noul 0) 5 sample_policy default_cache")
    (auto simp: sample_policy_def checked_add_def INSTANT_LIMIT_def)

theorem lookup_after_insert_witness:
  "fst (cache_lookup (sample_identity ''a'') 14
     (snd (insert_success (sample_identity ''a'') (Noul 0) 5 sample_policy default_cache))) = Some (Noul 0)"
  by (subst lookup_after_insert [where expires_at = 15])
    (simp_all add: sample_policy_def checked_add_def INSTANT_LIMIT_def)

theorem lookup_with_policy_witness:
  "\<exists>e. map_of (jc_entries (snd (insert_success (sample_identity ''a'') (Noul 0) 5 sample_policy default_cache)))
     (sample_identity ''a'') = Some e \<and> ce_result e = Noul 0 \<and> 6 < ce_expires_at e"
proof -
  let ?c = "snd (insert_success (sample_identity ''a'') (Noul 0) 5 sample_policy default_cache)"
  have wf: "cache_wf ?c" by (rule wf_insert_success) (simp_all add: sample_policy_def)
  have "fst (lookup_with_policy (sample_identity ''a'') 6 sample_policy ?c) = Some (Noul 0)"
    by code_simp
  then obtain c' where hit: "lookup_with_policy (sample_identity ''a'') 6 sample_policy ?c = (Some (Noul 0), c')"
    by (cases "lookup_with_policy (sample_identity ''a'') 6 sample_policy ?c") auto
  have "6 < INSTANT_LIMIT" by (simp add: INSTANT_LIMIT_def)
  then show ?thesis
    using lookup_with_policy_serves_only_fresh_entries [OF wf _ hit] by blast
qed

end
