(* ===== verification/Query_Runtime.thy ===== *)
theory Query_Runtime
  imports Cache_Properties Provider_Protocol
begin

text \<open>
  \<open>crates/judgment-core/src/runtime.rs\<close>: the query entries through which threads of one query share
  a judgment, and the \<open>ExecutionRuntime\<close> trait the host implements. An \<open>Arc<QueryEntry>\<close> and an
  \<open>Arc<AtomicBool>\<close> are addresses into a heap of slots and flags; every implementation's state
  extends that heap. A blocking operation returns an option: None when it never returns. While a
  thread sleeps the other threads run: \<open>rt_others\<close> is what they do during one sleep.
\<close>

section \<open>The heap of entries and cancellation flags\<close>

type_synonym entry_ref = nat
type_synonym flag_ref = nat

text \<open>
  \<open>qh_created_for\<close> is not in the code: it remembers the identity each entry was allocated for, so
  that what an entry may contain can be stated after the runtime has dropped its own handle.
\<close>

record query_heap =
  qh_slots :: "entry_ref \<Rightarrow> judgment_result result option"
  qh_next_entry :: entry_ref
  qh_created_for :: "entry_ref \<Rightarrow> judgment_identity"
  qh_flags :: "flag_ref \<Rightarrow> bool"
  qh_next_flag :: flag_ref

definition new_query_entry :: "judgment_identity \<Rightarrow> 'a query_heap_scheme \<Rightarrow> entry_ref \<times> 'a query_heap_scheme" where
  "new_query_entry k s =
     (qh_next_entry s,
      s\<lparr>qh_slots := (qh_slots s)(qh_next_entry s := None),
        qh_created_for := (qh_created_for s)(qh_next_entry s := k),
        qh_next_entry := Suc (qh_next_entry s)\<rparr>)"

definition complete :: "judgment_result result \<Rightarrow> entry_ref \<Rightarrow> 'a query_heap_scheme \<Rightarrow> 'a query_heap_scheme" where
  "complete r entry s =
     (case qh_slots s entry of
        None \<Rightarrow> s\<lparr>qh_slots := (qh_slots s)(entry := Some r)\<rparr>
      | Some _ \<Rightarrow> s)"

partial_function (option) wait ::
  "('a query_heap_scheme \<Rightarrow> 'a query_heap_scheme) \<Rightarrow> entry_ref \<Rightarrow> flag_ref \<Rightarrow> 'a query_heap_scheme
   \<Rightarrow> (judgment_result result \<times> 'a query_heap_scheme) option" where
  "wait others entry cancelled s =
     (case qh_slots s entry of
        Some r \<Rightarrow> Some (r, s)
      | None \<Rightarrow>
          if qh_flags s cancelled
          then Some (Inl (provider_error ''query was cancelled while awaiting a judgment''), s)
          else wait others entry cancelled (others s))"

text \<open>
  Evaluation unfolds the loop only once its guards are decided.
\<close>

lemma wait_code [code]:
  "wait others entry cancelled s =
     (case qh_slots s entry of
        Some r \<Rightarrow> Some (r, s)
      | None \<Rightarrow>
          (case qh_flags s cancelled of
             True \<Rightarrow> Some (Inl (provider_error ''query was cancelled while awaiting a judgment''), s)
           | False \<Rightarrow> wait others entry cancelled (others s)))"
  by (subst wait.simps) (simp split: option.split bool.split)

section \<open>The trait\<close>

type_synonym permit = nat

record 's runtime_ops =
  rt_claim_query_entry :: "u64 \<Rightarrow> judgment_identity \<Rightarrow> 's \<Rightarrow> (entry_ref \<times> bool) result \<times> 's"
  rt_query_cancellation :: "u64 \<Rightarrow> 's \<Rightarrow> flag_ref result \<times> 's"
  rt_record_cache_hit :: "u64 \<Rightarrow> 's \<Rightarrow> 's"
  rt_record_provider_attempt :: "u64 \<Rightarrow> usize \<Rightarrow> bool \<Rightarrow> 's \<Rightarrow> 's"
  rt_record_failed_request :: "u64 \<Rightarrow> 's \<Rightarrow> 's"
  rt_record_provider_response :: "u64 \<Rightarrow> provider_metadata \<Rightarrow> duration \<Rightarrow> bool \<Rightarrow> 's \<Rightarrow> 's"
  rt_record_provider_failure :: "u64 \<Rightarrow> duration \<Rightarrow> bool \<Rightarrow> 's \<Rightarrow> 's"
  rt_cache_lookup :: "judgment_identity option \<Rightarrow> instant \<Rightarrow> cache_policy \<Rightarrow> 's \<Rightarrow> judgment_result option \<times> 's"
  rt_cache_insert :: "judgment_identity \<Rightarrow> judgment_result \<Rightarrow> instant \<Rightarrow> cache_policy \<Rightarrow> 's \<Rightarrow> 's"
  rt_acquire_permit :: "u64 \<Rightarrow> usize \<Rightarrow> 's \<Rightarrow> (permit result \<times> 's) option"
  rt_release_permit :: "permit \<Rightarrow> 's \<Rightarrow> 's"
  rt_others :: "'s \<Rightarrow> 's"

section \<open>Entries are written once\<close>

definition heap_grows :: "'a query_heap_scheme \<Rightarrow> 'a query_heap_scheme \<Rightarrow> bool" where
  "heap_grows s s' \<longleftrightarrow> qh_next_entry s \<le> qh_next_entry s'
     \<and> (\<forall>e < qh_next_entry s. qh_created_for s' e = qh_created_for s e
          \<and> (qh_slots s e \<noteq> None \<longrightarrow> qh_slots s' e = qh_slots s e))"

lemma heap_grows_refl [simp]: "heap_grows s s"
  by (simp add: heap_grows_def)

lemma heap_grows_trans [trans]: "heap_grows s s' \<Longrightarrow> heap_grows s' s'' \<Longrightarrow> heap_grows s s''"
  by (auto simp: heap_grows_def)

lemma heap_grows_complete [simp]: "heap_grows s (complete r e s)"
  by (simp add: heap_grows_def complete_def split: option.splits)

lemma heap_grows_new [simp]: "heap_grows s (snd (new_query_entry k s))"
  by (simp add: heap_grows_def new_query_entry_def)

lemma complete_slots:
  "qh_slots (complete r e s) e' = (if e' = e \<and> qh_slots s e = None then Some r else qh_slots s e')"
  by (auto simp: complete_def split: option.splits)

lemma complete_simps [simp]:
  "qh_next_entry (complete r e s) = qh_next_entry s" "qh_created_for (complete r e s) = qh_created_for s"
  "qh_flags (complete r e s) = qh_flags s" "qh_next_flag (complete r e s) = qh_next_flag s"
  "query_heap.more (complete r e s) = query_heap.more s"
  by (simp_all add: complete_def split: option.splits)

text \<open>What a wait returns, and when it returns.\<close>

definition wait_outcome :: "entry_ref \<Rightarrow> flag_ref \<Rightarrow> judgment_result result \<Rightarrow> 'a query_heap_scheme \<Rightarrow> bool" where
  "wait_outcome e c r s \<longleftrightarrow>
     (case qh_slots s e of
        Some r' \<Rightarrow> r = r'
      | None \<Rightarrow> qh_flags s c \<and> r = Inl (provider_error ''query was cancelled while awaiting a judgment''))"

lemma wait_steps:
  assumes "wait others e c s = Some y"
  shows "\<exists>n. snd y = (others ^^ n) s \<and> wait_outcome e c (fst y) (snd y)"
proof (rule wait.raw_induct [where P = "\<lambda>others e c s y.
    \<exists>n. snd y = (others ^^ n) s \<and> wait_outcome e c (fst y) (snd y)", OF _ assms])
  fix wait and others :: "'a query_heap_scheme \<Rightarrow> 'a query_heap_scheme" and e c s y
  assume 1: "\<And>others e c s y. wait others e c s = Some y
      \<Longrightarrow> \<exists>n. snd y = (others ^^ n) s \<and> wait_outcome e c (fst y) (snd y)"
    "(case qh_slots s e of
        Some r \<Rightarrow> Some (r, s)
      | None \<Rightarrow>
          if qh_flags s c
          then Some (Inl (provider_error ''query was cancelled while awaiting a judgment''), s)
          else wait others e c (others s)) = Some y"
  show "\<exists>n. snd y = (others ^^ n) s \<and> wait_outcome e c (fst y) (snd y)"
  proof (cases "qh_slots s e = None \<and> \<not> qh_flags s c")
    case True
    then have "wait others e c (others s) = Some y" using 1(2) by simp
    then obtain n where n: "snd y = (others ^^ n) (others s)" "wait_outcome e c (fst y) (snd y)"
      using 1(1) by blast
    then have "snd y = (others ^^ Suc n) s" by (simp add: funpow_swap1)
    then show ?thesis using n(2) by blast
  next
    case False
    then show ?thesis
      using 1(2) by (intro exI [of _ 0]) (auto simp: wait_outcome_def split: option.splits if_splits)
  qed
qed

lemma wait_returns:
  "qh_slots ((others ^^ n) s) e \<noteq> None \<or> qh_flags ((others ^^ n) s) c \<Longrightarrow> wait others e c s \<noteq> None"
proof (induction n arbitrary: s)
  case 0
  then show ?case by (subst wait.simps) (auto split: option.splits)
next
  case (Suc n)
  then show ?case by (subst wait.simps) (auto split: option.splits simp: funpow_swap1)
qed

lemma wait_completed [simp]: "qh_slots s e = Some r \<Longrightarrow> wait others e c s = Some (r, s)"
  by (subst wait.simps) simp

section \<open>What the executor relies on\<close>

text \<open>
  The laws of an execution runtime, relative to a predicate \<open>P\<close> on what may be stored for an identity
  and the implementation's invariant \<open>rt_inv\<close>: a claimed entry is allocated for the claimed identity,
  completed entries and cache hits satisfy \<open>P\<close>, and every operation, the steps of other threads
  included, keeps the invariant and lets the heap only grow.
\<close>

definition keeps :: "('a query_heap_scheme \<Rightarrow> bool) \<Rightarrow> ('a query_heap_scheme \<Rightarrow> 'a query_heap_scheme) \<Rightarrow> bool" where
  "keeps rt_inv f \<longleftrightarrow> (\<forall>s. rt_inv s \<longrightarrow> rt_inv (f s) \<and> heap_grows s (f s))"

lemma keepsD: "keeps rt_inv f \<Longrightarrow> rt_inv s \<Longrightarrow> rt_inv (f s)" "keeps rt_inv f \<Longrightarrow> rt_inv s \<Longrightarrow> heap_grows s (f s)"
  by (simp_all add: keeps_def)

lemma keeps_funpow: "keeps rt_inv f \<Longrightarrow> keeps rt_inv (f ^^ n)"
  by (induction n) (auto simp: keeps_def intro: heap_grows_trans)

definition allocated_for :: "'a query_heap_scheme \<Rightarrow> entry_ref \<Rightarrow> judgment_identity \<Rightarrow> bool" where
  "allocated_for s e k \<longleftrightarrow> e < qh_next_entry s \<and> qh_created_for s e = k"

lemma allocated_grows: "heap_grows s s' \<Longrightarrow> allocated_for s e k \<Longrightarrow> allocated_for s' e k"
  by (auto simp: heap_grows_def allocated_for_def)

locale judgment_runtime =
  fixes rt :: "('a query_heap_scheme) runtime_ops"
    and P :: "judgment_identity \<Rightarrow> judgment_result \<Rightarrow> bool"
    and rt_inv :: "'a query_heap_scheme \<Rightarrow> bool"
  assumes slots_hold: "rt_inv s \<Longrightarrow> allocated_for s e k \<Longrightarrow> qh_slots s e = Some (Inr r) \<Longrightarrow> P k r"
    and complete_inv: "rt_inv s \<Longrightarrow> allocated_for s e k \<Longrightarrow> (\<And>r. res = Inr r \<Longrightarrow> P k r) \<Longrightarrow> rt_inv (complete res e s)"
    and claim_keeps: "keeps rt_inv (\<lambda>s. snd (rt_claim_query_entry rt scope k s))"
    and claim_allocated: "rt_inv s \<Longrightarrow> rt_claim_query_entry rt scope k s = (Inr (e, owns), s') \<Longrightarrow> allocated_for s' e k"
    and cancellation_keeps: "keeps rt_inv (\<lambda>s. snd (rt_query_cancellation rt scope s))"
    and hit_keeps: "keeps rt_inv (rt_record_cache_hit rt scope)"
    and attempt_keeps: "keeps rt_inv (rt_record_provider_attempt rt scope n external)"
    and failed_keeps: "keeps rt_inv (rt_record_failed_request rt scope)"
    and response_keeps: "keeps rt_inv (rt_record_provider_response rt scope metadata d external)"
    and failure_keeps: "keeps rt_inv (rt_record_provider_failure rt scope d external)"
    and lookup_keeps: "keeps rt_inv (\<lambda>s. snd (rt_cache_lookup rt ck now p s))"
    and lookup_holds: "rt_inv s \<Longrightarrow> rt_cache_lookup rt (Some k) now p s = (Some r, s') \<Longrightarrow> P k r"
    and lookup_none: "fst (rt_cache_lookup rt None now p s) = None"
    and insert_keeps: "P k r \<Longrightarrow> keeps rt_inv (rt_cache_insert rt k r now p)"
    and acquire_keeps: "rt_inv s \<Longrightarrow> rt_acquire_permit rt scope n s = Some (x, s') \<Longrightarrow> rt_inv s' \<and> heap_grows s s'"
    and release_keeps: "keeps rt_inv (rt_release_permit rt permit)"
    and others_keeps: "keeps rt_inv (rt_others rt)"
    and P_model: "P (k\<lparr>id_effective_model := model, id_unresolved_model_scope := u\<rparr>) r \<longleftrightarrow> P k r"
begin

lemmas op_keeps = claim_keeps cancellation_keeps hit_keeps attempt_keeps failed_keeps response_keeps
  failure_keeps lookup_keeps release_keeps others_keeps

lemma wait_sound:
  assumes "rt_inv s" "allocated_for s e k" "wait (rt_others rt) e c s = Some (r, s')"
  shows "rt_inv s' \<and> heap_grows s s' \<and> (\<forall>v. r = Inr v \<longrightarrow> P k v)"
proof -
  obtain n where n: "s' = (rt_others rt ^^ n) s" "wait_outcome e c r s'"
    using wait_steps [OF assms(3)] by auto
  have *: "rt_inv s'" "heap_grows s s'"
    using keeps_funpow [OF others_keeps, of n] assms(1) by (simp_all add: n(1) keepsD)
  then have "P k v" if "r = Inr v" for v
    using that n(2) slots_hold [OF *(1) allocated_grows [OF *(2) assms(2)]]
    by (auto simp: wait_outcome_def split: option.splits)
  then show ?thesis using * by blast
qed

lemma complete_sound:
  assumes "rt_inv s" "allocated_for s e k" "\<And>r. res = Inr r \<Longrightarrow> P k r"
  shows "rt_inv (complete res e s)" "heap_grows s (complete res e s)"
  by (rule complete_inv [OF assms]) (auto simp: assms(3))

end

end
