(* ===== verification/Executor.thy ===== *)
theory Executor
  imports Query_Runtime "HOL-Library.Multiset"
begin

text \<open>
  The per-judgment half of \<open>crates/judgment-core/src/executor.rs\<close>: grouping of row judgments by their
  complete identity, \<open>execute_one_group\<close> and \<open>execute_groups\<close>. The state is a pair of the runtime's
  state and the world \<open>'w\<close> of the provider; \<open>clock\<close> reads \<open>Instant::now()\<close> from the world. A function
  that may block returns None when it never returns.
\<close>

section \<open>Data\<close>

record row_target =
  tg_function_invocation :: u64
  tg_data_chunk :: u64
  tg_row :: usize

record judgment_work =
  jw_identity :: judgment_identity
  jw_request :: judgment_request
  jw_target :: row_target

record judgment_group =
  jg_identity :: judgment_identity
  jg_request :: judgment_request
  jg_targets :: "row_target list"

record execution_limits =
  el_query_scope :: u64
  el_max_inflight :: usize
  el_max_request_bytes :: usize

type_synonym row_results = "(row_target \<times> judgment_result) list"

section \<open>Grouping\<close>

text \<open>
  The loop of \<open>group_by_identity\<close>; \<open>positions\<close> maps an identity to the index of its group.
\<close>

fun group_loop ::
  "judgment_group list \<Rightarrow> (judgment_identity \<Rightarrow> nat option) \<Rightarrow> judgment_work list \<Rightarrow> judgment_group list" where
  "group_loop groups positions [] = groups"
| "group_loop groups positions (item # work) =
     (case positions (jw_identity item) of
        Some index \<Rightarrow>
          group_loop (groups[index := (groups ! index)\<lparr>jg_targets := jg_targets (groups ! index) @ [jw_target item]\<rparr>])
            positions work
      | None \<Rightarrow>
          group_loop (groups @ [\<lparr>jg_identity = jw_identity item, jg_request = jw_request item,
                                 jg_targets = [jw_target item]\<rparr>])
            (positions(jw_identity item \<mapsto> length groups)) work)"

definition group_by_identity :: "judgment_work list \<Rightarrow> judgment_group list" where
  "group_by_identity work = group_loop [] (\<lambda>_. None) work"

section \<open>The cache key of a group\<close>

definition cache_identity_for :: "judgment_group \<Rightarrow> 'w provider \<Rightarrow> judgment_identity option" where
  "cache_identity_for grp provider =
     (case p_cache_model_identity provider (id_requested_model (jg_identity grp)) of
        None \<Rightarrow> None
      | Some effective_model \<Rightarrow>
          Some ((jg_identity grp)\<lparr>id_effective_model := Some effective_model,
                                    id_unresolved_model_scope := None\<rparr>))"

definition provider_model_is_stable :: "'w provider \<Rightarrow> judgment_group \<Rightarrow> string option \<Rightarrow> bool" where
  "provider_model_is_stable provider grp expected_model \<longleftrightarrow>
     (case expected_model of
        None \<Rightarrow> False
      | Some expected \<Rightarrow>
          p_cache_model_identity provider (id_requested_model (jg_identity grp)) = Some expected)"

section \<open>One attempt at the provider\<close>

text \<open>
  The three mutable locals the closure of an attempt leaves behind.
\<close>

record attempt_log =
  al_attempted :: bool
  al_response_received :: bool
  al_provider_elapsed :: duration

definition no_attempt :: attempt_log where
  "no_attempt = \<lparr>al_attempted = False, al_response_received = False, al_provider_elapsed = 0\<rparr>"

text \<open>
  The caching step both attempts end with: the result is stored under the pinned identity only when
  the provider reported that very model and still pins it.
\<close>

definition store_result ::
  "('w \<Rightarrow> instant \<times> 'w) \<Rightarrow> 's runtime_ops \<Rightarrow> 'w provider \<Rightarrow> cache_policy option \<Rightarrow> judgment_identity option
   \<Rightarrow> judgment_group \<Rightarrow> string option \<Rightarrow> judgment_result \<Rightarrow> 's \<times> 'w \<Rightarrow> 's \<times> 'w" where
  "store_result clock rt provider cache_policy cache_identity grp effective_model r sw =
     (case (cache_identity, cache_policy) of
        (Some cache_identity, Some policy) \<Rightarrow>
          if effective_model = id_effective_model cache_identity
             \<and> provider_model_is_stable provider grp (id_effective_model cache_identity)
          then let (s, w) = sw; (now, w) = clock w
               in (rt_cache_insert rt cache_identity r now policy s, w)
          else sw
      | _ \<Rightarrow> sw)"

text \<open>The checks on a response to a single request.\<close>

definition check_single_response :: "judgment_request \<Rightarrow> provider_batch_result \<Rightarrow> judgment_result result" where
  "check_single_response request response =
     result_bind (validate_batch_result [request] response) (\<lambda>_.
       case br_answers response of
         [] \<Rightarrow> Inl (invalid_response ''provider returned no answer'')
       | answer # _ \<Rightarrow>
           result_bind (validate_judgment_result request (pa_result answer)) (\<lambda>_. Inr (pa_result answer)))"

text \<open>
  The closure of \<open>execute_one_group\<close>, from the provider's return on, and whole. The permit is dropped
  on every return after it was acquired.
\<close>

definition settle_one ::
  "('w \<Rightarrow> instant \<times> 'w) \<Rightarrow> 's runtime_ops \<Rightarrow> 'w provider \<Rightarrow> execution_limits \<Rightarrow> cache_policy option
   \<Rightarrow> judgment_identity option \<Rightarrow> judgment_group \<Rightarrow> permit \<Rightarrow> provider_batch_result result \<Rightarrow> duration
   \<Rightarrow> 's \<times> 'w \<Rightarrow> judgment_result result \<times> attempt_log \<times> 's \<times> 'w" where
  "settle_one clock rt provider limits cache_policy cache_identity grp permit outcome elapsed = (\<lambda>(s, w).
     case outcome of
       Inl e \<Rightarrow> (Inl e, \<lparr>al_attempted = True, al_response_received = False, al_provider_elapsed = elapsed\<rparr>,
                rt_release_permit rt permit s, w)
     | Inr response \<Rightarrow>
         let s = rt_record_provider_response rt (el_query_scope limits) (br_metadata response) elapsed
                   (p_makes_external_request provider) s;
             log = \<lparr>al_attempted = True, al_response_received = True, al_provider_elapsed = elapsed\<rparr>
         in case check_single_response (jg_request grp) response of
           Inl e \<Rightarrow> (Inl e, log, rt_release_permit rt permit s, w)
         | Inr r \<Rightarrow>
             let (s, w) = store_result clock rt provider cache_policy cache_identity grp
                            (pm_effective_model (br_metadata response)) r (s, w)
             in (Inr r, log, rt_release_permit rt permit s, w))"

definition attempt_one ::
  "('w \<Rightarrow> instant \<times> 'w) \<Rightarrow> 's runtime_ops \<Rightarrow> 'w provider \<Rightarrow> execution_limits \<Rightarrow> cache_policy option
   \<Rightarrow> judgment_identity option \<Rightarrow> judgment_group \<Rightarrow> 's \<times> 'w
   \<Rightarrow> (judgment_result result \<times> attempt_log \<times> 's \<times> 'w) option" where
  "attempt_one clock rt provider limits cache_policy cache_identity grp = (\<lambda>(s, w).
     case rt_acquire_permit rt (el_query_scope limits) (el_max_inflight limits) s of
       None \<Rightarrow> None
     | Some (Inl e, s) \<Rightarrow> Some (Inl e, no_attempt, s, w)
     | Some (Inr permit, s) \<Rightarrow>
         let s = rt_record_provider_attempt rt (el_query_scope limits) 1 (p_makes_external_request provider) s;
             (started, w) = clock w;
             (outcome, w) = p_judge_with_metadata provider (jg_request grp) w;
             (ended, w) = clock w
         in Some (settle_one clock rt provider limits cache_policy cache_identity grp permit outcome
                    (ended - started) (s, w)))"

text \<open>The failure accounting after an attempt, the same for single requests and batches.\<close>

definition account_failure ::
  "'s runtime_ops \<Rightarrow> 'w provider \<Rightarrow> execution_limits \<Rightarrow> bool \<Rightarrow> attempt_log \<Rightarrow> 's \<Rightarrow> 's" where
  "account_failure rt provider limits is_err log s =
     (if al_attempted log \<and> is_err \<and> p_makes_external_request provider
      then let s = rt_record_failed_request rt (el_query_scope limits) s
           in if \<not> al_response_received log
              then rt_record_provider_failure rt (el_query_scope limits) (al_provider_elapsed log)
                     (p_makes_external_request provider) s
              else s
      else s)"

section \<open>Executing the groups one by one\<close>

definition is_err :: "'a result \<Rightarrow> bool" where
  "is_err r \<longleftrightarrow> (case r of Inl _ \<Rightarrow> True | Inr _ \<Rightarrow> False)"

text \<open>The part of \<open>execute_one_group\<close> after the cache: size check, attempt, accounting, completion.\<close>

definition request_one_group ::
  "('w \<Rightarrow> instant \<times> 'w) \<Rightarrow> ('a query_heap_scheme) runtime_ops \<Rightarrow> 'w provider \<Rightarrow> execution_limits
   \<Rightarrow> cache_policy option \<Rightarrow> judgment_identity option \<Rightarrow> judgment_group \<Rightarrow> entry_ref
   \<Rightarrow> 'a query_heap_scheme \<times> 'w \<Rightarrow> (judgment_result result \<times> 'a query_heap_scheme \<times> 'w) option" where
  "request_one_group clock rt provider limits cache_policy cache_identity grp entry = (\<lambda>(s, w).
     if el_max_request_bytes limits < p_estimate_request_bytes provider [jg_request grp]
     then let error = configuration ''one judgment exceeds duckjeu_max_request_bytes''
          in Some (Inl error, complete (Inl error) entry s, w)
     else case attempt_one clock rt provider limits cache_policy cache_identity grp (s, w) of
       None \<Rightarrow> None
     | Some (r, log, s, w) \<Rightarrow>
         let s = account_failure rt provider limits (is_err r) log s
         in Some (r, complete r entry s, w))"

definition execute_one_group ::
  "('w \<Rightarrow> instant \<times> 'w) \<Rightarrow> ('a query_heap_scheme) runtime_ops \<Rightarrow> 'w provider \<Rightarrow> execution_limits
   \<Rightarrow> cache_policy option \<Rightarrow> judgment_group
   \<Rightarrow> 'a query_heap_scheme \<times> 'w \<Rightarrow> (judgment_result result \<times> 'a query_heap_scheme \<times> 'w) option" where
  "execute_one_group clock rt provider limits cache_policy grp = (\<lambda>(s, w).
     let scope = el_query_scope limits;
         cache_identity = (case cache_policy of None \<Rightarrow> None | Some _ \<Rightarrow> cache_identity_for grp provider)
     in case rt_claim_query_entry rt scope (jg_identity grp) s of
       (Inl e, s) \<Rightarrow> Some (Inl e, s, w)
     | (Inr (entry, owns_request), s) \<Rightarrow>
         (case rt_query_cancellation rt scope s of
           (Inl e, s) \<Rightarrow> Some (Inl e, s, w)
         | (Inr cancelled, s) \<Rightarrow>
             if \<not> owns_request
             then (case wait (rt_others rt) entry cancelled s of
                     None \<Rightarrow> None
                   | Some (r, s) \<Rightarrow> Some (r, s, w))
             else case cache_policy of
               None \<Rightarrow> request_one_group clock rt provider limits cache_policy cache_identity grp entry (s, w)
             | Some policy \<Rightarrow>
                 (case policy_validate policy of
                   Inl error \<Rightarrow> Some (Inl error, complete (Inl error) entry s, w)
                 | Inr _ \<Rightarrow>
                     let (now, w) = clock w
                     in case rt_cache_lookup rt cache_identity now policy s of
                       (Some r, s) \<Rightarrow>
                         Some (Inr r, complete (Inr r) entry (rt_record_cache_hit rt scope s), w)
                     | (None, s) \<Rightarrow>
                         request_one_group clock rt provider limits cache_policy cache_identity grp entry (s, w))))"

fun execute_each ::
  "('w \<Rightarrow> instant \<times> 'w) \<Rightarrow> ('a query_heap_scheme) runtime_ops \<Rightarrow> 'w provider \<Rightarrow> execution_limits
   \<Rightarrow> cache_policy option \<Rightarrow> row_results \<Rightarrow> judgment_group list
   \<Rightarrow> 'a query_heap_scheme \<times> 'w \<Rightarrow> (row_results result \<times> 'a query_heap_scheme \<times> 'w) option" where
  "execute_each clock rt provider limits cache_policy output [] (s, w) = Some (Inr output, s, w)"
| "execute_each clock rt provider limits cache_policy output (grp # groups) (s, w) =
     (case execute_one_group clock rt provider limits cache_policy grp (s, w) of
        None \<Rightarrow> None
      | Some (Inl e, s, w) \<Rightarrow> Some (Inl e, s, w)
      | Some (Inr r, s, w) \<Rightarrow>
          execute_each clock rt provider limits cache_policy
            (output @ map (\<lambda>target. (target, r)) (jg_targets grp)) groups (s, w))"

definition execute_groups ::
  "judgment_group list \<Rightarrow> ('w \<Rightarrow> instant \<times> 'w) \<Rightarrow> 'w provider \<Rightarrow> ('a query_heap_scheme) runtime_ops
   \<Rightarrow> execution_limits \<Rightarrow> cache_policy option
   \<Rightarrow> 'a query_heap_scheme \<times> 'w \<Rightarrow> (row_results result \<times> 'a query_heap_scheme \<times> 'w) option" where
  "execute_groups groups clock provider rt limits cache_policy = (\<lambda>(s, w).
     if el_max_request_bytes limits = 0
     then Some (Inl (configuration ''duckjeu_max_request_bytes must be positive''), s, w)
     else execute_each clock rt provider limits cache_policy [] groups (s, w))"

section \<open>Grouping meets its specification\<close>

text \<open>
  One group per distinct identity, in order of first appearance, with the request of the first work
  item of that identity and the targets of all of them in input order.
\<close>

definition first_occurrences :: "'k list \<Rightarrow> 'k list" where
  "first_occurrences ks = rev (remdups (rev ks))"

definition group_of :: "judgment_work list \<Rightarrow> judgment_identity \<Rightarrow> judgment_group" where
  "group_of work k =
     \<lparr>jg_identity = k,
      jg_request = (case find (\<lambda>item. jw_identity item = k) work of
        Some item \<Rightarrow> jw_request item | None \<Rightarrow> undefined),
      jg_targets = map jw_target (filter (\<lambda>item. jw_identity item = k) work)\<rparr>"

definition group_spec :: "judgment_work list \<Rightarrow> judgment_group list" where
  "group_spec work = map (group_of work) (first_occurrences (map jw_identity work))"

lemma first_occurrences_simps [simp]:
  "first_occurrences [] = []"
  "first_occurrences (ks @ [k]) = (if k \<in> set ks then first_occurrences ks else first_occurrences ks @ [k])"
  "set (first_occurrences ks) = set ks"
  "distinct (first_occurrences ks)"
  by (simp_all add: first_occurrences_def)

lemma find_append: "find p (xs @ ys) = (case find p xs of Some x \<Rightarrow> Some x | None \<Rightarrow> find p ys)"
  by (induction xs) auto

lemma group_of_snoc:
  "jw_identity item \<noteq> k \<Longrightarrow> group_of (work @ [item]) k = group_of work k"
  "jw_identity item = k \<Longrightarrow> k \<in> jw_identity ` set work \<Longrightarrow>
   group_of (work @ [item]) k = (group_of work k)\<lparr>jg_targets := jg_targets (group_of work k) @ [jw_target item]\<rparr>"
proof -
  show "jw_identity item \<noteq> k \<Longrightarrow> group_of (work @ [item]) k = group_of work k"
    by (simp add: group_of_def find_append split: option.splits)
  show "group_of (work @ [item]) k
      = (group_of work k)\<lparr>jg_targets := jg_targets (group_of work k) @ [jw_target item]\<rparr>"
    if "jw_identity item = k" "k \<in> jw_identity ` set work"
  proof -
    have "find (\<lambda>item. jw_identity item = k) work \<noteq> None"
      using that(2) by (auto simp: find_None_iff)
    then show ?thesis using that(1) by (auto simp: group_of_def find_append)
  qed
qed

lemma group_of_fresh:
  "jw_identity item \<notin> jw_identity ` set work \<Longrightarrow>
   group_of (work @ [item]) (jw_identity item)
     = \<lparr>jg_identity = jw_identity item, jg_request = jw_request item, jg_targets = [jw_target item]\<rparr>"
proof -
  assume a: "jw_identity item \<notin> jw_identity ` set work"
  have other: "jw_identity x \<noteq> jw_identity item" if "x \<in> set work" for x
  proof
    assume "jw_identity x = jw_identity item"
    then have "jw_identity item \<in> jw_identity ` set work"
      using that by (intro image_eqI [of _ _ x]) simp_all
    then show False using a by simp
  qed
  then have "find (\<lambda>i. jw_identity i = jw_identity item) work = None"
    "filter (\<lambda>i. jw_identity i = jw_identity item) work = []"
    by (simp_all add: find_None_iff filter_empty_conv other)
  then show ?thesis by (simp add: group_of_def find_append)
qed

text \<open>The position map the loop carries: the index of an identity among the first occurrences.\<close>

definition positions_ok :: "judgment_identity list \<Rightarrow> (judgment_identity \<Rightarrow> nat option) \<Rightarrow> bool" where
  "positions_ok ks positions \<longleftrightarrow>
     (\<forall>k i. positions k = Some i \<longleftrightarrow> i < length ks \<and> ks ! i = k)"

lemma positions_ok_snoc:
  "positions_ok ks positions \<Longrightarrow> k \<notin> set ks \<Longrightarrow> positions_ok (ks @ [k]) (positions(k \<mapsto> length ks))"
  unfolding positions_ok_def by (auto simp: nth_append in_set_conv_nth less_Suc_eq)

lemma positions_ok_None: "positions_ok ks positions \<Longrightarrow> positions k = None \<longleftrightarrow> k \<notin> set ks"
  unfolding positions_ok_def by (metis in_set_conv_nth not_None_eq)

lemma group_loop_spec:
  "positions_ok (first_occurrences (map jw_identity done)) positions \<Longrightarrow>
   group_loop (group_spec done) positions work = group_spec (done @ work)"
proof (induction work arbitrary: "done" positions)
  case (Cons item work)
  let ?ks = "first_occurrences (map jw_identity done)" and ?k = "jw_identity item"
  show ?case
  proof (cases "positions ?k")
    case None
    then have fresh: "?k \<notin> jw_identity ` set done"
      using positions_ok_None [OF Cons.prems] by simp
    have "group_of (done @ [item]) k = group_of done k" if "k \<in> set ?ks" for k
      using that fresh by (intro group_of_snoc(1)) auto
    then have "group_spec (done @ [item]) = group_spec done
        @ [\<lparr>jg_identity = ?k, jg_request = jw_request item, jg_targets = [jw_target item]\<rparr>]"
      using fresh group_of_fresh [OF fresh] by (simp add: group_spec_def)
    moreover have "length (group_spec done) = length ?ks" by (simp add: group_spec_def)
    ultimately have "group_loop (group_spec done) positions (item # work)
        = group_loop (group_spec (done @ [item])) (positions(?k \<mapsto> length ?ks)) work"
      using None by simp
    also have "\<dots> = group_spec ((done @ [item]) @ work)"
      using positions_ok_snoc [OF Cons.prems, of ?k] fresh
      by (intro Cons.IH) (simp add: fun_upd_def)
    finally show ?thesis by simp
  next
    case (Some i)
    then have i: "i < length ?ks" "?ks ! i = ?k"
      using Cons.prems by (simp_all add: positions_ok_def)
    then have old: "?k \<in> jw_identity ` set done"
      using nth_mem [OF i(1)] by simp
    have "(group_spec done)[i := (group_spec done ! i)\<lparr>jg_targets := jg_targets (group_spec done ! i)
        @ [jw_target item]\<rparr>] = group_spec (done @ [item])"
    proof (rule nth_equalityI)
      fix j assume "j < length ((group_spec done)[i := (group_spec done ! i)
        \<lparr>jg_targets := jg_targets (group_spec done ! i) @ [jw_target item]\<rparr>])"
      then have j: "j < length ?ks" by (simp add: group_spec_def)
      have "?ks ! j \<noteq> ?k" if "j \<noteq> i"
        using that i j nth_eq_iff_index_eq [of ?ks j i] by auto
      then show "(group_spec done)[i := (group_spec done ! i)\<lparr>jg_targets := jg_targets (group_spec done ! i)
          @ [jw_target item]\<rparr>] ! j = group_spec (done @ [item]) ! j"
        using i j old by (cases "j = i") (simp_all add: group_spec_def group_of_snoc)
    qed (use old in \<open>simp add: group_spec_def\<close>)
    then show ?thesis
      using Some Cons.IH [of "done @ [item]" positions] Cons.prems old by simp
  qed
qed simp

lemma group_by_identity_spec: "group_by_identity work = group_spec work"
  using group_loop_spec [of "[]" "\<lambda>_. None" work]
  by (simp add: group_by_identity_def group_spec_def positions_ok_def)

lemma mset_by_key:
  "distinct ks \<Longrightarrow> set (map key xs) \<subseteq> set ks \<Longrightarrow>
   mset (concat (map (\<lambda>k. map val (filter (\<lambda>x. key x = k) xs)) ks)) = mset (map val xs)"
proof (induction ks arbitrary: xs)
  case (Cons k ks)
  let ?rest = "filter (\<lambda>x. key x \<noteq> k) xs"
  have "filter (\<lambda>x. key x = k') ?rest = filter (\<lambda>x. key x = k') xs" if "k' \<in> set ks" for k'
    using that Cons.prems(1) by (auto intro: filter_cong)
  then have eq: "map (\<lambda>k. map val (filter (\<lambda>x. key x = k) ?rest)) ks = map (\<lambda>k. map val (filter (\<lambda>x. key x = k) xs)) ks"
    by (intro map_cong) auto
  moreover have "mset (concat (map (\<lambda>k. map val (filter (\<lambda>x. key x = k) ?rest)) ks)) = mset (map val ?rest)"
    by (rule Cons.IH) (use Cons.prems in auto)
  moreover have "mset (map val xs) = mset (map val (filter (\<lambda>x. key x = k) xs)) + mset (map val ?rest)"
    by (simp add: image_mset_union [symmetric] multiset_partition [symmetric] mset_filter)
  ultimately show ?case by (simp only: eq list.map concat.simps mset_append)
qed simp

lemma group_identities: "map jg_identity (group_by_identity work) = first_occurrences (map jw_identity work)"
  by (simp add: group_by_identity_spec group_spec_def group_of_def comp_def)

lemma group_targets: "mset (concat (map jg_targets (group_by_identity work))) = mset (map jw_target work)"
  using mset_by_key [of "first_occurrences (map jw_identity work)" jw_identity work jw_target]
  by (simp add: group_by_identity_spec group_spec_def group_of_def comp_def)

end
