(* ===== verification/Claim_Phase.thy ===== *)
theory Claim_Phase
  imports Executor
begin

text \<open>
  What \<open>execute_one_group\<close> and the planning loop of \<open>execute_batch_groups\<close> have in common: a group's
  identity is claimed, and whoever leads it looks into the cache. Both operations are this phase followed
  by a case analysis on its outcome, so that its soundness and progress are proved once.
\<close>

datatype claim =
    Claim_Failed judgment_error
  | Claim_Follows entry_ref flag_ref
  | Claim_Hit judgment_result
  | Claim_Leads entry_ref

definition claim_phase ::
  "('w \<Rightarrow> instant \<times> 'w) \<Rightarrow> ('a query_heap_scheme) runtime_ops \<Rightarrow> u64 \<Rightarrow> cache_policy option
   \<Rightarrow> judgment_identity option \<Rightarrow> judgment_identity \<Rightarrow> 'a query_heap_scheme \<times> 'w
   \<Rightarrow> claim \<times> 'a query_heap_scheme \<times> 'w" where
  "claim_phase clock rt scope cache_policy cache_identity identity = (\<lambda>(s, w).
     case rt_claim_query_entry rt scope identity s of
       (Inl e, s) \<Rightarrow> (Claim_Failed e, s, w)
     | (Inr (entry, owns_request), s) \<Rightarrow>
         (case rt_query_cancellation rt scope s of
           (Inl e, s) \<Rightarrow> (Claim_Failed e, s, w)
         | (Inr cancelled, s) \<Rightarrow>
             if \<not> owns_request then (Claim_Follows entry cancelled, s, w)
             else case cache_policy of
               None \<Rightarrow> (Claim_Leads entry, s, w)
             | Some policy \<Rightarrow>
                 (case policy_validate policy of
                   Inl error \<Rightarrow> (Claim_Failed error, complete (Inl error) entry s, w)
                 | Inr _ \<Rightarrow>
                     let (now, w) = clock w
                     in case rt_cache_lookup rt cache_identity now policy s of
                       (Some r, s) \<Rightarrow> (Claim_Hit r, complete (Inr r) entry (rt_record_cache_hit rt scope s), w)
                     | (None, s) \<Rightarrow> (Claim_Leads entry, s, w))))"

lemma execute_one_group_claims:
  "execute_one_group clock rt provider limits policy grp (s, w) =
     (let ck = (case policy of None \<Rightarrow> None | Some _ \<Rightarrow> cache_identity_for grp provider)
      in case claim_phase clock rt (el_query_scope limits) policy ck (jg_identity grp) (s, w) of
        (Claim_Failed e, s, w) \<Rightarrow> Some (Inl e, s, w)
      | (Claim_Follows entry cancelled, s, w) \<Rightarrow>
          (case wait (rt_others rt) entry cancelled s of None \<Rightarrow> None | Some (r, s) \<Rightarrow> Some (r, s, w))
      | (Claim_Hit r, s, w) \<Rightarrow> Some (Inr r, s, w)
      | (Claim_Leads entry, s, w) \<Rightarrow> request_one_group clock rt provider limits policy ck grp entry (s, w))"
  by (simp add: execute_one_group_def claim_phase_def Let_def del: policy_validate_iff split: prod.split sum.split option.split)

context judgment_runtime
begin

lemma cache_hit_sound:
  assumes hit: "rt_cache_lookup rt ck now p s = (hit, s')" and s: "rt_inv s" and e: "allocated_for s e k"
    and ck: "\<And>k' v. ck = Some k' \<Longrightarrow> P k' v = P k v"
  shows "rt_inv s'" "heap_grows s s'" "hit = Some v \<Longrightarrow> P k v"
    "hit = Some v \<Longrightarrow> rt_inv (complete (Inr v) e (rt_record_cache_hit rt scope s'))"
    "heap_grows s (complete (Inr v) e (rt_record_cache_hit rt scope s'))"
proof -
  show s': "rt_inv s'" and g1: "heap_grows s s'" using keepsD [OF lookup_keeps s, of ck now p] by (simp_all add: hit)
  show v: "P k v" if some: "hit = Some v" for v
  proof -
    obtain k' where "ck = Some k'" using some lookup_none [of now p s] hit by (cases ck) auto
    then show ?thesis using lookup_holds [OF s] hit some ck by blast
  qed
  have g2: "heap_grows s' (rt_record_cache_hit rt scope s')" and s4: "rt_inv (rt_record_cache_hit rt scope s')"
    using keepsD [OF hit_keeps s'] by simp_all
  show "rt_inv (complete (Inr v) e (rt_record_cache_hit rt scope s'))" if "hit = Some v"
    using complete_sound [OF s4, of e k "Inr v"] allocated_grows [OF heap_grows_trans [OF g1 g2] e] v [OF that] by simp
  show "heap_grows s (complete (Inr v) e (rt_record_cache_hit rt scope s'))"
    using heap_grows_trans [OF heap_grows_trans [OF g1 g2] heap_grows_complete] by simp
qed

lemma claim_phase_sound:
  assumes run: "claim_phase clock rt scope policy ck k (s, w) = (c, s', w')" and s: "rt_inv s"
    and ck: "\<And>k' v. ck = Some k' \<Longrightarrow> P k' v = P k v"
  shows "rt_inv s' \<and> heap_grows s s' \<and> (case c of
      Claim_Failed e \<Rightarrow> True | Claim_Follows e _ \<Rightarrow> allocated_for s' e k
    | Claim_Hit v \<Rightarrow> P k v | Claim_Leads e \<Rightarrow> allocated_for s' e k)"
proof -
  note run' = run [unfolded claim_phase_def prod.case Let_def]
  obtain c1 s1 where c1: "rt_claim_query_entry rt scope k s = (c1, s1)" by fastforce
  have s1: "rt_inv s1" "heap_grows s s1" using keepsD [OF claim_keeps s, of scope k] by (simp_all add: c1)
  show ?thesis
  proof (cases c1)
    case (Inl e)
    then show ?thesis using run' s1 by (auto simp: c1)
  next
    case (Inr eo)
    obtain e owns where eo: "eo = (e, owns)" by fastforce
    obtain c2 s2 where c2: "rt_query_cancellation rt scope s1 = (c2, s2)" by fastforce
    have s2: "rt_inv s2" "heap_grows s1 s2" using keepsD [OF cancellation_keeps s1(1), of scope] by (simp_all add: c2)
    have gr2: "heap_grows s s2" and e2: "allocated_for s2 e k"
      using heap_grows_trans [OF s1(2) s2(2)] allocated_grows [OF s2(2) claim_allocated [OF s]] c1 Inr eo by auto
    note run2 = run' [unfolded c1 Inr eo c2 prod.case sum.case]
    consider (cancel) x where "c2 = Inl x" | (follow) f where "c2 = Inr f" "\<not> owns"
      | (lead) f where "c2 = Inr f" "owns" "policy = None"
      | (invalid) f p error where "c2 = Inr f" "owns" "policy = Some p" "policy_validate p = Inl error"
      | (looked) f p u where "c2 = Inr f" "owns" "policy = Some p" "policy_validate p = Inr u"
      by (metis old.sum.exhaust option.exhaust)
    then show ?thesis
    proof cases
      case cancel
      then show ?thesis using run2 s2 gr2 by auto
    next
      case follow
      then show ?thesis using run2 s2 gr2 e2 by auto
    next
      case lead
      then show ?thesis using run2 s2 gr2 e2 by auto
    next
      case invalid
      then show ?thesis
        using run2 complete_sound [OF s2(1) e2, of "Inl error"] gr2
        by (auto simp del: policy_validate_iff intro: heap_grows_trans)
    next
      case looked
      obtain now w1 where now: "clock w = (now, w1)" by fastforce
      obtain hit s3 where hit: "rt_cache_lookup rt ck now p s2 = (hit, s3)" by fastforce
      note run3 = run2 [unfolded looked now option.case sum.case prod.case hit simp_thms if_False]
      note looking = cache_hit_sound [OF hit s2(1) e2 ck]
      show ?thesis
        using run3 looked(2) looking heap_grows_trans [OF gr2 looking(2)] heap_grows_trans [OF gr2 looking(5)] allocated_grows [OF looking(2) e2]
        by (cases hit) auto
    qed
  qed
qed

end

end
