(* ===== verification/Executor_Soundness.thy ===== *)
theory Executor_Soundness
  imports Claim_Phase
begin

text \<open>
  Correctness of the per-judgment executor over any runtime that satisfies the laws of
  \<open>judgment_runtime\<close>: every value it returns is one the provider's contract allows for the group's
  identity, the runtime's invariant is kept, and an owned entry is completed on every return.
\<close>

section \<open>What is known of a provider's answers\<close>

text \<open>
  \<open>Q request r\<close>: \<open>r\<close> is an acceptable answer to \<open>request\<close>. A provider is sound for \<open>Q\<close> when every
  response of it that passes validation carries such answers.
\<close>

definition sound_provider :: "(judgment_request \<Rightarrow> judgment_result \<Rightarrow> bool) \<Rightarrow> 'w provider \<Rightarrow> bool" where
  "sound_provider Q provider \<longleftrightarrow>
     (\<forall>rq w response w'. p_judge_with_metadata provider rq w = (Inr response, w') \<longrightarrow>
        covers_batch [rq] response \<longrightarrow> (\<forall>a \<in> set (br_answers response). Q rq (pa_result a)))
     \<and> (\<forall>rqs w response w'. p_judge_many provider rqs w = (Inr response, w') \<longrightarrow>
        covers_batch rqs response \<longrightarrow>
        (\<forall>rq \<in> set rqs. \<forall>r. answer_map response (rq_request_key rq) = Some r \<longrightarrow> Q rq r))"

definition valid_for_request :: "judgment_request \<Rightarrow> judgment_result \<Rightarrow> bool" where
  "valid_for_request rq r \<longleftrightarrow> valid_answer (rq_kind rq) (rq_choices rq) r"

definition valid_for_identity :: "judgment_identity \<Rightarrow> judgment_result \<Rightarrow> bool" where
  "valid_for_identity k r \<longleftrightarrow> valid_answer (id_question_kind k) (id_choices k) r"

lemma valid_for_identity_model [simp]:
  "valid_for_identity (k\<lparr>id_effective_model := m, id_unresolved_model_scope := u\<rparr>) r = valid_for_identity k r"
  by (simp add: valid_for_identity_def)

text \<open>Validation alone makes every provider sound for \<open>valid_for_request\<close>, whatever it does.\<close>

lemma every_provider_sound: "sound_provider valid_for_request provider"
  unfolding sound_provider_def valid_for_request_def
  using covers_batch_lookup covers_single by fastforce

text \<open>The group's request asks what its identity identifies, under whatever request key.\<close>

definition group_judges ::
  "(judgment_request \<Rightarrow> judgment_result \<Rightarrow> bool) \<Rightarrow> (judgment_identity \<Rightarrow> judgment_result \<Rightarrow> bool)
   \<Rightarrow> judgment_group \<Rightarrow> bool" where
  "group_judges Q P g \<longleftrightarrow> (\<forall>key r. Q ((jg_request g)\<lparr>rq_request_key := key\<rparr>) r \<longrightarrow> P (jg_identity g) r)"

lemma group_judgesD: "group_judges Q P g \<Longrightarrow> Q (jg_request g) r \<Longrightarrow> P (jg_identity g) r"
  unfolding group_judges_def by (drule spec [of _ "rq_request_key (jg_request g)"]) simp

lemma group_judges_valid:
  "jg_identity g = new_identity (jg_request g) context' \<Longrightarrow> group_judges valid_for_request valid_for_identity g"
  by (simp add: group_judges_def valid_for_request_def valid_for_identity_def new_identity_def)

lemma check_single_response_valid:
  assumes "check_single_response rq response = Inr r"
  shows "covers_batch [rq] response" "\<exists>a \<in> set (br_answers response). pa_result a = r"
    "valid_for_request rq r"
  using assms
  by (auto simp: check_single_response_def result_bind_Inr valid_for_request_def split: list.splits)

lemma sound_single:
  "sound_provider Q provider \<Longrightarrow> p_judge_with_metadata provider rq w = (Inr response, w') \<Longrightarrow>
   check_single_response rq response = Inr r \<Longrightarrow> Q rq r"
  unfolding sound_provider_def by (metis check_single_response_valid(1,2))

section \<open>Soundness over any lawful runtime\<close>

context judgment_runtime
begin

definition advances :: "'a query_heap_scheme \<Rightarrow> 'a query_heap_scheme \<Rightarrow> bool" where
  "advances s s' \<longleftrightarrow> rt_inv s \<longrightarrow> rt_inv s' \<and> heap_grows s s'"

lemma advances_refl [simp]: "advances s s"
  by (simp add: advances_def)

lemma advances_trans: "advances s s' \<Longrightarrow> advances s' s'' \<Longrightarrow> advances s s''"
  by (auto simp: advances_def intro: heap_grows_trans)

lemma keeps_advances: "keeps rt_inv f \<Longrightarrow> advances s s' \<Longrightarrow> advances s (f s')"
  by (auto simp: advances_def keeps_def intro: heap_grows_trans)

lemmas op_advances = op_keeps [THEN keeps_advances]

lemma acquire_advances:
  "rt_acquire_permit rt scope n s' = Some (x, s'') \<Longrightarrow> advances s s' \<Longrightarrow> advances s s''"
  using acquire_keeps by (auto simp: advances_def intro: heap_grows_trans)

lemma cache_identity_P:
  "cache_identity_for g provider = Some ck \<Longrightarrow> P ck r = P (jg_identity g) r"
  by (auto simp: cache_identity_for_def P_model split: option.splits)

lemma store_result_advances:
  assumes "store_result clock rt provider policy ck g model r (s', w) = (s'', w')"
    and "advances s s'" "\<And>k. ck = Some k \<Longrightarrow> P k r"
  shows "advances s s''"
proof (cases "ck = None \<or> policy = None \<or> s'' = s'")
  case True
  then show ?thesis using assms(1,2) by (auto simp: store_result_def split: option.splits)
next
  case False
  then obtain k p where kp: "ck = Some k" "policy = Some p" "s'' \<noteq> s'" by auto
  obtain now w1 where now: "clock w = (now, w1)" by fastforce
  have "s'' = rt_cache_insert rt k r now p s'"
    using assms(1) kp by (simp add: store_result_def now split: if_splits)
  then show ?thesis
    using keeps_advances [OF insert_keeps [OF assms(3) [OF kp(1)]] assms(2)] by simp
qed

lemma account_failure_advances: "advances s s' \<Longrightarrow> advances s (account_failure rt provider limits err log s')"
  by (simp add: account_failure_def Let_def op_advances)

lemma settle_one_sound:
  assumes run: "settle_one clock rt provider limits policy ck g permit outcome d (s', w) = (r, log, s'', w')"
    and s': "advances s s'"
    and checked: "\<And>response v. outcome = Inr response \<Longrightarrow>
      check_single_response (jg_request g) response = Inr v \<Longrightarrow> P (jg_identity g) v"
    and ck: "\<And>k v. ck = Some k \<Longrightarrow> P k v = P (jg_identity g) v"
  shows "advances s s'' \<and> (\<forall>v. r = Inr v \<longrightarrow> P (jg_identity g) v)"
proof (cases outcome)
  case (Inl e)
  then show ?thesis using run s' by (auto simp: settle_one_def op_advances)
next
  case (Inr response)
  define s3 where "s3 = rt_record_provider_response rt (el_query_scope limits) (br_metadata response) d
    (p_makes_external_request provider) s'"
  have s3: "advances s s3" unfolding s3_def by (rule op_advances [OF s'])
  show ?thesis
  proof (cases "check_single_response (jg_request g) response")
    case (Inl e)
    then show ?thesis
      using run Inr op_advances(9) [OF s3] by (auto simp: settle_one_def Let_def s3_def [symmetric])
  next
    case v: (Inr v)
    have Pv: "P (jg_identity g) v" using checked [OF Inr v] .
    obtain s4 w4 where store: "store_result clock rt provider policy ck g
        (pm_effective_model (br_metadata response)) v (s3, w) = (s4, w4)" by fastforce
    have "advances s s4" by (rule store_result_advances [OF store s3]) (simp add: ck Pv)
    then show ?thesis
      using run Inr v Pv op_advances(9)
      by (auto simp: settle_one_def Let_def s3_def [symmetric] store)
  qed
qed

lemma attempt_one_sound:
  assumes run: "attempt_one clock rt provider limits policy ck g (s, w) = Some (r, log, s', w')"
    and sound: "sound_provider Q provider" and judges: "group_judges Q P g"
    and ck: "\<And>k v. ck = Some k \<Longrightarrow> P k v = P (jg_identity g) v"
  shows "advances s s' \<and> (\<forall>v. r = Inr v \<longrightarrow> P (jg_identity g) v)"
proof -
  obtain acq s1 where acq: "rt_acquire_permit rt (el_query_scope limits) (el_max_inflight limits) s = Some (acq, s1)"
    using run by (auto simp: attempt_one_def split: option.splits)
  have s1: "advances s s1" by (rule acquire_advances [OF acq]) simp
  show ?thesis
  proof (cases acq)
    case (Inl e)
    then show ?thesis using run acq s1 by (auto simp: attempt_one_def)
  next
    case (Inr permit)
    obtain t1 w1 where t1: "clock w = (t1, w1)" by fastforce
    obtain out w2 where out: "p_judge_with_metadata provider (jg_request g) w1 = (out, w2)" by fastforce
    obtain t2 w3 where t2: "clock w2 = (t2, w3)" by fastforce
    have settle: "settle_one clock rt provider limits policy ck g permit out (t2 - t1)
        (rt_record_provider_attempt rt (el_query_scope limits) 1 (p_makes_external_request provider) s1, w3)
        = (r, log, s', w')"
      using run by (simp add: attempt_one_def acq Inr t1 out t2)
    have checked: "P (jg_identity g) v"
      if "out = Inr response" "check_single_response (jg_request g) response = Inr v" for response v
      using that out by (intro group_judgesD [OF judges] sound_single [OF sound]) auto
    show ?thesis
      by (rule settle_one_sound [OF settle op_advances(4) [OF s1] checked ck])
  qed
qed

lemma request_one_group_sound:
  assumes run: "request_one_group clock rt provider limits policy ck g e (s', w) = Some (r, s'', w')"
    and s: "rt_inv s'" "allocated_for s' e (jg_identity g)"
    and sound: "sound_provider Q provider" and judges: "group_judges Q P g"
    and ck: "\<And>k v. ck = Some k \<Longrightarrow> P k v = P (jg_identity g) v"
  shows "rt_inv s'' \<and> heap_grows s' s'' \<and> (\<forall>v. r = Inr v \<longrightarrow> P (jg_identity g) v)
    \<and> qh_slots s'' e \<noteq> None"
proof (cases "el_max_request_bytes limits < p_estimate_request_bytes provider [jg_request g]")
  case True
  then show ?thesis
    using run complete_sound [OF s] by (auto simp: request_one_group_def Let_def complete_slots)
next
  case False
  then obtain log s1 w1 where att: "attempt_one clock rt provider limits policy ck g (s', w) = Some (r, log, s1, w1)"
    and s'': "s'' = complete r e (account_failure rt provider limits (is_err r) log s1)"
    using run by (auto simp: request_one_group_def Let_def split: option.splits)
  have a: "advances s' s1" "\<And>v. r = Inr v \<Longrightarrow> P (jg_identity g) v"
    using attempt_one_sound [OF att sound judges ck] by simp_all
  let ?s2 = "account_failure rt provider limits (is_err r) log s1"
  have s2: "rt_inv ?s2" "heap_grows s' ?s2"
    using account_failure_advances [OF a(1)] s(1) by (auto simp: advances_def)
  show ?thesis
    using complete_sound [OF s2(1) allocated_grows [OF s2(2) s(2)] a(2)] s2 a(2)
    by (auto simp: s'' complete_slots intro: heap_grows_trans)
qed

end

section \<open>Whole groups\<close>

text \<open>The output of the executors: each group's value, once per target.\<close>

definition expand :: "judgment_group list \<Rightarrow> judgment_result list \<Rightarrow> row_results" where
  "expand groups vs = concat (map2 (\<lambda>g v. map (\<lambda>target. (target, v)) (jg_targets g)) groups vs)"

lemma expand_simps [simp]:
  "expand [] vs = []"
  "expand (g # groups) (v # vs) = map (\<lambda>target. (target, v)) (jg_targets g) @ expand groups vs"
  by (simp_all add: expand_def)

lemma expand_targets:
  "length vs = length groups \<Longrightarrow> map fst (expand groups vs) = concat (map jg_targets groups)"
  by (induction groups vs rule: list_induct2') (auto simp: comp_def)

context judgment_runtime
begin

lemma execute_one_group_sound:
  assumes run: "execute_one_group clock rt provider limits policy g (s, w) = Some (r, s', w')"
    and s: "rt_inv s" and sound: "sound_provider Q provider" and judges: "group_judges Q P g"
  shows "rt_inv s' \<and> heap_grows s s' \<and> (\<forall>v. r = Inr v \<longrightarrow> P (jg_identity g) v)"
proof -
  define ck where "ck = (case policy of None \<Rightarrow> None | Some _ \<Rightarrow> cache_identity_for g provider)"
  have ck: "P k v = P (jg_identity g) v" if "ck = Some k" for k v
    using that cache_identity_P by (auto simp: ck_def split: option.splits)
  obtain c s1 w1 where c: "claim_phase clock rt (el_query_scope limits) policy ck (jg_identity g) (s, w) = (c, s1, w1)"
    using prod_cases3 by blast
  have s1: "rt_inv s1" "heap_grows s s1" using claim_phase_sound [OF c s ck] by simp_all
  note run' = run [unfolded execute_one_group_claims Let_def, folded ck_def, unfolded c prod.case]
  show ?thesis
  proof (cases c)
    case (Claim_Follows e f)
    then have "allocated_for s1 e (jg_identity g)" using claim_phase_sound [OF c s ck] by simp
    then show ?thesis
      using run' Claim_Follows wait_sound [OF s1(1)] s1(2) by (fastforce split: option.splits intro: heap_grows_trans)
  next
    case (Claim_Leads e)
    then have "allocated_for s1 e (jg_identity g)" using claim_phase_sound [OF c s ck] by simp
    then show ?thesis
      using run' Claim_Leads request_one_group_sound [OF _ s1(1) _ sound judges ck] s1(2)
      by (auto intro: heap_grows_trans)
  qed (use run' s1 claim_phase_sound [OF c s ck] in auto)
qed

lemma execute_each_sound:
  assumes "sound_provider Q provider"
  shows "execute_each clock rt provider limits policy output groups (s, w) = Some (r, s', w') \<Longrightarrow>
    rt_inv s \<Longrightarrow> (\<And>g. g \<in> set groups \<Longrightarrow> group_judges Q P g) \<Longrightarrow>
    rt_inv s' \<and> heap_grows s s' \<and> (\<forall>out. r = Inr out \<longrightarrow>
      (\<exists>vs. list_all2 (\<lambda>g. P (jg_identity g)) groups vs \<and> out = output @ expand groups vs))"
proof (induction groups arbitrary: "output" s w)
  case (Cons g groups)
  obtain r1 s1 w1 where one: "execute_one_group clock rt provider limits policy g (s, w) = Some (r1, s1, w1)"
    using Cons.prems(1) by (auto simp: split: option.splits)
  have s1: "rt_inv s1" "heap_grows s s1" "\<And>v. r1 = Inr v \<Longrightarrow> P (jg_identity g) v"
    using execute_one_group_sound [OF one Cons.prems(2) assms] Cons.prems(3) by simp_all
  show ?case
  proof (cases r1)
    case (Inl e)
    then show ?thesis using Cons.prems(1) one s1 by auto
  next
    case (Inr v)
    have rest: "execute_each clock rt provider limits policy
        (output @ map (\<lambda>target. (target, v)) (jg_targets g)) groups (s1, w1) = Some (r, s', w')"
      using Cons.prems(1) one Inr by simp
    have "rt_inv s' \<and> heap_grows s1 s' \<and> (\<forall>out. r = Inr out \<longrightarrow>
      (\<exists>vs. list_all2 (\<lambda>g. P (jg_identity g)) groups vs
         \<and> out = (output @ map (\<lambda>target. (target, v)) (jg_targets g)) @ expand groups vs))"
      by (rule Cons.IH [OF rest s1(1)]) (simp add: Cons.prems(3))
    moreover have "list_all2 (\<lambda>g. P (jg_identity g)) (g # groups) (v # vs)"
      if "list_all2 (\<lambda>g. P (jg_identity g)) groups vs" for vs
      using that s1(3) [OF Inr] by simp
    ultimately show ?thesis
      using heap_grows_trans [OF s1(2)] by (metis append_assoc expand_simps(2))
  qed
qed (auto simp: expand_def)

lemma execute_groups_sound:
  assumes "execute_groups groups clock provider rt limits policy (s, w) = Some (r, s', w')"
    and "rt_inv s" "sound_provider Q provider" "\<And>g. g \<in> set groups \<Longrightarrow> group_judges Q P g"
  shows "rt_inv s' \<and> heap_grows s s' \<and> (\<forall>out. r = Inr out \<longrightarrow>
    (\<exists>vs. list_all2 (\<lambda>g. P (jg_identity g)) groups vs \<and> out = expand groups vs))"
proof (cases "el_max_request_bytes limits = 0")
  case True
  then show ?thesis using assms by (auto simp: execute_groups_def)
next
  case False
  then have "execute_each clock rt provider limits policy [] groups (s, w) = Some (r, s', w')"
    using assms(1) by (simp add: execute_groups_def)
  from execute_each_sound [OF assms(3) this assms(2,4)] show ?thesis by simp
qed

end

end
