(* ===== verification/Mock.thy ===== *)
theory Mock
  imports Executor_Soundness
begin

text \<open>
  The offline provider, \<open>src/provider/mock.rs\<close>: a 64-bit FNV-1a hash of the state and the question,
  turned into a probability in millionths or into one of the candidate labels. Choosing a label
  indexes by the hash modulo the number of candidates; the code panics when there is none, which the
  request constructors exclude.
\<close>

unbundle bit_operations_syntax

definition MOCK_EFFECTIVE_MODEL :: string where
  "MOCK_EFFECTIVE_MODEL = ''duckjeu-deterministic-mock-v1''"

definition fnv1a :: "string \<Rightarrow> u64 \<Rightarrow> u64" where
  "fnv1a bytes seed = foldl (\<lambda>hash b. (hash XOR word_of_nat (of_char b)) * 0x100000001b3) seed bytes"

definition derive_hash :: "judgment_request \<Rightarrow> u64" where
  "derive_hash request =
     (let hash = fnv1a (cs_canonical (rq_state request)) 0xcbf29ce484222325
      in case rq_kind request of
           Kind_Noul \<Rightarrow>
             let hash = fnv1a ''noul'' hash
             in (case rq_criterion request of None \<Rightarrow> hash | Some criterion \<Rightarrow> fnv1a criterion hash)
         | Kind_Choice \<Rightarrow>
             let hash = fnv1a ''choice'' hash;
                 hash = (case rq_question request of None \<Rightarrow> hash | Some question \<Rightarrow> fnv1a question hash)
             in foldl (\<lambda>hash label. fnv1a label (fnv1a [CHR 0x1F] hash)) hash (rq_choices request))"

definition mock_capabilities :: provider_capabilities where
  "mock_capabilities =
     \<lparr>pc_protocol_version = ''duckjeu-mock/1'', pc_noul = Verified, pc_choice = Verified,
      pc_multi_state_batch = Verified, pc_max_batch_judgments = None, pc_max_choices = None\<rparr>"

definition mock_judge_result :: "judgment_request \<Rightarrow> judgment_result result" where
  "mock_judge_result request =
     (let hash = derive_hash request
      in case rq_kind request of
           Kind_Noul \<Rightarrow>
             let value = f64_div_nat (unat (hash mod 1000001)) 1000000
             in result_bind (validate_probability value) (\<lambda>p. Inr (Noul p))
         | Kind_Choice \<Rightarrow>
             let index = unat (hash mod word_of_nat (length (rq_choices request)));
                 label = rq_choices request ! index
             in result_bind (validate_label label (rq_choices request)) (\<lambda>l. Inr (Choice l)))"

definition mock_metadata :: provider_metadata where
  "mock_metadata = default_metadata\<lparr>pm_effective_model := Some MOCK_EFFECTIVE_MODEL\<rparr>"

definition mock_judge_with_metadata :: "judgment_request \<Rightarrow> provider_batch_result result" where
  "mock_judge_with_metadata request =
     result_bind (mock_judge_result request) (\<lambda>r.
       Inr \<lparr>br_answers = [\<lparr>pa_request_key = rq_request_key request, pa_result = r\<rparr>],
            br_metadata = mock_metadata\<rparr>)"

text \<open>The loop of \<open>judge_many\<close>, which stops at the first error.\<close>

fun mock_answers :: "judgment_request list \<Rightarrow> provider_answer list result" where
  "mock_answers [] = Inr []"
| "mock_answers (request # requests) =
     result_bind (mock_judge_result request) (\<lambda>r.
       result_bind (mock_answers requests) (\<lambda>answers.
         Inr (\<lparr>pa_request_key = rq_request_key request, pa_result = r\<rparr> # answers)))"

definition mock_judge_many :: "judgment_request list \<Rightarrow> provider_batch_result result" where
  "mock_judge_many requests =
     result_bind (mock_answers requests) (\<lambda>answers.
       let response = \<lparr>br_answers = answers, br_metadata = mock_metadata\<rparr>
       in result_bind (validate_batch_result requests response) (\<lambda>_. Inr response))"

definition mock_provider :: "'w provider" where
  "mock_provider =
     \<lparr>p_capabilities = mock_capabilities,
      p_makes_external_request = False,
      p_judge = (\<lambda>request w. (mock_judge_result request, w)),
      p_judge_with_metadata = (\<lambda>request w. (mock_judge_with_metadata request, w)),
      p_cache_model_identity = (\<lambda>_. Some MOCK_EFFECTIVE_MODEL),
      p_estimate_request_bytes = default_estimate_request_bytes,
      p_judge_many = (\<lambda>requests w. (mock_judge_many requests, w))\<rparr>"

section \<open>The mock always has one valid answer\<close>

lemma f64_of_millionths: "n \<le> 1000000 \<Longrightarrow> unit_probability (f64_div_nat n 1000000)"
  unfolding unit_probability_def by (intro conjI f64_div_nat_unit) simp_all

lemma mock_judge_valid:
  assumes "rq_kind request = Kind_Choice \<Longrightarrow> rq_choices request \<noteq> []"
    and "length (rq_choices request) < 2 ^ 64"
  shows "\<exists>r. mock_judge_result request = Inr r \<and> valid_answer (rq_kind request) (rq_choices request) r"
proof (cases "rq_kind request")
  case Kind_Noul
  have "unat (derive_hash request mod 1000001) \<le> 1000000"
    by (simp add: unat_mod)
  then have "unit_probability (f64_div_nat (unat (derive_hash request mod 1000001)) 1000000)" (is "unit_probability ?p")
    by (rule f64_of_millionths)
  then have valid: "validate_probability ?p = Inr ?p" by simp
  show ?thesis
    using \<open>unit_probability ?p\<close>
    by (simp add: mock_judge_result_def Kind_Noul valid_answer_def result_bind_def valid
        del: validate_probability_iff)
next
  case Kind_Choice
  let ?n = "length (rq_choices request)"
  have n: "unat (word_of_nat ?n :: u64) = ?n"
    using assms(2) by (simp add: unat_of_nat take_bit_nat_eq_self)
  have "unat (derive_hash request mod word_of_nat ?n) < ?n"
    using assms(1) [OF Kind_Choice] by (simp add: unat_mod n)
  then have "rq_choices request ! unat (derive_hash request mod word_of_nat ?n) \<in> set (rq_choices request)"
    by simp
  then show ?thesis
    by (simp add: mock_judge_result_def Kind_Choice valid_answer_def result_bind_def Let_def validate_label_def list_ex_iff)
qed

section \<open>The answer is a function of the identity\<close>

text \<open>
  The request an identity stands for, up to the request key and the typed value (which the mock never reads), and the mock's
  answer to an identity.
\<close>

definition request_of_identity :: "judgment_identity \<Rightarrow> judgment_request" where
  "request_of_identity k =
     \<lparr>rq_kind = id_question_kind k,
      rq_state = \<lparr>cs_version = id_canonical_version k, cs_kind = id_state_kind k, cs_canonical = id_canonical_bytes k,
         cs_value = TV_Text (id_canonical_bytes k)\<rparr>,
      rq_criterion = id_criterion k, rq_question = id_question k, rq_choices = id_choices k,
      rq_request_key = DEFAULT_REQUEST_KEY\<rparr>"

definition mock_answers_identity :: "judgment_identity \<Rightarrow> judgment_result \<Rightarrow> bool" where
  "mock_answers_identity k r \<longleftrightarrow> mock_judge_result (request_of_identity k) = Inr r"

definition mock_answers_request :: "judgment_request \<Rightarrow> judgment_result \<Rightarrow> bool" where
  "mock_answers_request rq r \<longleftrightarrow> mock_judge_result rq = Inr r"

lemma mock_judge_key [simp]: "mock_judge_result (rq\<lparr>rq_request_key := key\<rparr>) = mock_judge_result rq"
  by (simp add: mock_judge_result_def derive_hash_def Let_def split: question_kind.split)

lemma mock_judge_identity: "mock_judge_result (request_of_identity (new_identity rq c)) = mock_judge_result rq"
  by (simp add: mock_judge_result_def derive_hash_def request_of_identity_def new_identity_def Let_def split: question_kind.split)

lemma mock_answers_model [simp]:
  "mock_answers_identity (k\<lparr>id_effective_model := m, id_unresolved_model_scope := u\<rparr>) r = mock_answers_identity k r"
  by (simp add: mock_answers_identity_def mock_judge_result_def derive_hash_def request_of_identity_def Let_def
      split: question_kind.split)

lemma mock_answers_Inr:
  "mock_answers rqs = Inr as \<Longrightarrow>
   map pa_request_key as = map rq_request_key rqs
   \<and> (\<forall>a \<in> set as. \<exists>rq \<in> set rqs. rq_request_key rq = pa_request_key a \<and> mock_judge_result rq = Inr (pa_result a))"
  by (induction rqs arbitrary: as) (simp, fastforce simp: result_bind_Inr)

lemma mock_sound: "sound_provider mock_answers_request mock_provider"
  unfolding sound_provider_def
proof (intro conjI allI impI ballI)
  fix rq w response w' a
  assume "p_judge_with_metadata mock_provider rq w = (Inr response, w')" "a \<in> set (br_answers response)"
  then show "mock_answers_request rq (pa_result a)"
    by (auto simp: mock_provider_def mock_judge_with_metadata_def result_bind_Inr mock_answers_request_def)
next
  fix rqs w response w' rq r
  assume call: "p_judge_many mock_provider rqs w = (Inr response, w')" and covers: "covers_batch rqs response"
    and rq: "rq \<in> set rqs" and r: "answer_map response (rq_request_key rq) = Some r"
  have answers: "mock_answers rqs = Inr (br_answers response)"
    using call by (auto simp: mock_provider_def mock_judge_many_def result_bind_Inr Let_def)
  obtain a where a: "a \<in> set (br_answers response)" "pa_request_key a = rq_request_key rq" "pa_result a = r"
    using r by (auto simp: answer_map_def dest!: map_of_SomeD)
  then obtain rq' where rq': "rq' \<in> set rqs" "rq_request_key rq' = pa_request_key a"
    "mock_judge_result rq' = Inr (pa_result a)"
    using mock_answers_Inr [OF answers] by blast
  have "rq' = rq"
    using covers rq rq'(1,2) a(2) unfolding covers_batch_def by (simp add: distinct_map inj_on_def)
  then show "mock_answers_request rq r" using rq'(3) a(3) by (simp add: mock_answers_request_def)
qed

lemma mock_group_judges:
  "jg_identity g = new_identity (jg_request g) c \<Longrightarrow> group_judges mock_answers_request mock_answers_identity g"
  by (simp add: group_judges_def mock_answers_request_def mock_answers_identity_def mock_judge_identity)

end
