(* ===== verification/Utf8.thy ===== *)
theory Utf8
  imports Prelude
begin

text \<open>
  \<open>String::from_utf8_lossy\<close>, through which every string that DuckDB hands over as bytes passes: each
  maximal ill-formed prefix of a sequence becomes one replacement character U+FFFD.
\<close>

definition byte_in :: "nat \<Rightarrow> nat \<Rightarrow> char \<Rightarrow> bool" where
  "byte_in lo hi c \<longleftrightarrow> lo \<le> byte_of c \<and> byte_of c \<le> hi"

definition continuation :: "char \<Rightarrow> bool" where
  "continuation = byte_in 0x80 0xBF"

definition second_of_three :: "char \<Rightarrow> char \<Rightarrow> bool" where
  "second_of_three a b \<longleftrightarrow>
     (if byte_of a = 0xE0 then byte_in 0xA0 0xBF b
      else if byte_of a = 0xED then byte_in 0x80 0x9F b
      else continuation b)"

definition second_of_four :: "char \<Rightarrow> char \<Rightarrow> bool" where
  "second_of_four a b \<longleftrightarrow>
     (if byte_of a = 0xF0 then byte_in 0x90 0xBF b
      else if byte_of a = 0xF4 then byte_in 0x80 0x8F b
      else continuation b)"

definition REPLACEMENT :: string where
  "REPLACEMENT = [CHR 0xEF, CHR 0xBF, CHR 0xBD]"

fun utf8_lossy :: "string \<Rightarrow> string" where
  "utf8_lossy [] = []"
| "utf8_lossy (a # s) =
     (if byte_of a < 128 then a # utf8_lossy s
      else if byte_in 0xC2 0xDF a then
        (case s of
           [] \<Rightarrow> REPLACEMENT
         | b # s' \<Rightarrow> if continuation b then a # b # utf8_lossy s' else REPLACEMENT @ utf8_lossy s)
      else if byte_in 0xE0 0xEF a then
        (case s of
           [] \<Rightarrow> REPLACEMENT
         | b # s' \<Rightarrow>
             if \<not> second_of_three a b then REPLACEMENT @ utf8_lossy s
             else (case s' of
                 [] \<Rightarrow> REPLACEMENT
               | c # s'' \<Rightarrow> if continuation c then a # b # c # utf8_lossy s'' else REPLACEMENT @ utf8_lossy s'))
      else if byte_in 0xF0 0xF4 a then
        (case s of
           [] \<Rightarrow> REPLACEMENT
         | b # s' \<Rightarrow>
             if \<not> second_of_four a b then REPLACEMENT @ utf8_lossy s
             else (case s' of
                 [] \<Rightarrow> REPLACEMENT
               | c # s'' \<Rightarrow>
                   if \<not> continuation c then REPLACEMENT @ utf8_lossy s'
                   else (case s'' of
                       [] \<Rightarrow> REPLACEMENT
                     | d # s3 \<Rightarrow>
                         if continuation d then a # b # c # d # utf8_lossy s3 else REPLACEMENT @ utf8_lossy s'')))
      else REPLACEMENT @ utf8_lossy s)"

lemma utf8_lossy_ascii: "\<forall>c \<in> set s. byte_of c < 128 \<Longrightarrow> utf8_lossy s = s"
  by (induction s) auto

declare utf8_lossy.simps [simp del]

end
