(* ===== verification/Config.thy ===== *)
theory Config
  imports Typesafe Mock Utf8
begin

text \<open>
  Per-execution settings, \<open>src/config.rs\<close>, and the choice of a provider, \<open>src/provider/mod.rs\<close> and
  \<open>src/provider/localjev.rs\<close>. DuckDB's lookup of a session option and the process environment are
  arguments; \<open>None\<close> for a client context is the null pointer.
\<close>

section \<open>Option names and defaults\<close>

definition OPTION_PROVIDER :: string where "OPTION_PROVIDER = ''duckjeu_provider''"
definition OPTION_API_URL :: string where "OPTION_API_URL = ''duckjeu_api_url''"
definition OPTION_LOCAL_JEV_API_URL :: string where "OPTION_LOCAL_JEV_API_URL = ''duckjeu_local_jev_api_url''"
definition OPTION_MODEL :: string where "OPTION_MODEL = ''duckjeu_model''"
definition OPTION_TIMEOUT_MS :: string where "OPTION_TIMEOUT_MS = ''duckjeu_timeout_ms''"
definition OPTION_MAX_RESPONSE_BYTES :: string where "OPTION_MAX_RESPONSE_BYTES = ''duckjeu_max_response_bytes''"
definition OPTION_EXECUTION_MODE :: string where "OPTION_EXECUTION_MODE = ''duckjeu_execution_mode''"
definition OPTION_BATCH_ENABLED :: string where "OPTION_BATCH_ENABLED = ''duckjeu_batch_enabled''"
definition OPTION_BATCH_MAX_JUDGMENTS :: string where "OPTION_BATCH_MAX_JUDGMENTS = ''duckjeu_batch_max_judgments''"
definition OPTION_MAX_REQUEST_BYTES :: string where "OPTION_MAX_REQUEST_BYTES = ''duckjeu_max_request_bytes''"
definition OPTION_MAX_INFLIGHT :: string where "OPTION_MAX_INFLIGHT = ''duckjeu_max_inflight''"
definition OPTION_CACHE_ENABLED :: string where "OPTION_CACHE_ENABLED = ''duckjeu_cache_enabled''"
definition OPTION_CACHE_MAX_ENTRIES :: string where "OPTION_CACHE_MAX_ENTRIES = ''duckjeu_cache_max_entries''"
definition OPTION_CACHE_MAX_BYTES :: string where "OPTION_CACHE_MAX_BYTES = ''duckjeu_cache_max_bytes''"
definition OPTION_CACHE_TTL_MS :: string where "OPTION_CACHE_TTL_MS = ''duckjeu_cache_ttl_ms''"
definition OPTION_PROFILE_ENABLED :: string where "OPTION_PROFILE_ENABLED = ''duckjeu_profile_enabled''"

definition CREDENTIAL_ENV :: string where "CREDENTIAL_ENV = ''TYPESAFE_API_KEY''"
definition CREDENTIAL_ENV_OVERRIDE :: string where "CREDENTIAL_ENV_OVERRIDE = ''DUCKJEU_API_KEY''"

definition DEFAULT_API_URL :: string where
  "DEFAULT_API_URL = ''https://api.typesafe.ai/v1/systemone''"
definition DEFAULT_MODEL :: string where
  "DEFAULT_MODEL = ''jev-latest''"
definition DEFAULT_LOCAL_JEV_API_URL :: string where
  "DEFAULT_LOCAL_JEV_API_URL = ''http://127.0.0.1:8765/v1/systemone''"
definition DEFAULT_LOCAL_JEV_MODEL :: string where
  "DEFAULT_LOCAL_JEV_MODEL = ''nli-deberta-large''"
definition DEFAULT_TIMEOUT_MS :: u64 where
  "DEFAULT_TIMEOUT_MS = 30000"
definition DEFAULT_MAX_RESPONSE_BYTES :: u64 where
  "DEFAULT_MAX_RESPONSE_BYTES = 1048576"

section \<open>Reading an option\<close>

record config_value =
  cv_varchar :: "string option"
  cv_int64 :: "64 word"
  cv_bool :: bool

type_synonym client_context = "string \<Rightarrow> config_value option"

definition read_option_string :: "client_context \<Rightarrow> string \<Rightarrow> string option" where
  "read_option_string cx name =
     (case cx name of None \<Rightarrow> None | Some v \<Rightarrow> map_option utf8_lossy (cv_varchar v))"

definition read_option_int64 :: "client_context \<Rightarrow> string \<Rightarrow> 64 word option" where
  "read_option_int64 cx name = map_option cv_int64 (cx name)"

definition read_option_bool :: "client_context \<Rightarrow> string \<Rightarrow> bool option" where
  "read_option_bool cx name = map_option cv_bool (cx name)"

definition unwrap_or :: "'a option \<Rightarrow> 'a \<Rightarrow> 'a" where
  "unwrap_or x d = (case x of None \<Rightarrow> d | Some v \<Rightarrow> v)"

section \<open>Execution settings\<close>

datatype execution_mode = Row | Optimized

definition parse_mode :: "string \<Rightarrow> string + execution_mode" where
  "parse_mode raw =
     (if raw = ''row'' then Inr Row
      else if raw = ''optimized'' then Inr Optimized
      else Inl (''duckjeu_execution_mode must be 'row' or 'optimized'' @ [CHR 0x27]))"

record runtime_config =
  rc_mode :: execution_mode
  rc_batch_enabled :: bool
  rc_batch_max_judgments :: usize
  rc_max_request_bytes :: usize
  rc_max_inflight :: usize
  rc_cache_enabled :: bool
  rc_cache_max_entries :: usize
  rc_cache_max_bytes :: usize
  rc_cache_ttl_ms :: usize
  rc_profile_enabled :: bool

text \<open>A positive \<open>i64\<close> keeps its bits as a \<open>usize\<close>.\<close>

definition positive_limit :: "string \<Rightarrow> 64 word \<Rightarrow> string + usize" where
  "positive_limit name value =
     (if 0 < sint value then Inr value else Inl (name @ '' must be a positive integer''))"

definition from_values ::
  "string \<Rightarrow> bool \<Rightarrow> 64 word \<Rightarrow> 64 word \<Rightarrow> 64 word \<Rightarrow> bool \<Rightarrow> 64 word \<Rightarrow> 64 word \<Rightarrow> 64 word
   \<Rightarrow> string + runtime_config" where
  "from_values mode batch_enabled batch_max_judgments max_request_bytes max_inflight
     cache_enabled cache_max_entries cache_max_bytes cache_ttl_ms =
     result_bind (parse_mode mode) (\<lambda>mode.
       if mode = Row \<and> batch_enabled
       then Inl (''duckjeu_batch_enabled requires duckjeu_execution_mode='optimized'' @ [CHR 0x27])
       else if mode = Row \<and> cache_enabled
       then Inl (''duckjeu_cache_enabled requires duckjeu_execution_mode='optimized'' @ [CHR 0x27])
       else
         result_bind (positive_limit OPTION_BATCH_MAX_JUDGMENTS batch_max_judgments) (\<lambda>judgments.
         result_bind (positive_limit OPTION_MAX_REQUEST_BYTES max_request_bytes) (\<lambda>request_bytes.
         result_bind (positive_limit OPTION_MAX_INFLIGHT max_inflight) (\<lambda>inflight.
         result_bind (positive_limit OPTION_CACHE_MAX_ENTRIES cache_max_entries) (\<lambda>entries.
         result_bind (positive_limit OPTION_CACHE_MAX_BYTES cache_max_bytes) (\<lambda>bytes.
         result_bind (positive_limit OPTION_CACHE_TTL_MS cache_ttl_ms) (\<lambda>ttl.
           Inr \<lparr>rc_mode = mode, rc_batch_enabled = batch_enabled, rc_batch_max_judgments = judgments,
                rc_max_request_bytes = request_bytes, rc_max_inflight = inflight,
                rc_cache_enabled = cache_enabled, rc_cache_max_entries = entries,
                rc_cache_max_bytes = bytes, rc_cache_ttl_ms = ttl, rc_profile_enabled = False\<rparr>)))))))"

definition read_runtime_config :: "client_context option \<Rightarrow> string + runtime_config" where
  "read_runtime_config context =
     (case context of
        None \<Rightarrow> Inl ''internal error: client context is unavailable''
      | Some cx \<Rightarrow>
          result_bind (from_values
            (unwrap_or (read_option_string cx OPTION_EXECUTION_MODE) ''row'')
            (unwrap_or (read_option_bool cx OPTION_BATCH_ENABLED) False)
            (unwrap_or (read_option_int64 cx OPTION_BATCH_MAX_JUDGMENTS) 16)
            (unwrap_or (read_option_int64 cx OPTION_MAX_REQUEST_BYTES) 262144)
            (unwrap_or (read_option_int64 cx OPTION_MAX_INFLIGHT) 4)
            (unwrap_or (read_option_bool cx OPTION_CACHE_ENABLED) False)
            (unwrap_or (read_option_int64 cx OPTION_CACHE_MAX_ENTRIES) 10000)
            (unwrap_or (read_option_int64 cx OPTION_CACHE_MAX_BYTES) 67108864)
            (unwrap_or (read_option_int64 cx OPTION_CACHE_TTL_MS) 60000)) (\<lambda>config.
          Inr (config\<lparr>rc_profile_enabled := unwrap_or (read_option_bool cx OPTION_PROFILE_ENABLED) False\<rparr>)))"

section \<open>Credentials\<close>

text \<open>The process environment: \<open>std::env::var\<close>, None when unset or not Unicode.\<close>

type_synonym environment = "string \<Rightarrow> string option"

fun first_credential :: "environment \<Rightarrow> string list \<Rightarrow> string option" where
  "first_credential env [] = None"
| "first_credential env (key # keys) =
     (case env key of
        None \<Rightarrow> first_credential env keys
      | Some v \<Rightarrow> if \<not> is_blank v then Some v else first_credential env keys)"

definition credential_from_env :: "environment \<Rightarrow> string option" where
  "credential_from_env env = first_credential env [CREDENTIAL_ENV_OVERRIDE, CREDENTIAL_ENV]"

definition local_jev_credential_from_env :: "environment \<Rightarrow> string option" where
  "local_jev_credential_from_env env =
     (case env ''DUCKJEU_LOCAL_JEV_API_KEY'' of
        None \<Rightarrow> None | Some v \<Rightarrow> if \<not> is_blank v then Some v else None)"

section \<open>Providers and their context\<close>

datatype provider_kind = Provider_Mock | Provider_Typesafe | Provider_SelfHosted

definition parse_kind :: "string \<Rightarrow> provider_kind result" where
  "parse_kind raw =
     (let name = to_ascii_lowercase (trim raw)
      in if name = ''mock'' then Inr Provider_Mock
         else if name = ''typesafe'' then Inr Provider_Typesafe
         else if name = ''selfhosted'' then Inr Provider_SelfHosted
         else Inl (configuration (''unknown duckjeu_provider '' @ [CHR 0x27] @ name
                @ [CHR 0x27] @ '': expected 'mock', 'typesafe', or 'selfhosted'' @ [CHR 0x27])))"

definition kind_as_str :: "provider_kind \<Rightarrow> string" where
  "kind_as_str kind =
     (case kind of
        Provider_Mock \<Rightarrow> ''mock'' | Provider_Typesafe \<Rightarrow> ''typesafe'' | Provider_SelfHosted \<Rightarrow> ''selfhosted'')"

record provider_context =
  px_provider :: provider_kind
  px_api_url :: string
  px_model :: string
  px_timeout_ms :: u64
  px_max_response_bytes :: u64
  px_credential :: "string option"

definition default_context :: provider_context where
  "default_context =
     \<lparr>px_provider = Provider_Mock, px_api_url = DEFAULT_API_URL, px_model = DEFAULT_MODEL,
      px_timeout_ms = DEFAULT_TIMEOUT_MS, px_max_response_bytes = DEFAULT_MAX_RESPONSE_BYTES,
      px_credential = None\<rparr>"

definition effective_model :: "provider_kind \<Rightarrow> string option \<Rightarrow> string" where
  "effective_model kind configured_model =
     (case (case configured_model of None \<Rightarrow> None | Some m \<Rightarrow> if m = [] then None else Some m) of
        Some model \<Rightarrow> model
      | None \<Rightarrow> if kind = Provider_SelfHosted then DEFAULT_LOCAL_JEV_MODEL else DEFAULT_MODEL)"

definition effective_api_url :: "provider_kind \<Rightarrow> string option \<Rightarrow> string option \<Rightarrow> string" where
  "effective_api_url kind api_url local_jev_api_url =
     (case kind of
        Provider_SelfHosted \<Rightarrow>
          (case api_url of
             Some url \<Rightarrow> if url \<noteq> DEFAULT_API_URL then url
                         else unwrap_or local_jev_api_url DEFAULT_LOCAL_JEV_API_URL
           | None \<Rightarrow> unwrap_or local_jev_api_url DEFAULT_LOCAL_JEV_API_URL)
      | _ \<Rightarrow> unwrap_or api_url DEFAULT_API_URL)"

text \<open>The two checks \<open>Some(v) if v > 0\<close>, with the message of the option.\<close>

definition positive_or :: "string \<Rightarrow> u64 \<Rightarrow> 64 word option \<Rightarrow> string + u64" where
  "positive_or message default_value value =
     (case value of
        Some v \<Rightarrow> if 0 < sint v then Inr v else Inl message
      | None \<Rightarrow> Inr default_value)"

definition read_provider_context :: "environment \<Rightarrow> client_context option \<Rightarrow> string + provider_context" where
  "read_provider_context env context =
     (case context of
        None \<Rightarrow> Inl ''internal error: client context is unavailable''
      | Some cx \<Rightarrow>
          let provider_raw = unwrap_or (read_option_string cx OPTION_PROVIDER) (kind_as_str Provider_Mock)
          in case parse_kind provider_raw of
            Inl e \<Rightarrow> Inl (je_message e)
          | Inr kind \<Rightarrow>
              result_bind (positive_or ''duckjeu_timeout_ms must be positive'' DEFAULT_TIMEOUT_MS
                (read_option_int64 cx OPTION_TIMEOUT_MS)) (\<lambda>timeout_ms.
              result_bind (positive_or ''duckjeu_max_response_bytes must be positive''
                DEFAULT_MAX_RESPONSE_BYTES (read_option_int64 cx OPTION_MAX_RESPONSE_BYTES)) (\<lambda>max_response_bytes.
              Inr \<lparr>px_provider = kind,
                   px_api_url = effective_api_url kind (read_option_string cx OPTION_API_URL)
                     (read_option_string cx OPTION_LOCAL_JEV_API_URL),
                   px_model = effective_model kind (read_option_string cx OPTION_MODEL),
                   px_timeout_ms = timeout_ms,
                   px_max_response_bytes = max_response_bytes,
                   px_credential = (case kind of
                       Provider_SelfHosted \<Rightarrow> local_jev_credential_from_env env
                     | _ \<Rightarrow> credential_from_env env)\<rparr>)))"

text \<open>The local adapter delegates every method to the adapter it wraps.\<close>

definition local_jev_provider :: "'w services \<Rightarrow> typesafe_provider \<Rightarrow> 'w provider" where
  "local_jev_provider sv inner =
     \<lparr>p_capabilities = p_capabilities (typesafe_as_provider sv inner),
      p_makes_external_request = True,
      p_judge = p_judge (typesafe_as_provider sv inner),
      p_judge_with_metadata = p_judge_with_metadata (typesafe_as_provider sv inner),
      p_cache_model_identity = p_cache_model_identity (typesafe_as_provider sv inner),
      p_estimate_request_bytes = p_estimate_request_bytes (typesafe_as_provider sv inner),
      p_judge_many = p_judge_many (typesafe_as_provider sv inner)\<rparr>"

definition provider_for :: "'w services \<Rightarrow> provider_context \<Rightarrow> 'w provider result" where
  "provider_for sv ctx =
     (case px_provider ctx of
        Provider_Mock \<Rightarrow> Inr mock_provider
      | Provider_Typesafe \<Rightarrow>
          (case (case px_credential ctx of None \<Rightarrow> None | Some v \<Rightarrow> if \<not> is_blank v then Some v else None) of
             Some credential \<Rightarrow> Inr (typesafe_as_provider sv
               (new_typesafe (px_api_url ctx) (px_model ctx) (px_timeout_ms ctx) (px_max_response_bytes ctx) credential))
           | None \<Rightarrow> Inl (configuration
               ''duckjeu_provider='typesafe' requires the TYPESAFE_API_KEY environment variable''))
      | Provider_SelfHosted \<Rightarrow> Inr (local_jev_provider sv
          (new_localjev (px_api_url ctx) (px_model ctx) (px_timeout_ms ctx) (px_max_response_bytes ctx)
             (px_credential ctx))))"

section \<open>Registration\<close>

text \<open>The session options \<open>register_config_options\<close> registers, in order, with their default values.\<close>

definition varchar_option :: "string \<Rightarrow> config_value" where
  "varchar_option d = \<lparr>cv_varchar = Some d, cv_int64 = 0, cv_bool = False\<rparr>"

definition bigint_option :: "64 word \<Rightarrow> config_value" where
  "bigint_option d = \<lparr>cv_varchar = None, cv_int64 = d, cv_bool = False\<rparr>"

definition boolean_option :: "bool \<Rightarrow> config_value" where
  "boolean_option d = \<lparr>cv_varchar = None, cv_int64 = 0, cv_bool = d\<rparr>"

definition registered_options :: "(string \<times> config_value) list" where
  "registered_options =
     [(OPTION_PROVIDER, varchar_option (kind_as_str Provider_Mock)),
      (OPTION_API_URL, varchar_option DEFAULT_API_URL),
      (OPTION_LOCAL_JEV_API_URL, varchar_option DEFAULT_LOCAL_JEV_API_URL),
      (OPTION_MODEL, varchar_option ''''),
      (OPTION_TIMEOUT_MS, bigint_option DEFAULT_TIMEOUT_MS),
      (OPTION_MAX_RESPONSE_BYTES, bigint_option DEFAULT_MAX_RESPONSE_BYTES),
      (OPTION_EXECUTION_MODE, varchar_option ''row''),
      (OPTION_BATCH_ENABLED, boolean_option False),
      (OPTION_BATCH_MAX_JUDGMENTS, bigint_option 16),
      (OPTION_MAX_REQUEST_BYTES, bigint_option 262144),
      (OPTION_MAX_INFLIGHT, bigint_option 4),
      (OPTION_CACHE_ENABLED, boolean_option False),
      (OPTION_CACHE_MAX_ENTRIES, bigint_option 10000),
      (OPTION_CACHE_MAX_BYTES, bigint_option 67108864),
      (OPTION_CACHE_TTL_MS, bigint_option 60000),
      (OPTION_PROFILE_ENABLED, boolean_option False)]"

section \<open>What accepted settings guarantee\<close>

lemma positive_limit_iff: "positive_limit name v = Inr n \<longleftrightarrow> n = v \<and> 0 < sint v"
  by (auto simp: positive_limit_def)

lemma positive_sint_nonzero: "0 < sint v \<Longrightarrow> v \<noteq> 0"
  by auto

definition present :: "environment \<Rightarrow> string \<Rightarrow> string \<Rightarrow> bool" where
  "present env key v \<longleftrightarrow> env key = Some v \<and> \<not> is_blank v"

definition absent :: "environment \<Rightarrow> string \<Rightarrow> bool" where
  "absent env key \<longleftrightarrow> (case env key of None \<Rightarrow> True | Some v \<Rightarrow> is_blank v)"

lemma credential_from_env_iff:
  "credential_from_env env = Some v \<longleftrightarrow>
     present env CREDENTIAL_ENV_OVERRIDE v \<or> absent env CREDENTIAL_ENV_OVERRIDE \<and> present env CREDENTIAL_ENV v"
  by (auto simp: credential_from_env_def present_def absent_def split: option.splits)

lemma local_credential_iff:
  "local_jev_credential_from_env env = Some v \<longleftrightarrow> present env ''DUCKJEU_LOCAL_JEV_API_KEY'' v"
  by (auto simp: local_jev_credential_from_env_def present_def split: option.splits)

definition settings_ok :: "runtime_config \<Rightarrow> bool" where
  "settings_ok c \<longleftrightarrow>
     0 < sint (rc_batch_max_judgments c) \<and> 0 < sint (rc_max_request_bytes c) \<and> 0 < sint (rc_max_inflight c)
     \<and> 0 < sint (rc_cache_max_entries c) \<and> 0 < sint (rc_cache_max_bytes c) \<and> 0 < sint (rc_cache_ttl_ms c)
     \<and> (rc_mode c = Row \<longrightarrow> \<not> rc_batch_enabled c \<and> \<not> rc_cache_enabled c)"

lemma parse_mode_iff:
  "parse_mode raw = Inr m \<longleftrightarrow> raw = (case m of Row \<Rightarrow> ''row'' | Optimized \<Rightarrow> ''optimized'')"
  by (cases m) (auto simp: parse_mode_def)

lemma from_values_iff:
  "from_values mode b j r i ce me mb ttl = Inr c \<longleftrightarrow>
     mode = (case rc_mode c of Row \<Rightarrow> ''row'' | Optimized \<Rightarrow> ''optimized'') \<and> settings_ok c
     \<and> c = \<lparr>rc_mode = rc_mode c, rc_batch_enabled = b, rc_batch_max_judgments = j, rc_max_request_bytes = r,
            rc_max_inflight = i, rc_cache_enabled = ce, rc_cache_max_entries = me, rc_cache_max_bytes = mb,
            rc_cache_ttl_ms = ttl, rc_profile_enabled = False\<rparr>"
proof (cases c)
  case (fields m b' j' r' i' ce' me' mb' ttl' pe)
  then show ?thesis
    by (auto simp: from_values_def result_bind_Inr parse_mode_iff positive_limit_iff settings_ok_def
        simp del: result_bind_simps)
qed

end
