(* ===== verification/Vectors.thy ===== *)
theory Vectors
  imports Config
begin

text \<open>
  Reading the arguments of a SQL function, the first half of \<open>src/functions/mod.rs\<close>. A DuckDB vector is
  what its C API shows of it: a logical type, an optional validity mask, an optional data buffer of
  bytes (little-endian, as on the platforms the extension is built for), the string each string cell
  denotes, and child vectors. A null pointer is None.
\<close>

section \<open>DuckDB's data\<close>

datatype duckdb_type =
    T_BOOLEAN | T_TINYINT | T_SMALLINT | T_INTEGER | T_BIGINT
  | T_UTINYINT | T_USMALLINT | T_UINTEGER | T_UBIGINT
  | T_FLOAT | T_DOUBLE | T_VARCHAR | T_DECIMAL | T_HUGEINT | T_UHUGEINT | T_SQLNULL
  | T_STRUCT | T_LIST | T_Other nat

text \<open>The numbers of the C enumeration, which appear in error messages.\<close>

fun type_number :: "duckdb_type \<Rightarrow> nat" where
  "type_number T_BOOLEAN = 1" | "type_number T_TINYINT = 2" | "type_number T_SMALLINT = 3"
| "type_number T_INTEGER = 4" | "type_number T_BIGINT = 5" | "type_number T_UTINYINT = 6"
| "type_number T_USMALLINT = 7" | "type_number T_UINTEGER = 8" | "type_number T_UBIGINT = 9"
| "type_number T_FLOAT = 10" | "type_number T_DOUBLE = 11" | "type_number T_VARCHAR = 17"
| "type_number T_DECIMAL = 19" | "type_number T_HUGEINT = 16" | "type_number T_UHUGEINT = 32"
| "type_number T_SQLNULL = 36" | "type_number T_STRUCT = 25" | "type_number T_LIST = 24"
| "type_number (T_Other n) = n"

datatype logical_type = Logical_Type
  (lt_id: duckdb_type) (lt_decimal_width: u8) (lt_decimal_scale: u8) (lt_decimal_internal: duckdb_type)
  (lt_children: "(string option \<times> logical_type) list")

datatype vector = Vector
  (v_type: logical_type) (v_validity: "(nat \<Rightarrow> bool) option") (v_data: "(nat \<Rightarrow> u8) option")
  (v_strings: "nat \<Rightarrow> string option") (v_children: "vector list")

record data_chunk =
  dc_vectors :: "vector list"
  dc_size :: u64

definition is_null :: "vector \<Rightarrow> nat \<Rightarrow> bool" where
  "is_null v row \<longleftrightarrow> (case v_validity v of None \<Rightarrow> False | Some valid \<Rightarrow> \<not> valid row)"

text \<open>\<open>load n d row\<close> reads the row-th cell of n bytes as an unsigned number.\<close>

fun bytes_at :: "(nat \<Rightarrow> u8) \<Rightarrow> nat \<Rightarrow> nat \<Rightarrow> nat" where
  "bytes_at d a 0 = 0"
| "bytes_at d a (Suc n) = unat (d a) + 256 * bytes_at d (Suc a) n"

definition load :: "nat \<Rightarrow> (nat \<Rightarrow> u8) \<Rightarrow> nat \<Rightarrow> nat" where
  "load n d row = bytes_at d (row * n) n"

text \<open>The field at byte offset \<open>k\<close> of a 16-byte structure: the halves of a hugeint or a list entry.\<close>

definition load_field :: "nat \<Rightarrow> (nat \<Rightarrow> u8) \<Rightarrow> nat \<Rightarrow> u64" where
  "load_field k d row = word_of_nat (bytes_at d (row * 16 + k) 8)"

section \<open>Cells\<close>

definition read_varchar :: "vector \<Rightarrow> nat \<Rightarrow> string option" where
  "read_varchar v row =
     (case v_data v of
        None \<Rightarrow> None
      | Some _ \<Rightarrow> (case v_strings v row of None \<Rightarrow> Some [] | Some bytes \<Rightarrow> Some (utf8_lossy bytes)))"

definition unwrap_or_default :: "string option \<Rightarrow> string" where
  "unwrap_or_default s = (case s of None \<Rightarrow> [] | Some t \<Rightarrow> t)"

definition hugeint_to_i128 :: "u64 \<Rightarrow> u64 \<Rightarrow> 128 word" where
  "hugeint_to_i128 upper lower = or (push_bit 64 (scast upper)) (ucast lower)"

definition uhugeint_to_u128 :: "u64 \<Rightarrow> u64 \<Rightarrow> 128 word" where
  "uhugeint_to_u128 upper lower = or (push_bit 64 (ucast upper)) (ucast lower)"

text \<open>The exact widening of an \<open>f32\<close>, given by its bits.\<close>

definition f32_to_f64 :: "32 word \<Rightarrow> f64" where
  "f32_to_f64 v =
     (let e = (unat v div 2 ^ 23) mod 256;
          m = unat v mod 2 ^ 23;
          magnitude = (if e = 255 then word_of_nat (2047 * 2 ^ 52 + m * 2 ^ 29)
                       else if e = 0 then f64_ratio m (2 ^ 149)
                       else word_of_nat ((e + 896) * 2 ^ 52 + m * 2 ^ 29))
      in if unat v < 2 ^ 31 then magnitude else magnitude + 2 ^ 63)"

definition unsupported :: "string \<Rightarrow> judgment_error" where
  "unsupported what = invalid_input (''unsupported state field type: '' @ what
     @ ''; v0.1 supports BOOLEAN, integers, finite floats, VARCHAR and NULL'')"

definition read_decimal :: "logical_type \<Rightarrow> (nat \<Rightarrow> u8) \<Rightarrow> nat \<Rightarrow> (128 word) result" where
  "read_decimal t d row =
     (case lt_decimal_internal t of
        T_SMALLINT \<Rightarrow> Inr (scast (word_of_nat (load 2 d row) :: 16 word))
      | T_INTEGER \<Rightarrow> Inr (scast (word_of_nat (load 4 d row) :: 32 word))
      | T_BIGINT \<Rightarrow> Inr (scast (word_of_nat (load 8 d row) :: 64 word))
      | T_HUGEINT \<Rightarrow> Inr (hugeint_to_i128 (load_field 8 d row) (load_field 0 d row))
      | other \<Rightarrow> Inl (unsupported (''DECIMAL('' @ nat_to_string (unat (lt_decimal_width t))
                  @ '') with internal type id '' @ nat_to_string (type_number other))))"

definition read_value :: "vector \<Rightarrow> logical_type \<Rightarrow> nat \<Rightarrow> typed_value result" where
  "read_value v t row =
     (case v_data v of
        None \<Rightarrow> Inl (invalid_input ''internal error: state vector data is unavailable'')
      | Some d \<Rightarrow>
          (case lt_id t of
             T_BOOLEAN \<Rightarrow> Inr (TV_Bool (load 1 d row \<noteq> 0))
           | T_TINYINT \<Rightarrow> Inr (TV_Int (scast (word_of_nat (load 1 d row) :: 8 word)))
           | T_SMALLINT \<Rightarrow> Inr (TV_Int (scast (word_of_nat (load 2 d row) :: 16 word)))
           | T_INTEGER \<Rightarrow> Inr (TV_Int (scast (word_of_nat (load 4 d row) :: 32 word)))
           | T_BIGINT \<Rightarrow> Inr (TV_Int (word_of_nat (load 8 d row)))
           | T_UTINYINT \<Rightarrow> Inr (TV_UInt (ucast (word_of_nat (load 1 d row) :: 8 word)))
           | T_USMALLINT \<Rightarrow> Inr (TV_UInt (ucast (word_of_nat (load 2 d row) :: 16 word)))
           | T_UINTEGER \<Rightarrow> Inr (TV_UInt (ucast (word_of_nat (load 4 d row) :: 32 word)))
           | T_UBIGINT \<Rightarrow> Inr (TV_UInt (word_of_nat (load 8 d row)))
           | T_FLOAT \<Rightarrow> Inr (TV_Float (f32_to_f64 (word_of_nat (load 4 d row))))
           | T_DOUBLE \<Rightarrow> Inr (TV_Float (word_of_nat (load 8 d row)))
           | T_VARCHAR \<Rightarrow> Inr (TV_Text (unwrap_or_default (read_varchar v row)))
           | T_DECIMAL \<Rightarrow>
               result_bind (read_decimal t d row) (\<lambda>raw. Inr (TV_Decimal (format_decimal raw (lt_decimal_scale t))))
           | T_HUGEINT \<Rightarrow>
               Inr (TV_BigInt (int_to_string (sint (hugeint_to_i128 (load_field 8 d row) (load_field 0 d row)))))
           | T_UHUGEINT \<Rightarrow>
               Inr (TV_UBigInt (nat_to_string (unat (uhugeint_to_u128 (load_field 8 d row) (load_field 0 d row)))))
           | T_SQLNULL \<Rightarrow> Inr TV_Null
           | other \<Rightarrow> Inl (unsupported (''duckdb type id '' @ nat_to_string (type_number other)))))"

section \<open>States, lists and requests\<close>

definition supported_field_types :: "duckdb_type list" where
  "supported_field_types =
     [T_BOOLEAN, T_TINYINT, T_SMALLINT, T_INTEGER, T_BIGINT, T_UTINYINT, T_USMALLINT, T_UINTEGER,
      T_UBIGINT, T_FLOAT, T_DOUBLE, T_VARCHAR, T_DECIMAL, T_HUGEINT, T_UHUGEINT, T_SQLNULL]"

text \<open>One turn of the loop over the children of a struct, and the loop.\<close>

definition read_field :: "vector \<Rightarrow> logical_type \<Rightarrow> nat \<Rightarrow> typed_value result" where
  "read_field child child_type row =
     (if \<not> list_ex (\<lambda>t. t = lt_id child_type) supported_field_types
      then Inl (unsupported (''duckdb type id '' @ nat_to_string (type_number (lt_id child_type))))
      else if is_null child row then Inr TV_Null
      else read_value child child_type row)"

fun read_fields ::
  "(string \<times> typed_value) list \<Rightarrow> ((string option \<times> logical_type) \<times> vector) list \<Rightarrow> nat
   \<Rightarrow> (string \<times> typed_value) list result" where
  "read_fields found [] row = Inr found"
| "read_fields found (((name, child_type), child) # children) row =
     result_bind (read_field child child_type row) (\<lambda>v.
       read_fields (omap_insert (unwrap_or_default (map_option utf8_lossy name)) v found) children row)"

definition read_struct :: "vector \<Rightarrow> logical_type \<Rightarrow> nat \<Rightarrow> (string \<times> typed_value) list result" where
  "read_struct v t row = read_fields [] (zip (lt_children t) (v_children v)) row"

definition read_state :: "text_codec \<Rightarrow> vector \<Rightarrow> nat \<Rightarrow> canonical_state result" where
  "read_state codec v row =
     (case lt_id (v_type v) of
        T_VARCHAR \<Rightarrow> Inr (encode_text (unwrap_or_default (read_varchar v row)))
      | T_STRUCT \<Rightarrow>
          result_bind (read_struct v (v_type v) row) (\<lambda>found.
            case encode_struct codec found of
              Inl message \<Rightarrow> Inl (invalid_input message)
            | Inr state \<Rightarrow> Inr state)
      | _ \<Rightarrow> Inl (invalid_input ''unsupported state type: expected STRUCT or VARCHAR''))"

fun read_labels :: "vector \<Rightarrow> nat list \<Rightarrow> string list result" where
  "read_labels child [] = Inr []"
| "read_labels child (child_row # rows) =
     (if is_null child child_row
      then Inl (invalid_input ''choices must not contain NULL labels'')
      else result_bind (read_labels child rows) (\<lambda>labels.
        Inr (unwrap_or_default (read_varchar child child_row) # labels)))"

text \<open>The entry's offset and length are 64-bit; their sums do not overflow in a real vector.\<close>

definition read_string_list :: "vector \<Rightarrow> nat \<Rightarrow> string list result" where
  "read_string_list v row =
     (case v_data v of
        None \<Rightarrow> Inl (invalid_input ''choices must be a list'')
      | Some d \<Rightarrow>
          let offset = unat (load_field 0 d row);
              len = unat (load_field 8 d row)
          in read_labels (v_children v ! 0) [offset ..< offset + len])"

datatype function_kind = Fn_Prob | Fn_Bool | Fn_Choice

definition read_request ::
  "text_codec \<Rightarrow> function_kind \<Rightarrow> data_chunk \<Rightarrow> nat \<Rightarrow> judgment_request option result" where
  "read_request codec kind input row =
     (let state_vector = dc_vectors input ! 0;
          text_vector = dc_vectors input ! 1;
          choices_vector = dc_vectors input ! 2
      in if is_null state_vector row \<or> is_null text_vector row then Inr None
         else if kind = Fn_Choice \<and> is_null choices_vector row then Inr None
         else
           result_bind (read_state codec state_vector row) (\<lambda>state.
             let txt = unwrap_or_default (read_varchar text_vector row)
             in if kind = Fn_Choice
                then result_bind (read_string_list choices_vector row) (\<lambda>choices.
                       result_bind (choice_request state txt choices) (\<lambda>request. Inr (Some request)))
                else result_bind (noul_request state txt) (\<lambda>request. Inr (Some request))))"

end
