(* ===== verification/Batch_Executor.thy ===== *)
theory Batch_Executor
  imports Executor_Soundness
begin

text \<open>
  The batching half of \<open>crates/judgment-core/src/executor.rs\<close>: planning (claims, cache hits, followers
  and compatible partitions), chunking under the judgment and byte limits, and dispatch with exact
  request-key matching. A hash map keyed by group index is an association list.
\<close>

section \<open>Requests of a batch\<close>

definition requests_for_groups :: "judgment_group list \<Rightarrow> nat list \<Rightarrow> nat option \<Rightarrow> judgment_request list" where
  "requests_for_groups groups indices additional =
     (let all_indices = indices @ (case additional of None \<Rightarrow> [] | Some index \<Rightarrow> [index])
      in map (\<lambda>(batch_index, group_index).
           (jg_request (groups ! group_index))\<lparr>rq_request_key := ''r'' @ nat_to_string batch_index\<rparr>)
           (enumerate 0 all_indices))"

section \<open>Planning\<close>

record batch_plan =
  bp_output :: row_results
  bp_partitions :: "nat list list"
  bp_leaders :: "(nat \<times> entry_ref) list"
  bp_cache_keys :: "(nat \<times> judgment_identity) list"
  bp_followers :: "(nat \<times> entry_ref \<times> flag_ref) list"

definition empty_plan :: batch_plan where
  "empty_plan = \<lparr>bp_output = [], bp_partitions = [], bp_leaders = [], bp_cache_keys = [], bp_followers = []\<rparr>"

text \<open>The first partition whose first member shares the batch context, or a new one.\<close>

fun add_to_partition :: "judgment_group list \<Rightarrow> nat \<Rightarrow> nat list list \<Rightarrow> nat list list" where
  "add_to_partition groups index [] = [[index]]"
| "add_to_partition groups index (members # partitions) =
     (if same_batch_context (jg_identity (groups ! hd members)) (jg_identity (groups ! index))
      then (members @ [index]) # partitions
      else members # add_to_partition groups index partitions)"

definition add_leader ::
  "judgment_group list \<Rightarrow> nat \<Rightarrow> entry_ref \<Rightarrow> judgment_identity option \<Rightarrow> batch_plan \<Rightarrow> batch_plan" where
  "add_leader groups index entry cache_identity plan =
     plan\<lparr>bp_leaders := bp_leaders plan @ [(index, entry)],
          bp_cache_keys := bp_cache_keys plan
            @ (case cache_identity of None \<Rightarrow> [] | Some k \<Rightarrow> [(index, k)]),
          bp_partitions := add_to_partition groups index (bp_partitions plan)\<rparr>"

text \<open>One iteration of the planning loop. An error is the whole function's early return.\<close>

definition plan_group ::
  "('w \<Rightarrow> instant \<times> 'w) \<Rightarrow> ('a query_heap_scheme) runtime_ops \<Rightarrow> 'w provider \<Rightarrow> execution_limits
   \<Rightarrow> cache_policy option \<Rightarrow> judgment_group list \<Rightarrow> nat \<Rightarrow> batch_plan
   \<Rightarrow> 'a query_heap_scheme \<times> 'w \<Rightarrow> batch_plan result \<times> 'a query_heap_scheme \<times> 'w" where
  "plan_group clock rt provider limits cache_policy groups index plan = (\<lambda>(s, w).
     let grp = groups ! index;
         capabilities = p_capabilities provider;
         scope = el_query_scope limits;
         too_many = (case pc_max_choices capabilities of
           None \<Rightarrow> False | Some limit \<Rightarrow> unat limit < length (rq_choices (jg_request grp)))
     in if supports capabilities (rq_kind (jg_request grp)) \<noteq> Verified
        then (Inl (configuration ''provider capability for this question type is not verified''), s, w)
        else if too_many
        then (Inl (configuration ''choice count exceeds the verified provider limit''), s, w)
        else
          let cache_identity = (case cache_policy of None \<Rightarrow> None | Some _ \<Rightarrow> cache_identity_for grp provider)
          in case rt_claim_query_entry rt scope (jg_identity grp) s of
            (Inl e, s) \<Rightarrow> (Inl e, s, w)
          | (Inr (entry, owns_request), s) \<Rightarrow>
              (case rt_query_cancellation rt scope s of
                (Inl e, s) \<Rightarrow> (Inl e, s, w)
              | (Inr cancelled, s) \<Rightarrow>
                  if \<not> owns_request
                  then (Inr (plan\<lparr>bp_followers := bp_followers plan @ [(index, entry, cancelled)]\<rparr>), s, w)
                  else case cache_policy of
                    None \<Rightarrow> (Inr (add_leader groups index entry cache_identity plan), s, w)
                  | Some policy \<Rightarrow>
                      (case policy_validate policy of
                        Inl error \<Rightarrow> (Inl error, complete (Inl error) entry s, w)
                      | Inr _ \<Rightarrow>
                          let (now, w) = clock w
                          in case rt_cache_lookup rt cache_identity now policy s of
                            (Some r, s) \<Rightarrow>
                              (Inr (plan\<lparr>bp_output := bp_output plan
                                      @ map (\<lambda>target. (target, r)) (jg_targets grp)\<rparr>),
                               complete (Inr r) entry (rt_record_cache_hit rt scope s), w)
                          | (None, s) \<Rightarrow>
                              (Inr (add_leader groups index entry cache_identity plan), s, w))))"

fun plan_groups ::
  "('w \<Rightarrow> instant \<times> 'w) \<Rightarrow> ('a query_heap_scheme) runtime_ops \<Rightarrow> 'w provider \<Rightarrow> execution_limits
   \<Rightarrow> cache_policy option \<Rightarrow> judgment_group list \<Rightarrow> nat list \<Rightarrow> batch_plan
   \<Rightarrow> 'a query_heap_scheme \<times> 'w \<Rightarrow> batch_plan result \<times> 'a query_heap_scheme \<times> 'w" where
  "plan_groups clock rt provider limits cache_policy groups [] plan (s, w) = (Inr plan, s, w)"
| "plan_groups clock rt provider limits cache_policy groups (index # indices) plan (s, w) =
     (case plan_group clock rt provider limits cache_policy groups index plan (s, w) of
        (Inl e, s, w) \<Rightarrow> (Inl e, s, w)
      | (Inr plan, s, w) \<Rightarrow>
          plan_groups clock rt provider limits cache_policy groups indices plan (s, w))"

section \<open>Dispatching one batch\<close>

fun collect_answers ::
  "(string \<Rightarrow> judgment_result option) \<Rightarrow> (nat \<times> judgment_request) list \<Rightarrow> (nat \<times> judgment_result) list result" where
  "collect_answers answers [] = Inr []"
| "collect_answers answers ((index, request) # rest) =
     (case answers (rq_request_key request) of
        None \<Rightarrow> Inl (invalid_response ''provider batch answer key disappeared after validation'')
      | Some r \<Rightarrow>
          result_bind (validate_judgment_result request r) (\<lambda>_.
            result_bind (collect_answers answers rest) (\<lambda>results. Inr ((index, r) # results))))"

definition check_batch_response ::
  "judgment_request list \<Rightarrow> nat list \<Rightarrow> provider_batch_result \<Rightarrow> (nat \<times> judgment_result) list result" where
  "check_batch_response requests indices response =
     result_bind (validate_batch_result requests response) (\<lambda>_.
       collect_answers (answer_map response) (zip indices requests))"

text \<open>
  The closure of \<open>dispatch\<close>: the results by group index and the model the provider reported.
\<close>

definition attempt_batch ::
  "('w \<Rightarrow> instant \<times> 'w) \<Rightarrow> 's runtime_ops \<Rightarrow> 'w provider \<Rightarrow> execution_limits
   \<Rightarrow> judgment_request list \<Rightarrow> nat list \<Rightarrow> 's \<times> 'w
   \<Rightarrow> (((nat \<times> judgment_result) list \<times> string option) result \<times> attempt_log \<times> 's \<times> 'w) option" where
  "attempt_batch clock rt provider limits requests indices = (\<lambda>(s, w).
     let scope = el_query_scope limits; external = p_makes_external_request provider
     in case rt_acquire_permit rt scope (el_max_inflight limits) s of
       None \<Rightarrow> None
     | Some (Inl e, s) \<Rightarrow> Some (Inl e, no_attempt, s, w)
     | Some (Inr permit, s) \<Rightarrow>
         let s = rt_record_provider_attempt rt scope (usize_of (length requests)) external s;
             (started, w) = clock w;
             (outcome, w) = p_judge_many provider requests w;
             (ended, w) = clock w;
             elapsed = ended - started
         in case outcome of
           Inl e \<Rightarrow> Some (Inl e, \<lparr>al_attempted = True, al_response_received = False,
                       al_provider_elapsed = elapsed\<rparr>, rt_release_permit rt permit s, w)
         | Inr response \<Rightarrow>
             let s = rt_record_provider_response rt scope (br_metadata response) elapsed external s;
                 log = \<lparr>al_attempted = True, al_response_received = True, al_provider_elapsed = elapsed\<rparr>
             in Some (result_bind (check_batch_response requests indices response) (\<lambda>results.
                        Inr (results, pm_effective_model (br_metadata response))),
                      log, rt_release_permit rt permit s, w))"

fun publish_results ::
  "('w \<Rightarrow> instant \<times> 'w) \<Rightarrow> ('a query_heap_scheme) runtime_ops \<Rightarrow> 'w provider \<Rightarrow> cache_policy option
   \<Rightarrow> judgment_group list \<Rightarrow> batch_plan \<Rightarrow> string option \<Rightarrow> (nat \<times> judgment_result) list
   \<Rightarrow> row_results \<Rightarrow> 'a query_heap_scheme \<times> 'w \<Rightarrow> row_results \<times> 'a query_heap_scheme \<times> 'w" where
  "publish_results clock rt provider cache_policy groups plan effective_model [] output (s, w) = (output, s, w)"
| "publish_results clock rt provider cache_policy groups plan effective_model ((index, r) # results) output (s, w) =
     (let (s, w) = store_result clock rt provider cache_policy (map_of (bp_cache_keys plan) index)
                     (groups ! index) effective_model r (s, w);
          s = complete (Inr r) (the (map_of (bp_leaders plan) index)) s
      in publish_results clock rt provider cache_policy groups plan effective_model results
           (output @ map (\<lambda>target. (target, r)) (jg_targets (groups ! index))) (s, w))"

definition fail_entries ::
  "judgment_error \<Rightarrow> entry_ref list \<Rightarrow> 'a query_heap_scheme \<Rightarrow> 'a query_heap_scheme" where
  "fail_entries error entries s = foldl (\<lambda>s entry. complete (Inl error) entry s) s entries"

definition fail_leaders :: "batch_plan \<Rightarrow> judgment_error \<Rightarrow> 'a query_heap_scheme \<Rightarrow> 'a query_heap_scheme" where
  "fail_leaders plan error s = fail_entries error (map snd (bp_leaders plan)) s"

definition dispatch ::
  "('w \<Rightarrow> instant \<times> 'w) \<Rightarrow> ('a query_heap_scheme) runtime_ops \<Rightarrow> 'w provider \<Rightarrow> execution_limits
   \<Rightarrow> cache_policy option \<Rightarrow> judgment_group list \<Rightarrow> batch_plan \<Rightarrow> nat list \<Rightarrow> row_results
   \<Rightarrow> 'a query_heap_scheme \<times> 'w \<Rightarrow> (row_results result \<times> 'a query_heap_scheme \<times> 'w) option" where
  "dispatch clock rt provider limits cache_policy groups plan indices output = (\<lambda>(s, w).
     case attempt_batch clock rt provider limits (requests_for_groups groups indices None) indices (s, w) of
       None \<Rightarrow> None
     | Some (attempt, log, s, w) \<Rightarrow>
         let s = account_failure rt provider limits (is_err attempt) log s
         in case attempt of
           Inr (results, effective_model) \<Rightarrow>
             let (output, s, w) = publish_results clock rt provider cache_policy groups plan
                                    effective_model results output (s, w)
             in Some (Inr output, s, w)
         | Inl error \<Rightarrow>
             Some (Inl error,
                   fail_entries error (map (\<lambda>index. the (map_of (bp_leaders plan) index)) indices) s, w))"

section \<open>Chunking a members\<close>

text \<open>
  The loop over the members of one partition; \<open>current\<close> is the batch under construction. A failed
  dispatch fails every leader.
\<close>

definition dispatch_or_fail ::
  "('w \<Rightarrow> instant \<times> 'w) \<Rightarrow> ('a query_heap_scheme) runtime_ops \<Rightarrow> 'w provider \<Rightarrow> execution_limits
   \<Rightarrow> cache_policy option \<Rightarrow> judgment_group list \<Rightarrow> batch_plan \<Rightarrow> nat list \<Rightarrow> row_results
   \<Rightarrow> 'a query_heap_scheme \<times> 'w \<Rightarrow> (row_results result \<times> 'a query_heap_scheme \<times> 'w) option" where
  "dispatch_or_fail clock rt provider limits cache_policy groups plan current output sw =
     (case dispatch clock rt provider limits cache_policy groups plan current output sw of
        Some (Inl error, s, w) \<Rightarrow> Some (Inl error, fail_leaders plan error s, w)
      | other \<Rightarrow> other)"

fun run_partition ::
  "('w \<Rightarrow> instant \<times> 'w) \<Rightarrow> ('a query_heap_scheme) runtime_ops \<Rightarrow> 'w provider \<Rightarrow> usize \<Rightarrow> execution_limits
   \<Rightarrow> cache_policy option \<Rightarrow> judgment_group list \<Rightarrow> batch_plan \<Rightarrow> nat list \<Rightarrow> nat list \<Rightarrow> row_results
   \<Rightarrow> 'a query_heap_scheme \<times> 'w \<Rightarrow> (row_results result \<times> 'a query_heap_scheme \<times> 'w) option" where
  "run_partition clock rt provider max_judgments limits cache_policy groups plan [] current output (s, w) =
     (if current \<noteq> []
      then dispatch_or_fail clock rt provider limits cache_policy groups plan current output (s, w)
      else Some (Inr output, s, w))"
| "run_partition clock rt provider max_judgments limits cache_policy groups plan (index # indices) current output (s, w) =
     (if map_of (bp_leaders plan) index = None
      then run_partition clock rt provider max_judgments limits cache_policy groups plan indices current output (s, w)
      else
        let candidate = requests_for_groups groups current (Some index);
            exceeds_count = unat max_judgments < length candidate;
            exceeds_bytes = el_max_request_bytes limits < p_estimate_request_bytes provider candidate
        in if exceeds_count \<or> exceeds_bytes
           then if current = []
             then let error = configuration ''one judgment exceeds duckjeu_max_request_bytes''
                  in Some (Inl error, fail_leaders plan error s, w)
             else case dispatch_or_fail clock rt provider limits cache_policy groups plan current output (s, w) of
                 Some (Inr output, s, w) \<Rightarrow>
                   let singleton = requests_for_groups groups [] (Some index)
                   in if unat max_judgments < length singleton
                         \<or> el_max_request_bytes limits < p_estimate_request_bytes provider singleton
                      then let error = configuration ''one judgment exceeds the configured batch limits''
                           in Some (Inl error, fail_leaders plan error s, w)
                      else run_partition clock rt provider max_judgments limits cache_policy groups plan
                             indices [index] output (s, w)
               | other \<Rightarrow> other
           else run_partition clock rt provider max_judgments limits cache_policy groups plan
                  indices (current @ [index]) output (s, w))"

fun run_partitions ::
  "('w \<Rightarrow> instant \<times> 'w) \<Rightarrow> ('a query_heap_scheme) runtime_ops \<Rightarrow> 'w provider \<Rightarrow> usize \<Rightarrow> execution_limits
   \<Rightarrow> cache_policy option \<Rightarrow> judgment_group list \<Rightarrow> batch_plan \<Rightarrow> nat list list \<Rightarrow> row_results
   \<Rightarrow> 'a query_heap_scheme \<times> 'w \<Rightarrow> (row_results result \<times> 'a query_heap_scheme \<times> 'w) option" where
  "run_partitions clock rt provider max_judgments limits cache_policy groups plan [] output (s, w) =
     Some (Inr output, s, w)"
| "run_partitions clock rt provider max_judgments limits cache_policy groups plan (members # partitions) output (s, w) =
     (case run_partition clock rt provider max_judgments limits cache_policy groups plan members [] output (s, w) of
        Some (Inr output, s, w) \<Rightarrow>
          run_partitions clock rt provider max_judgments limits cache_policy groups plan partitions output (s, w)
      | other \<Rightarrow> other)"

section \<open>Followers, and the whole function\<close>

fun await_followers ::
  "('a query_heap_scheme) runtime_ops \<Rightarrow> judgment_group list \<Rightarrow> (nat \<times> entry_ref \<times> flag_ref) list
   \<Rightarrow> row_results \<Rightarrow> 'a query_heap_scheme \<Rightarrow> (row_results result \<times> 'a query_heap_scheme) option" where
  "await_followers rt groups [] output s = Some (Inr output, s)"
| "await_followers rt groups ((index, entry, cancelled) # followers) output s =
     (case wait (rt_others rt) entry cancelled s of
        None \<Rightarrow> None
      | Some (Inl e, s) \<Rightarrow> Some (Inl e, s)
      | Some (Inr r, s) \<Rightarrow>
          await_followers rt groups followers
            (output @ map (\<lambda>target. (target, r)) (jg_targets (groups ! index))) s)"

definition batch_limit :: "provider_capabilities \<Rightarrow> usize \<Rightarrow> usize" where
  "batch_limit capabilities max_judgments =
     (case pc_max_batch_judgments capabilities of
        None \<Rightarrow> max_judgments | Some service_limit \<Rightarrow> min max_judgments service_limit)"

definition execute_batch_groups ::
  "judgment_group list \<Rightarrow> ('w \<Rightarrow> instant \<times> 'w) \<Rightarrow> 'w provider \<Rightarrow> ('a query_heap_scheme) runtime_ops
   \<Rightarrow> usize \<Rightarrow> execution_limits \<Rightarrow> cache_policy option
   \<Rightarrow> 'a query_heap_scheme \<times> 'w \<Rightarrow> (row_results result \<times> 'a query_heap_scheme \<times> 'w) option" where
  "execute_batch_groups groups clock provider rt max_judgments limits cache_policy = (\<lambda>(s, w).
     let capabilities = p_capabilities provider
     in if pc_multi_state_batch capabilities \<noteq> Verified
        then Some (Inl (configuration ''provider multi-state batch capability is not verified''), s, w)
        else if max_judgments = 0 \<or> el_max_request_bytes limits = 0
        then Some (Inl (configuration ''batch judgment and request byte limits must be positive''), s, w)
        else
          let max_judgments = batch_limit capabilities max_judgments
          in if max_judgments = 0
             then Some (Inl (configuration ''provider advertises a zero judgment batch limit''), s, w)
             else case plan_groups clock rt provider limits cache_policy groups [0..<length groups] empty_plan (s, w) of
               (Inl e, s, w) \<Rightarrow> Some (Inl e, s, w)
             | (Inr plan, s, w) \<Rightarrow>
                 (case run_partitions clock rt provider max_judgments limits cache_policy groups plan
                         (bp_partitions plan) (bp_output plan) (s, w) of
                    Some (Inr output, s, w) \<Rightarrow>
                      (case await_followers rt groups (bp_followers plan) output s of
                         None \<Rightarrow> None
                       | Some (r, s) \<Rightarrow> Some (r, s, w))
                  | other \<Rightarrow> other))"

end
