(* ===== verification/Batch_Steps.thy ===== *)
theory Batch_Steps
  imports Batch_Executor
begin

text \<open>
  The batching executor step by step: the planning of a group as a case analysis on the outcome of its
  claim, and the run over a partition as a relation with one rule for each path through the loop. The
  relation holds exactly of the function's results, so that properties of runs are rule inductions.
\<close>

section \<open>The requests of a batch\<close>

lemma length_requests [simp]:
  "length (requests_for_groups groups indices a) = length indices + (case a of None \<Rightarrow> 0 | Some _ \<Rightarrow> 1)"
  by (simp add: requests_for_groups_def Let_def split: option.splits)

lemma requests_Some: "requests_for_groups groups indices (Some i) = requests_for_groups groups (indices @ [i]) None"
  by (simp add: requests_for_groups_def)

definition within_limits :: "judgment_group list \<Rightarrow> 'w provider \<Rightarrow> usize \<Rightarrow> execution_limits \<Rightarrow> nat list \<Rightarrow> bool" where
  "within_limits groups provider mx limits is \<longleftrightarrow> is = [] \<or> (length is \<le> unat mx
     \<and> p_estimate_request_bytes provider (requests_for_groups groups is None) \<le> el_max_request_bytes limits)"

section \<open>Planning a group\<close>

definition too_many_choices :: "'w provider \<Rightarrow> judgment_request \<Rightarrow> bool" where
  "too_many_choices provider rq \<longleftrightarrow>
     (case pc_max_choices (p_capabilities provider) of None \<Rightarrow> False | Some limit \<Rightarrow> unat limit < length (rq_choices rq))"

lemma plan_group_claims:
  "plan_group clock rt provider limits policy groups i plan (s, w) =
     (let grp = groups ! i; ck = (case policy of None \<Rightarrow> None | Some _ \<Rightarrow> cache_identity_for grp provider)
      in if supports (p_capabilities provider) (rq_kind (jg_request grp)) \<noteq> Verified
         then (Inl (configuration ''provider capability for this question type is not verified''), s, w)
         else if too_many_choices provider (jg_request grp)
         then (Inl (configuration ''choice count exceeds the verified provider limit''), s, w)
         else case claim_phase clock rt (el_query_scope limits) policy ck (jg_identity grp) (s, w) of
           (Claim_Failed e, s, w) \<Rightarrow> (Inl e, s, w)
         | (Claim_Follows entry cancelled, s, w) \<Rightarrow>
             (Inr (plan\<lparr>bp_followers := bp_followers plan @ [(i, entry, cancelled)]\<rparr>), s, w)
         | (Claim_Hit r, s, w) \<Rightarrow>
             (Inr (plan\<lparr>bp_output := bp_output plan @ map (\<lambda>target. (target, r)) (jg_targets grp)\<rparr>), s, w)
         | (Claim_Leads entry, s, w) \<Rightarrow> (Inr (add_leader groups i entry ck plan), s, w))"
  by (simp add: plan_group_def claim_phase_def too_many_choices_def Let_def del: policy_validate_iff
      split: prod.split sum.split option.split)

section \<open>Running a partition\<close>

inductive partition_run ::
  "('w \<Rightarrow> instant \<times> 'w) \<Rightarrow> ('a query_heap_scheme) runtime_ops \<Rightarrow> 'w provider \<Rightarrow> usize \<Rightarrow> execution_limits
   \<Rightarrow> cache_policy option \<Rightarrow> judgment_group list \<Rightarrow> batch_plan \<Rightarrow> nat list \<Rightarrow> nat list \<Rightarrow> row_results
   \<Rightarrow> 'a query_heap_scheme \<Rightarrow> 'w \<Rightarrow> row_results result \<Rightarrow> 'a query_heap_scheme \<Rightarrow> 'w \<Rightarrow> bool"
  for clock rt provider mx limits policy groups plan where
  finished: "partition_run clock rt provider mx limits policy groups plan [] [] out s w (Inr out) s w"
| sent_last: "partition_run clock rt provider mx limits policy groups plan [] current out s w r s' w'"
    if "current \<noteq> []" "dispatch_or_fail clock rt provider limits policy groups plan current out (s, w) = Some (r, s', w')"
| skipped: "partition_run clock rt provider mx limits policy groups plan (i # indices) current out s w r s' w'"
    if "map_of (bp_leaders plan) i = None"
      "partition_run clock rt provider mx limits policy groups plan indices current out s w r s' w'"
| joined: "partition_run clock rt provider mx limits policy groups plan (i # indices) current out s w r s' w'"
    if "map_of (bp_leaders plan) i \<noteq> None" "within_limits groups provider mx limits (current @ [i])"
      "partition_run clock rt provider mx limits policy groups plan indices (current @ [i]) out s w r s' w'"
| too_large: "partition_run clock rt provider mx limits policy groups plan (i # indices) [] out s w
      (Inl e) (fail_leaders plan e s) w"
    if "map_of (bp_leaders plan) i \<noteq> None" "\<not> within_limits groups provider mx limits [i]"
      "e = configuration ''one judgment exceeds duckjeu_max_request_bytes''"
| sent_failed: "partition_run clock rt provider mx limits policy groups plan (i # indices) current out s w (Inl e) s' w'"
    if "map_of (bp_leaders plan) i \<noteq> None" "\<not> within_limits groups provider mx limits (current @ [i])" "current \<noteq> []"
      "dispatch_or_fail clock rt provider limits policy groups plan current out (s, w) = Some (Inl e, s', w')"
| sent_too_large: "partition_run clock rt provider mx limits policy groups plan (i # indices) current out s w
      (Inl e) (fail_leaders plan e s') w'"
    if "map_of (bp_leaders plan) i \<noteq> None" "\<not> within_limits groups provider mx limits (current @ [i])" "current \<noteq> []"
      "dispatch_or_fail clock rt provider limits policy groups plan current out (s, w) = Some (Inr out', s', w')"
      "\<not> within_limits groups provider mx limits [i]"
      "e = configuration ''one judgment exceeds the configured batch limits''"
| sent: "partition_run clock rt provider mx limits policy groups plan (i # indices) current out s w r s' w'"
    if "map_of (bp_leaders plan) i \<noteq> None" "\<not> within_limits groups provider mx limits (current @ [i])" "current \<noteq> []"
      "dispatch_or_fail clock rt provider limits policy groups plan current out (s, w) = Some (Inr out1, s1, w1)"
      "within_limits groups provider mx limits [i]"
      "partition_run clock rt provider mx limits policy groups plan indices [i] out1 s1 w1 r s' w'"

lemma over_limits:
  "unat mx < length is
     \<or> el_max_request_bytes limits < p_estimate_request_bytes provider (requests_for_groups groups is None)
   \<longleftrightarrow> \<not> within_limits groups provider mx limits is" if "is \<noteq> []"
  using that by (auto simp: within_limits_def not_less)

lemma run_partition_Cons:
  "run_partition clock rt provider mx limits policy groups plan (i # indices) current out (s, w) =
     (if map_of (bp_leaders plan) i = None
      then run_partition clock rt provider mx limits policy groups plan indices current out (s, w)
      else if within_limits groups provider mx limits (current @ [i])
      then run_partition clock rt provider mx limits policy groups plan indices (current @ [i]) out (s, w)
      else if current = []
      then let e = configuration ''one judgment exceeds duckjeu_max_request_bytes''
           in Some (Inl e, fail_leaders plan e s, w)
      else case dispatch_or_fail clock rt provider limits policy groups plan current out (s, w) of
          Some (Inr out, s, w) \<Rightarrow>
            if within_limits groups provider mx limits [i]
            then run_partition clock rt provider mx limits policy groups plan indices [i] out (s, w)
            else let e = configuration ''one judgment exceeds the configured batch limits''
                 in Some (Inl e, fail_leaders plan e s, w)
        | other \<Rightarrow> other)"
  using over_limits [of "current @ [i]" mx limits provider groups] over_limits [of "[i]" mx limits provider groups]
  by (simp only: run_partition.simps Let_def requests_Some length_requests option.case append_Nil add_0_right not_False_eq_True
      simp_thms list.distinct append_is_Nil_conv cong: if_cong) (auto split: option.splits sum.splits)

theorem run_partition_iff:
  "run_partition clock rt provider mx limits policy groups plan indices current out (s, w) = Some (r, s', w')
   \<longleftrightarrow> partition_run clock rt provider mx limits policy groups plan indices current out s w r s' w'"
proof
  show "partition_run clock rt provider mx limits policy groups plan indices current out s w r s' w'"
    if "run_partition clock rt provider mx limits policy groups plan indices current out (s, w) = Some (r, s', w')"
    using that
  proof (induction indices arbitrary: current out s w)
    case Nil
    then show ?case by (auto intro: partition_run.intros split: if_splits)
  next
    case (Cons i indices)
    note run = Cons.prems [unfolded run_partition_Cons Let_def]
    let ?fits = "within_limits groups provider mx limits"
    consider (skipped) "map_of (bp_leaders plan) i = None"
      | (joined) "map_of (bp_leaders plan) i \<noteq> None" "?fits (current @ [i])"
      | (alone) "map_of (bp_leaders plan) i \<noteq> None" "\<not> ?fits (current @ [i])" "current = []"
      | (sending) "map_of (bp_leaders plan) i \<noteq> None" "\<not> ?fits (current @ [i])" "current \<noteq> []"
      by blast
    then show ?case
    proof cases
      case skipped
      then show ?thesis using run by (intro partition_run.skipped Cons.IH) simp_all
    next
      case joined
      then show ?thesis using run by (auto intro!: partition_run.joined Cons.IH)
    next
      case alone
      then show ?thesis using run by (auto intro!: partition_run.too_large)
    next
      case sending
      note run' = run [unfolded if_not_P [OF sending(3)] if_not_P [OF sending(2)] if_not_P [OF sending(1)]]
      obtain r1 s1 w1 where d:
        "dispatch_or_fail clock rt provider limits policy groups plan current out (s, w) = Some (r1, s1, w1)"
        using run' by (auto split: option.splits)
      show ?thesis
      proof (cases r1)
        case (Inl e)
        then show ?thesis using run' d by (auto intro: partition_run.sent_failed [OF sending])
      next
        case (Inr out1)
        then show ?thesis
          using run' d by (cases "?fits [i]")
            (auto intro: partition_run.sent [OF sending] Cons.IH partition_run.sent_too_large [OF sending])
      qed
    qed
  qed
  show "run_partition clock rt provider mx limits policy groups plan indices current out (s, w) = Some (r, s', w')"
    if "partition_run clock rt provider mx limits policy groups plan indices current out s w r s' w'"
    using that
    by (induction rule: partition_run.induct) (auto simp: run_partition_Cons Let_def simp del: run_partition.simps(2))
qed

section \<open>The whole run\<close>

text \<open>Batches are possible at all under these settings.\<close>

definition batches_possible :: "'w provider \<Rightarrow> usize \<Rightarrow> execution_limits \<Rightarrow> bool" where
  "batches_possible provider max_judgments limits \<longleftrightarrow>
     pc_multi_state_batch (p_capabilities provider) = Verified \<and> max_judgments \<noteq> 0
     \<and> el_max_request_bytes limits \<noteq> 0 \<and> batch_limit (p_capabilities provider) max_judgments \<noteq> 0"

lemma execute_batch_groups_possible:
  assumes "batches_possible provider mx limits"
  shows "execute_batch_groups groups clock provider rt mx limits policy (s, w) =
     (case plan_groups clock rt provider limits policy groups [0..<length groups] empty_plan (s, w) of
        (Inl e, s, w) \<Rightarrow> Some (Inl e, s, w)
      | (Inr plan, s, w) \<Rightarrow>
          (case run_partitions clock rt provider (batch_limit (p_capabilities provider) mx) limits policy groups plan
                  (bp_partitions plan) (bp_output plan) (s, w) of
             Some (Inr output, s, w) \<Rightarrow>
               (case await_followers rt groups (bp_followers plan) output s of
                  None \<Rightarrow> None
                | Some (r, s) \<Rightarrow> Some (r, s, w))
           | other \<Rightarrow> other))"
  using assms by (simp add: execute_batch_groups_def batches_possible_def Let_def)

lemma execute_batch_groups_cases:
  assumes "execute_batch_groups groups clock provider rt mx limits policy (s, w) = Some (r, s', w')"
  obtains (refused) e where "r = Inl e" "s' = s" "w' = w"
  | (unplanned) e where "r = Inl e"
      "plan_groups clock rt provider limits policy groups [0..<length groups] empty_plan (s, w) = (Inl e, s', w')"
  | (failed) e plan s1 w1 where "r = Inl e"
      "plan_groups clock rt provider limits policy groups [0..<length groups] empty_plan (s, w) = (Inr plan, s1, w1)"
      "run_partitions clock rt provider (batch_limit (p_capabilities provider) mx) limits policy groups plan
         (bp_partitions plan) (bp_output plan) (s1, w1) = Some (Inl e, s', w')"
  | (awaited) plan s1 w1 out s2 where
      "plan_groups clock rt provider limits policy groups [0..<length groups] empty_plan (s, w) = (Inr plan, s1, w1)"
      "run_partitions clock rt provider (batch_limit (p_capabilities provider) mx) limits policy groups plan
         (bp_partitions plan) (bp_output plan) (s1, w1) = Some (Inr out, s2, w')"
      "await_followers rt groups (bp_followers plan) out s2 = Some (r, s')"
proof (cases "batches_possible provider mx limits")
  case False
  then show ?thesis
    using assms refused by (auto simp: execute_batch_groups_def batches_possible_def Let_def split: if_splits)
next
  case True
  then show ?thesis
    using assms unplanned failed awaited
    by (auto simp: execute_batch_groups_possible split: prod.splits sum.splits option.splits)
qed

end
