(* ===== verification/Batch_Soundness.thy ===== *)
theory Batch_Soundness
  imports Batch_Steps
begin

text \<open>
  Correctness of the batching executor over any lawful runtime: answers reach the groups whose
  requests they answer, every target of every group is produced exactly once with an acceptable
  value, and no entry this call owns is left incomplete once planning has succeeded.
\<close>

section \<open>Requests and answers of a batch\<close>

lemma zip_requests:
  "zip indices (requests_for_groups groups indices None)
   = map (\<lambda>(j, i). (i, (jg_request (groups ! i))\<lparr>rq_request_key := ''r'' @ nat_to_string j\<rparr>)) (enumerate 0 indices)"
  by (rule nth_equalityI) (auto simp: requests_for_groups_def nth_enumerate_eq)

lemma collect_answers_Inr:
  "collect_answers answers pairs = Inr results \<Longrightarrow>
   map fst results = map fst pairs
   \<and> (\<forall>(i, v) \<in> set results. \<exists>rq. (i, rq) \<in> set pairs \<and> answers (rq_request_key rq) = Some v)"
  by (induction answers pairs arbitrary: results rule: collect_answers.induct)
    (simp, fastforce simp: result_bind_Inr split: option.splits)

lemma check_batch_response_Inr:
  assumes check: "check_batch_response (requests_for_groups groups indices None) indices response = Inr results"
    and sound: "sound_provider Q provider"
    and call: "p_judge_many provider (requests_for_groups groups indices None) w = (Inr response, w')"
  shows "map fst results = indices"
    and "(i, v) \<in> set results \<Longrightarrow> \<exists>key. Q ((jg_request (groups ! i))\<lparr>rq_request_key := key\<rparr>) v"
proof -
  let ?rqs = "requests_for_groups groups indices None"
  have covers: "covers_batch ?rqs response"
    and collect: "collect_answers (answer_map response) (zip indices ?rqs) = Inr results"
    using check by (auto simp: check_batch_response_def result_bind_Inr)
  show "map fst results = indices"
    using collect_answers_Inr [OF collect] by simp
  assume "(i, v) \<in> set results"
  then obtain rq where rq: "(i, rq) \<in> set (zip indices ?rqs)" "answer_map response (rq_request_key rq) = Some v"
    using collect_answers_Inr [OF collect] by blast
  then have "rq \<in> set ?rqs" by (auto dest: set_zip_rightD)
  then have "Q rq v"
    using sound call covers rq(2) unfolding sound_provider_def by blast
  then show "\<exists>key. Q ((jg_request (groups ! i))\<lparr>rq_request_key := key\<rparr>) v"
    using rq(1) unfolding zip_requests by auto
qed

section \<open>Outputs by group index\<close>

definition outputs_of :: "judgment_group list \<Rightarrow> (nat \<times> judgment_result) list \<Rightarrow> row_results" where
  "outputs_of groups ivs = concat (map (\<lambda>(i, v). map (\<lambda>target. (target, v)) (jg_targets (groups ! i))) ivs)"

lemma outputs_of_simps [simp]:
  "outputs_of groups [] = []"
  "outputs_of groups (ivs @ ivs') = outputs_of groups ivs @ outputs_of groups ivs'"
  "outputs_of groups [(i, v)] = map (\<lambda>target. (target, v)) (jg_targets (groups ! i))"
  "outputs_of groups ((i, v) # ivs) = map (\<lambda>target. (target, v)) (jg_targets (groups ! i)) @ outputs_of groups ivs"
  by (simp_all add: outputs_of_def)

lemma mset_concat_map: "mset (concat (map f xs)) = sum_mset (image_mset (\<lambda>x. mset (f x)) (mset xs))"
  by (induction xs) auto

lemma expand_outputs:
  "length vs = length groups \<Longrightarrow> expand groups vs = outputs_of groups (zip [0..<length groups] vs)"
proof -
  assume len: "length vs = length groups"
  have "map2 (\<lambda>g v. map (\<lambda>target. (target, v)) (jg_targets g)) groups vs
      = map (\<lambda>(i, v). map (\<lambda>target. (target, v)) (jg_targets (groups ! i))) (zip [0..<length groups] vs)"
    using len by (intro nth_equalityI) auto
  then show ?thesis by (simp add: expand_def outputs_of_def)
qed

lemma outputs_complete:
  assumes fst: "mset (map fst ivs) = mset [0..<length groups]"
    and R: "\<And>i v. (i, v) \<in> set ivs \<Longrightarrow> R (groups ! i) v"
  shows "\<exists>vs. list_all2 R groups vs \<and> mset (outputs_of groups ivs) = mset (expand groups vs)"
proof -
  let ?n = "length groups"
  define vs where "vs = map (\<lambda>i. the (map_of ivs i)) [0..<?n]"
  have "distinct (map fst ivs)"
    using fst by (metis distinct_upt mset_eq_imp_distinct_iff)
  then have val: "map_of ivs i = Some v" if "(i, v) \<in> set ivs" for i v
    using that by simp
  have keys: "fst ` set ivs = {0..<?n}"
    using arg_cong [OF fst, of set_mset] by simp
  have nth: "(i, vs ! i) \<in> set ivs" if i: "i < ?n" for i
  proof -
    obtain v where "(i, v) \<in> set ivs" using i keys by (force simp: image_iff)
    then show ?thesis using val i by (simp add: vs_def)
  qed
  have "distinct ivs" using \<open>distinct (map fst ivs)\<close> by (simp add: distinct_map)
  moreover have "distinct (zip [0..<?n] vs)" by (simp add: distinct_zipI1)
  moreover have "set (zip [0..<?n] vs) = set ivs"
  proof (rule set_eqI)
    fix x :: "nat \<times> judgment_result"
    obtain i v where x: "x = (i, v)" by fastforce
    show "x \<in> set (zip [0..<?n] vs) \<longleftrightarrow> x \<in> set ivs"
    proof
      assume "x \<in> set (zip [0..<?n] vs)"
      then show "x \<in> set ivs" using nth by (auto simp: set_zip vs_def)
    next
      assume a: "x \<in> set ivs"
      then have "i < ?n" using keys x by (force simp: image_iff)
      then show "x \<in> set (zip [0..<?n] vs)"
        using val a x by (auto simp: set_zip vs_def intro!: exI [of _ i])
    qed
  qed
  ultimately have "mset ivs = mset (zip [0..<?n] vs)"
    by (simp add: set_eq_iff_mset_eq_distinct)
  then have "mset (outputs_of groups ivs) = mset (expand groups vs)"
    by (simp add: expand_outputs vs_def outputs_of_def mset_concat_map del: mset_concat)
  moreover have "list_all2 R groups vs"
    unfolding list_all2_conv_all_nth using R nth by (auto simp: vs_def)
  ultimately show ?thesis by blast
qed

section \<open>Soundness over any lawful runtime\<close>

text \<open>What a plan records, relative to the runtime's state, and what it has accounted for.\<close>

definition plan_refs_ok :: "judgment_group list \<Rightarrow> batch_plan \<Rightarrow> 'a query_heap_scheme \<Rightarrow> bool" where
  "plan_refs_ok groups plan s \<longleftrightarrow>
     (\<forall>(i, e) \<in> set (bp_leaders plan). i < length groups \<and> allocated_for s e (jg_identity (groups ! i)))
     \<and> (\<forall>(i, e, c) \<in> set (bp_followers plan). i < length groups \<and> allocated_for s e (jg_identity (groups ! i)))
     \<and> set (concat (bp_partitions plan)) = fst ` set (bp_leaders plan)"

lemma plan_refs_grows: "heap_grows s s' \<Longrightarrow> plan_refs_ok groups plan s \<Longrightarrow> plan_refs_ok groups plan s'"
  by (fastforce simp: plan_refs_ok_def intro: allocated_grows)

lemma plan_refs_leader:
  assumes "plan_refs_ok groups plan s" "(i, e) \<in> set (bp_leaders plan)"
  shows "i < length groups" "allocated_for s e (jg_identity (groups ! i))"
  using assms by (auto simp: plan_refs_ok_def)

definition plan_indices :: "batch_plan \<Rightarrow> (nat \<times> judgment_result) list \<Rightarrow> nat multiset" where
  "plan_indices plan ivs =
     mset (map fst ivs) + mset (concat (bp_partitions plan)) + mset (map fst (bp_followers plan))"

lemma set_add_to_partition: "mset (concat (add_to_partition groups i ps)) = add_mset i (mset (concat ps))"
  by (induction ps) auto

definition leaders_done :: "batch_plan \<Rightarrow> nat set \<Rightarrow> 'a query_heap_scheme \<Rightarrow> bool" where
  "leaders_done plan is s \<longleftrightarrow>
     (\<forall>i \<in> is. \<forall>e. map_of (bp_leaders plan) i = Some e \<longrightarrow> qh_slots s e \<noteq> None)"

lemma leaders_done_simps [simp]:
  "leaders_done plan {} s"
  "leaders_done plan (A \<union> B) s \<longleftrightarrow> leaders_done plan A s \<and> leaders_done plan B s"
  by (auto simp: leaders_done_def)

lemma complete_slot_stays: "qh_slots s e \<noteq> None \<Longrightarrow> qh_slots (complete r e' s) e \<noteq> None"
  by (simp add: complete_slots)

lemma leaders_done_grows:
  "heap_grows s s' \<Longrightarrow> plan_refs_ok groups plan s \<Longrightarrow> leaders_done plan A s \<Longrightarrow> leaders_done plan A s'"
  unfolding leaders_done_def
proof (intro ballI allI impI)
  fix i e
  assume g: "heap_grows s s'" and p: "plan_refs_ok groups plan s"
    and d: "\<forall>i \<in> A. \<forall>e. map_of (bp_leaders plan) i = Some e \<longrightarrow> qh_slots s e \<noteq> None"
    and i: "i \<in> A" "map_of (bp_leaders plan) i = Some e"
  have "e < qh_next_entry s"
    using p map_of_SomeD [OF i(2)] by (auto simp: plan_refs_ok_def allocated_for_def)
  moreover have "qh_slots s e \<noteq> None" using d i by blast
  ultimately show "qh_slots s' e \<noteq> None" using g by (simp add: heap_grows_def)
qed

lemma fail_entries_slots:
  "qh_slots (fail_entries error es s) e = (if e \<in> set es \<and> qh_slots s e = None then Some (Inl error) else qh_slots s e)"
  unfolding fail_entries_def
  by (induction es arbitrary: s) (auto simp: complete_slots)

lemma fail_leaders_done: "leaders_done plan A (fail_leaders plan error s)"
  by (force simp: leaders_done_def fail_leaders_def fail_entries_slots dest!: map_of_SomeD)

context judgment_runtime
begin

definition values_ok :: "judgment_group list \<Rightarrow> (nat \<times> judgment_result) list \<Rightarrow> bool" where
  "values_ok groups ivs \<longleftrightarrow> (\<forall>(i, v) \<in> set ivs. P (jg_identity (groups ! i)) v)"

lemma values_ok_simps [simp]:
  "values_ok groups []"
  "values_ok groups (ivs @ ivs') \<longleftrightarrow> values_ok groups ivs \<and> values_ok groups ivs'"
  "values_ok groups ((i, v) # ivs) \<longleftrightarrow> P (jg_identity (groups ! i)) v \<and> values_ok groups ivs"
  by (auto simp: values_ok_def)

definition keys_ok :: "judgment_group list \<Rightarrow> batch_plan \<Rightarrow> bool" where
  "keys_ok groups plan \<longleftrightarrow>
     (\<forall>(i, k) \<in> set (bp_cache_keys plan). \<forall>v. P k v = P (jg_identity (groups ! i)) v)"

text \<open>The invariant of the planning loop after the indices \<open>prev\<close>.\<close>

definition plan_inv ::
  "judgment_group list \<Rightarrow> nat list \<Rightarrow> batch_plan \<Rightarrow> 'a query_heap_scheme \<Rightarrow> bool" where
  "plan_inv groups prev plan s \<longleftrightarrow> plan_refs_ok groups plan s \<and> keys_ok groups plan
     \<and> (\<exists>ivs. bp_output plan = outputs_of groups ivs \<and> values_ok groups ivs
            \<and> plan_indices plan ivs = mset prev)"

lemma plan_inv_grows: "heap_grows s s' \<Longrightarrow> plan_inv groups prev plan s \<Longrightarrow> plan_inv groups prev plan s'"
  by (auto simp: plan_inv_def intro: plan_refs_grows)

lemma plan_inv_leader:
  assumes "plan_inv groups prev plan s" "i < length groups" "allocated_for s e (jg_identity (groups ! i))"
    and "\<And>k v. ck = Some k \<Longrightarrow> P k v = P (jg_identity (groups ! i)) v"
  shows "plan_inv groups (prev @ [i]) (add_leader groups i e ck plan) s"
proof -
  have "set (concat (add_to_partition groups i (bp_partitions plan))) = insert i (set (concat (bp_partitions plan)))"
    using arg_cong [OF set_add_to_partition, of set_mset] by simp
  then show ?thesis
    using assms
    by (auto simp: plan_inv_def plan_refs_ok_def keys_ok_def add_leader_def plan_indices_def
        set_add_to_partition simp del: set_concat mset_concat split: option.splits)
qed

lemma plan_inv_follower:
  assumes "plan_inv groups prev plan s" "i < length groups" "allocated_for s e (jg_identity (groups ! i))"
  shows "plan_inv groups (prev @ [i]) (plan\<lparr>bp_followers := bp_followers plan @ [(i, e, c)]\<rparr>) s"
  using assms by (auto simp: plan_inv_def plan_refs_ok_def keys_ok_def plan_indices_def)

lemma plan_inv_hit:
  assumes "plan_inv groups prev plan s" "P (jg_identity (groups ! i)) v"
  shows "plan_inv groups (prev @ [i])
    (plan\<lparr>bp_output := bp_output plan @ map (\<lambda>target. (target, v)) (jg_targets (groups ! i))\<rparr>) s"
proof -
  obtain ivs where ivs: "bp_output plan = outputs_of groups ivs" "values_ok groups ivs"
    "plan_indices plan ivs = mset prev"
    using assms(1) by (auto simp: plan_inv_def)
  then show ?thesis
    using assms
    by (auto simp: plan_inv_def plan_refs_ok_def keys_ok_def plan_indices_def
        intro!: exI [of _ "ivs @ [(i, v)]"])
qed

lemma plan_group_sound:
  assumes run: "plan_group clock rt provider limits policy groups i plan (s, w) = (r, s', w')"
    and s: "rt_inv s" and plan: "plan_inv groups prev plan s" and i: "i < length groups"
  shows "rt_inv s' \<and> heap_grows s s' \<and> (\<forall>plan'. r = Inr plan' \<longrightarrow> plan_inv groups (prev @ [i]) plan' s')"
proof -
  define ck where "ck = (case policy of None \<Rightarrow> None | Some _ \<Rightarrow> cache_identity_for (groups ! i) provider)"
  have ck: "P k v = P (jg_identity (groups ! i)) v" if "ck = Some k" for k v
    using that cache_identity_P by (auto simp: ck_def split: option.splits)
  obtain c s1 w1 where c: "claim_phase clock rt (el_query_scope limits) policy ck (jg_identity (groups ! i)) (s, w) = (c, s1, w1)"
    using prod_cases3 by blast
  note claimed = claim_phase_sound [OF c s ck]
  have s1: "rt_inv s1" "heap_grows s s1" using claimed by simp_all
  note plan1 = plan_inv_grows [OF s1(2) plan]
  note run' = run [unfolded plan_group_claims Let_def, folded ck_def, unfolded c prod.case]
  show ?thesis
  proof (cases c)
    case (Claim_Follows e f)
    then show ?thesis using run' s s1 claimed plan_inv_follower [OF plan1 i, of e f] by (auto split: if_splits)
  next
    case (Claim_Leads e)
    then show ?thesis using run' s s1 claimed plan_inv_leader [OF plan1 i _ ck, of e] by (auto split: if_splits)
  next
    case (Claim_Hit v)
    then show ?thesis using run' s s1 claimed plan_inv_hit [OF plan1, of i v] by (auto split: if_splits)
  qed (use run' s s1 in \<open>auto split: if_splits\<close>)
qed

lemma plan_groups_sound:
  "plan_groups clock rt provider limits policy groups indices plan (s, w) = (r, s', w') \<Longrightarrow>
   rt_inv s \<Longrightarrow> plan_inv groups prev plan s \<Longrightarrow> (\<And>i. i \<in> set indices \<Longrightarrow> i < length groups) \<Longrightarrow>
   rt_inv s' \<and> heap_grows s s'
   \<and> (\<forall>plan'. r = Inr plan' \<longrightarrow> plan_inv groups (prev @ indices) plan' s')"
proof (induction indices arbitrary: prev plan s w)
  case (Cons i indices)
  obtain r1 s1 w1 where one: "plan_group clock rt provider limits policy groups i plan (s, w) = (r1, s1, w1)"
    using prod_cases3 by blast
  note s1 = plan_group_sound [OF one Cons.prems(2,3) Cons.prems(4) [of i]]
  show ?case
  proof (cases r1)
    case (Inl e)
    then show ?thesis using Cons.prems(1) one s1 by auto
  next
    case (Inr plan1)
    then have rest: "plan_groups clock rt provider limits policy groups indices plan1 (s1, w1) = (r, s', w')"
      using Cons.prems(1) one by simp
    have "rt_inv s' \<and> heap_grows s1 s'
      \<and> (\<forall>plan'. r = Inr plan' \<longrightarrow> plan_inv groups ((prev @ [i]) @ indices) plan' s')"
      by (rule Cons.IH [OF rest]) (use s1 Inr Cons.prems(4) in auto)
    then show ?thesis using s1 by (auto intro: heap_grows_trans)
  qed
qed auto

end

section \<open>Dispatch\<close>

lemma requests_judged:
  assumes "sound_provider Q provider" "\<And>g. g \<in> set groups \<Longrightarrow> group_judges Q P g"
    and "p_judge_many provider (requests_for_groups groups indices None) w = (Inr response, w')"
    and "check_batch_response (requests_for_groups groups indices None) indices response = Inr results"
    and "\<And>i. i \<in> set indices \<Longrightarrow> i < length groups"
  shows "map fst results = indices" "(i, v) \<in> set results \<Longrightarrow> P (jg_identity (groups ! i)) v"
proof -
  note c = check_batch_response_Inr [OF assms(4,1,3)]
  show *: "map fst results = indices" by (rule c(1))
  assume iv: "(i, v) \<in> set results"
  then have "i \<in> fst ` set results" by force
  then have "i < length groups" using assms(5) arg_cong [OF *, of set] by simp
  then have "group_judges Q P (groups ! i)" using assms(2) by simp
  then show "P (jg_identity (groups ! i)) v"
    using c(2) [OF iv] by (auto simp: group_judges_def)
qed

context judgment_runtime
begin

lemma attempt_batch_sound:
  assumes run: "attempt_batch clock rt provider limits (requests_for_groups groups indices None) indices (s, w)
      = Some (r, log, s', w')"
    and sound: "sound_provider Q provider" and judges: "\<And>g. g \<in> set groups \<Longrightarrow> group_judges Q P g"
    and idx: "\<And>i. i \<in> set indices \<Longrightarrow> i < length groups"
  shows "advances s s' \<and> (\<forall>ivs m. r = Inr (ivs, m) \<longrightarrow> map fst ivs = indices \<and> values_ok groups ivs)"
proof -
  let ?rqs = "requests_for_groups groups indices None"
  obtain acq s1 where acq: "rt_acquire_permit rt (el_query_scope limits) (el_max_inflight limits) s = Some (acq, s1)"
    using run by (auto simp: attempt_batch_def Let_def split: option.splits)
  have s1: "advances s s1" by (rule acquire_advances [OF acq]) simp
  show ?thesis
  proof (cases acq)
    case (Inl e)
    then show ?thesis using run acq s1 by (auto simp: attempt_batch_def Let_def)
  next
    case (Inr permit)
    let ?ext = "p_makes_external_request provider" and ?scope = "el_query_scope limits"
    obtain t1 w1 where t1: "clock w = (t1, w1)" by fastforce
    obtain out w2 where out: "p_judge_many provider ?rqs w1 = (out, w2)" by fastforce
    obtain t2 w3 where t2: "clock w2 = (t2, w3)" by fastforce
    define s2 where "s2 = rt_record_provider_attempt rt ?scope (usize_of (length indices)) ?ext s1"
    have s2: "advances s s2" unfolding s2_def by (rule op_advances(4) [OF s1])
    show ?thesis
    proof (cases out)
      case (Inl e)
      then show ?thesis
        using run acq Inr t1 out t2 op_advances(9) [OF s2] by (auto simp: attempt_batch_def s2_def)
    next
      case resp: (Inr response)
      define s3 where "s3 = rt_record_provider_response rt ?scope (br_metadata response) (t2 - t1) ?ext s2"
      have s3: "advances s s3" unfolding s3_def by (rule op_advances(6) [OF s2])
      have eq: "r = result_bind (check_batch_response ?rqs indices response)
          (\<lambda>ivs. Inr (ivs, pm_effective_model (br_metadata response)))" "s' = rt_release_permit rt permit s3"
        using run acq Inr t1 out t2 resp by (simp_all add: attempt_batch_def Let_def s2_def s3_def)
      have "map fst ivs = indices \<and> values_ok groups ivs" if "r = Inr (ivs, m)" for ivs m
      proof -
        have c: "check_batch_response ?rqs indices response = Inr ivs"
          using that eq(1) by (auto simp: result_bind_Inr)
        show ?thesis
          using requests_judged [OF sound judges out [unfolded resp] c idx] by (auto simp: values_ok_def)
      qed
      then show ?thesis using op_advances(9) [OF s3] eq(2) by blast
    qed
  qed
qed

lemma publish_results_sound:
  "publish_results clock rt provider policy groups plan m results out (s, w) = (out', s', w') \<Longrightarrow>
   rt_inv s \<Longrightarrow> plan_refs_ok groups plan s \<Longrightarrow> keys_ok groups plan \<Longrightarrow> values_ok groups results \<Longrightarrow>
   fst ` set results \<subseteq> fst ` set (bp_leaders plan) \<Longrightarrow>
   rt_inv s' \<and> heap_grows s s' \<and> out' = out @ outputs_of groups results
   \<and> leaders_done plan (fst ` set results) s'"
proof (induction results arbitrary: out s w)
  case (Cons iv results)
  obtain i v where iv: "iv = (i, v)" by fastforce
  have v: "P (jg_identity (groups ! i)) v" using Cons.prems(5) by (simp add: iv)
  obtain s1 w1 where store: "store_result clock rt provider policy (map_of (bp_cache_keys plan) i)
      (groups ! i) m v (s, w) = (s1, w1)" by fastforce
  have "advances s s1"
    by (rule store_result_advances [OF store])
      (use Cons.prems(4) v in \<open>auto simp: keys_ok_def dest!: map_of_SomeD\<close>)
  then have s1: "rt_inv s1" "heap_grows s s1" using Cons.prems(2) by (simp_all add: advances_def)
  have "i \<in> fst ` set (bp_leaders plan)" using Cons.prems(6) by (simp add: iv)
  then obtain e where e: "map_of (bp_leaders plan) i = Some e"
    by (cases "map_of (bp_leaders plan) i") (auto simp: map_of_eq_None_iff)
  have e1: "allocated_for s1 e (jg_identity (groups ! i))"
    using allocated_grows [OF s1(2)] Cons.prems(3) map_of_SomeD [OF e] by (auto simp: plan_refs_ok_def)
  define s2 where "s2 = complete (Inr v) e s1"
  have s2: "rt_inv s2" "heap_grows s1 s2"
    unfolding s2_def by (rule complete_sound [OF s1(1) e1], simp add: v)+
  have gr2: "heap_grows s s2" using heap_grows_trans [OF s1(2) s2(2)] .
  have rest: "publish_results clock rt provider policy groups plan m results
      (out @ map (\<lambda>target. (target, v)) (jg_targets (groups ! i))) (s2, w1) = (out', s', w')"
    using Cons.prems(1) by (simp add: iv store e s2_def)
  have r: "rt_inv s' \<and> heap_grows s2 s'
    \<and> out' = (out @ map (\<lambda>target. (target, v)) (jg_targets (groups ! i))) @ outputs_of groups results
    \<and> leaders_done plan (fst ` set results) s'"
    using Cons.prems(4,5,6)
    by (intro Cons.IH [OF rest s2(1) plan_refs_grows [OF gr2 Cons.prems(3)]]) (simp_all add: iv)
  have "leaders_done plan {i} s2"
    by (simp add: leaders_done_def e s2_def complete_slots)
  then have "leaders_done plan {i} s'"
    using r leaders_done_grows plan_refs_grows [OF gr2 Cons.prems(3)] by blast
  then show ?case
    using r heap_grows_trans [OF gr2] by (simp add: iv leaders_done_def)
qed simp

lemma fail_entries_sound:
  "rt_inv s \<Longrightarrow> (\<And>e. e \<in> set es \<Longrightarrow> \<exists>k. allocated_for s e k) \<Longrightarrow>
   rt_inv (fail_entries error es s) \<and> heap_grows s (fail_entries error es s)"
proof (induction es arbitrary: s)
  case (Cons e es)
  obtain k where k: "allocated_for s e k" using Cons.prems(2) by auto
  have s1: "rt_inv (complete (Inl error) e s)" "heap_grows s (complete (Inl error) e s)"
    by (rule complete_sound [OF Cons.prems(1) k], simp)+
  have "rt_inv (fail_entries error es (complete (Inl error) e s))
    \<and> heap_grows (complete (Inl error) e s) (fail_entries error es (complete (Inl error) e s))"
    using Cons.prems(2) allocated_grows [OF s1(2)] by (intro Cons.IH s1(1)) (meson list.set_intros(2))
  then show ?case using heap_grows_trans [OF s1(2)] by (simp add: fail_entries_def)
qed (simp add: fail_entries_def)

lemma fail_leaders_sound:
  assumes "rt_inv s" "plan_refs_ok groups plan s"
  shows "rt_inv (fail_leaders plan error s) \<and> heap_grows s (fail_leaders plan error s)"
  unfolding fail_leaders_def
proof (rule fail_entries_sound [OF assms(1)])
  fix e assume "e \<in> set (map snd (bp_leaders plan))"
  then obtain i where "(i, e) \<in> set (bp_leaders plan)" by auto
  then show "\<exists>k. allocated_for s e k" using plan_refs_leader(2) [OF assms(2)] by blast
qed

text \<open>The result of dispatching: the indices dispatched, with acceptable values and completed entries.\<close>

definition dispatched ::
  "judgment_group list \<Rightarrow> batch_plan \<Rightarrow> nat list \<Rightarrow> row_results \<Rightarrow> row_results result
   \<Rightarrow> 'a query_heap_scheme \<Rightarrow> bool" where
  "dispatched groups plan indices out r s \<longleftrightarrow>
     (case r of
        Inl _ \<Rightarrow> True
      | Inr out' \<Rightarrow> (\<exists>ivs. map fst ivs = indices \<and> values_ok groups ivs \<and> out' = out @ outputs_of groups ivs)
          \<and> leaders_done plan (set indices) s)"

lemma dispatch_sound:
  assumes run: "dispatch clock rt provider limits policy groups plan indices out (s, w) = Some (r, s', w')"
    and s: "rt_inv s" "plan_refs_ok groups plan s" "keys_ok groups plan"
    and sound: "sound_provider Q provider" and judges: "\<And>g. g \<in> set groups \<Longrightarrow> group_judges Q P g"
    and idx: "set indices \<subseteq> fst ` set (bp_leaders plan)"
  shows "rt_inv s' \<and> heap_grows s s' \<and> dispatched groups plan indices out r s'"
proof -
  obtain a log s1 w1 where att: "attempt_batch clock rt provider limits
      (requests_for_groups groups indices None) indices (s, w) = Some (a, log, s1, w1)"
    using run by (auto simp: dispatch_def split: option.splits)
  have bound: "i < length groups" if "i \<in> set indices" for i
    using that idx plan_refs_leader(1) [OF s(2)] by auto
  note a = attempt_batch_sound [OF att sound judges bound]
  define s2 where "s2 = account_failure rt provider limits (is_err a) log s1"
  have s2: "rt_inv s2" "heap_grows s s2"
    using account_failure_advances [of s s1 provider limits "is_err a" log] a s(1)
    by (auto simp: advances_def s2_def)
  note plan2 = plan_refs_grows [OF s2(2) s(2)]
  show ?thesis
  proof (cases a)
    case (Inl error)
    let ?es = "map (\<lambda>index. the (map_of (bp_leaders plan) index)) indices"
    have "\<exists>k. allocated_for s2 e k" if e: "e \<in> set ?es" for e
    proof -
      obtain i where i: "i \<in> set indices" "e = the (map_of (bp_leaders plan) i)" using e by auto
      then have "map_of (bp_leaders plan) i = Some e"
        using idx by (cases "map_of (bp_leaders plan) i") (auto simp: map_of_eq_None_iff)
      then show ?thesis using plan_refs_leader(2) [OF plan2] by (blast dest: map_of_SomeD)
    qed
    then have "rt_inv (fail_entries error ?es s2) \<and> heap_grows s2 (fail_entries error ?es s2)"
      by (intro fail_entries_sound s2(1))
    then show ?thesis
      using run att Inl heap_grows_trans [OF s2(2)]
      by (auto simp: dispatch_def dispatched_def s2_def)
  next
    case (Inr im)
    obtain ivs m where im: "im = (ivs, m)" by fastforce
    have ivs: "map fst ivs = indices" "values_ok groups ivs" using a Inr im by simp_all
    obtain out' s3 w3 where pub: "publish_results clock rt provider policy groups plan m ivs out (s2, w1)
        = (out', s3, w3)" using prod_cases3 by blast
    have sub: "fst ` set ivs \<subseteq> fst ` set (bp_leaders plan)"
      using idx arg_cong [OF ivs(1), of set] by simp
    have "rt_inv s3 \<and> heap_grows s2 s3 \<and> out' = out @ outputs_of groups ivs
      \<and> leaders_done plan (fst ` set ivs) s3"
      by (rule publish_results_sound [OF pub s2(1) plan2 s(3) ivs(2) sub])
    then show ?thesis
      using run att Inr im pub ivs heap_grows_trans [OF s2(2)] arg_cong [OF ivs(1), of set]
      by (auto simp: dispatch_def dispatched_def s2_def)
  qed
qed

end

section \<open>Partitions, followers and the whole function\<close>

context judgment_runtime
begin

definition ran ::
  "judgment_group list \<Rightarrow> batch_plan \<Rightarrow> nat list \<Rightarrow> row_results \<Rightarrow> row_results result
   \<Rightarrow> 'a query_heap_scheme \<Rightarrow> bool" where
  "ran groups plan indices out r s \<longleftrightarrow>
     dispatched groups plan indices out r s \<and> (is_err r \<longrightarrow> leaders_done plan UNIV s)"

lemma ran_error: "leaders_done plan UNIV s \<Longrightarrow> ran groups plan indices out (Inl e) s"
  by (simp add: ran_def dispatched_def)

lemma ran_Inr: "ran groups plan indices out (Inr out') s \<longleftrightarrow>
    (\<exists>ivs. map fst ivs = indices \<and> values_ok groups ivs \<and> out' = out @ outputs_of groups ivs)
    \<and> leaders_done plan (set indices) s"
  by (simp add: ran_def dispatched_def is_err_def)

lemma ran_append:
  assumes one: "ran groups plan is1 out (Inr out1) s1" and two: "ran groups plan is2 out1 r s2"
    and grows: "heap_grows s1 s2" "plan_refs_ok groups plan s1"
  shows "ran groups plan (is1 @ is2) out r s2"
proof (cases r)
  case (Inl e)
  then show ?thesis using two by (simp add: ran_def dispatched_def is_err_def)
next
  case (Inr out2)
  obtain ivs1 where 1: "map fst ivs1 = is1" "values_ok groups ivs1" "out1 = out @ outputs_of groups ivs1"
    using one by (auto simp: ran_Inr)
  obtain ivs2 where 2: "map fst ivs2 = is2" "values_ok groups ivs2" "out2 = out1 @ outputs_of groups ivs2"
    using two by (auto simp: Inr ran_Inr)
  have "leaders_done plan (set is1) s2"
    using one leaders_done_grows [OF grows] by (simp add: ran_Inr)
  then show ?thesis
    using 1 2 two by (auto simp: Inr ran_Inr intro!: exI [of _ "ivs1 @ ivs2"])
qed

lemma dispatch_or_fail_sound:
  assumes run: "dispatch_or_fail clock rt provider limits policy groups plan indices out (s, w) = Some (r, s', w')"
    and s: "rt_inv s" "plan_refs_ok groups plan s" "keys_ok groups plan"
    and sound: "sound_provider Q provider" and judges: "\<And>g. g \<in> set groups \<Longrightarrow> group_judges Q P g"
    and idx: "set indices \<subseteq> fst ` set (bp_leaders plan)"
  shows "rt_inv s' \<and> heap_grows s s' \<and> ran groups plan indices out r s'"
proof -
  obtain r1 s1 w1 where d: "dispatch clock rt provider limits policy groups plan indices out (s, w) = Some (r1, s1, w1)"
    using run by (auto simp: dispatch_or_fail_def split: option.splits)
  have s1: "rt_inv s1" "heap_grows s s1" "dispatched groups plan indices out r1 s1"
    using dispatch_sound [OF d s sound judges idx] by simp_all
  show ?thesis
  proof (cases r1)
    case (Inl error)
    then show ?thesis
      using run d fail_leaders_sound [OF s1(1) plan_refs_grows [OF s1(2) s(2)], of error]
        heap_grows_trans [OF s1(2)]
      by (auto simp: dispatch_or_fail_def intro!: ran_error fail_leaders_done)
  next
    case (Inr out')
    then show ?thesis using run d s1 by (auto simp: dispatch_or_fail_def ran_def is_err_def)
  qed
qed

lemma run_partition_sound:
  assumes keys: "keys_ok groups plan"
    and sound: "sound_provider Q provider" and judges: "\<And>g. g \<in> set groups \<Longrightarrow> group_judges Q P g"
  shows "run_partition clock rt provider mx limits policy groups plan indices current out (s, w) = Some (r, s', w') \<Longrightarrow>
    rt_inv s \<Longrightarrow> plan_refs_ok groups plan s \<Longrightarrow>
    set current \<subseteq> fst ` set (bp_leaders plan) \<Longrightarrow> set indices \<subseteq> fst ` set (bp_leaders plan) \<Longrightarrow>
    rt_inv s' \<and> heap_grows s s' \<and> ran groups plan (current @ indices) out r s'"
proof -
  assume "run_partition clock rt provider mx limits policy groups plan indices current out (s, w) = Some (r, s', w')"
    "rt_inv s" "plan_refs_ok groups plan s"
    "set current \<subseteq> fst ` set (bp_leaders plan)" "set indices \<subseteq> fst ` set (bp_leaders plan)"
  then show ?thesis
    unfolding run_partition_iff
  proof (induction rule: partition_run.induct)
    case (finished out s w)
    then show ?case by (auto simp: ran_Inr)
  next
    case sent_last
    then show ?case using dispatch_or_fail_sound [OF _ _ _ keys sound judges] by simp
  next
    case skipped
    then show ?case by (auto simp: map_of_eq_None_iff)
  next
    case joined
    then show ?case by simp
  next
    case too_large
    then show ?case using fail_leaders_sound by (auto intro!: ran_error fail_leaders_done)
  next
    case (sent_failed i current out s w e s' w' indices)
    then show ?case
      using dispatch_or_fail_sound [OF sent_failed(4) _ _ keys sound judges]
      by (auto simp: ran_def dispatched_def is_err_def)
  next
    case (sent_too_large i current out s w out' s' w' e indices)
    have s': "rt_inv s'" "heap_grows s s'"
      using dispatch_or_fail_sound [OF sent_too_large(4) _ _ keys sound judges] sent_too_large.prems by simp_all
    then show ?case
      using fail_leaders_sound [OF s'(1) plan_refs_grows [OF s'(2) sent_too_large.prems(2)], of e] heap_grows_trans [OF s'(2)]
      by (auto intro!: ran_error fail_leaders_done)
  next
    case (sent i current out s w out1 s1 w1 indices r s' w')
    have s1: "rt_inv s1" "heap_grows s s1" "ran groups plan current out (Inr out1) s1"
      using dispatch_or_fail_sound [OF sent(4) _ _ keys sound judges] sent.prems by simp_all
    note plan1 = plan_refs_grows [OF s1(2) sent.prems(2)]
    show ?case
      using ran_append [OF s1(3) _ _ plan1, of "[i] @ indices" r s'] heap_grows_trans [OF s1(2)] sent.IH sent.prems s1 plan1
      by auto
  qed
qed

lemma run_partitions_sound:
  assumes keys: "keys_ok groups plan"
    and sound: "sound_provider Q provider" and judges: "\<And>g. g \<in> set groups \<Longrightarrow> group_judges Q P g"
  shows "run_partitions clock rt provider mx limits policy groups plan ps out (s, w) = Some (r, s', w') \<Longrightarrow>
    rt_inv s \<Longrightarrow> plan_refs_ok groups plan s \<Longrightarrow> set (concat ps) \<subseteq> fst ` set (bp_leaders plan) \<Longrightarrow>
    rt_inv s' \<and> heap_grows s s' \<and> ran groups plan (concat ps) out r s'"
proof (induction ps arbitrary: out s w)
  case Nil
  then show ?case by (auto simp: ran_Inr)
next
  case (Cons p ps)
  obtain r1 s1 w1 where d: "run_partition clock rt provider mx limits policy groups plan p [] out (s, w) = Some (r1, s1, w1)"
    using Cons.prems(1) by (auto split: option.splits)
  have s1: "rt_inv s1" "heap_grows s s1" "ran groups plan p out r1 s1"
    using run_partition_sound [OF keys sound judges d Cons.prems(2,3)] Cons.prems(4) by simp_all
  note plan1 = plan_refs_grows [OF s1(2) Cons.prems(3)]
  show ?case
  proof (cases r1)
    case (Inl e)
    then show ?thesis using Cons.prems(1) d s1 by (auto simp: ran_def dispatched_def is_err_def)
  next
    case (Inr out1)
    have rest: "run_partitions clock rt provider mx limits policy groups plan ps out1 (s1, w1) = Some (r, s', w')"
      using Cons.prems(1) d Inr by simp
    have two: "rt_inv s' \<and> heap_grows s1 s' \<and> ran groups plan (concat ps) out1 r s'"
      using Cons.prems(4) by (intro Cons.IH [OF rest s1(1) plan1]) simp
    then show ?thesis
      using ran_append [OF s1(3) [unfolded Inr] _ _ plan1, of "concat ps" r s'] heap_grows_trans [OF s1(2)]
      by auto
  qed
qed

lemma await_followers_sound:
  "await_followers rt groups fs out s = Some (r, s') \<Longrightarrow> rt_inv s \<Longrightarrow>
   (\<And>i e c. (i, e, c) \<in> set fs \<Longrightarrow> allocated_for s e (jg_identity (groups ! i))) \<Longrightarrow>
   rt_inv s' \<and> heap_grows s s' \<and> (\<forall>out'. r = Inr out' \<longrightarrow>
     (\<exists>ivs. map fst ivs = map fst fs \<and> values_ok groups ivs \<and> out' = out @ outputs_of groups ivs))"
proof (induction fs arbitrary: out s)
  case (Cons f fs)
  obtain i e c where f: "f = (i, e, c)" using prod_cases3 by blast
  obtain r1 s1 where wt: "wait (rt_others rt) e c s = Some (r1, s1)"
    using Cons.prems(1) by (auto simp: f split: option.splits)
  have "allocated_for s e (jg_identity (groups ! i))"
    by (rule Cons.prems(3) [of i e c]) (simp add: f)
  then have s1: "rt_inv s1" "heap_grows s s1" "\<And>v. r1 = Inr v \<Longrightarrow> P (jg_identity (groups ! i)) v"
    using wait_sound [OF Cons.prems(2) _ wt] by auto
  show ?case
  proof (cases r1)
    case (Inl e)
    then show ?thesis using Cons.prems(1) f wt s1 by auto
  next
    case (Inr v)
    have rest: "await_followers rt groups fs (out @ map (\<lambda>target. (target, v)) (jg_targets (groups ! i))) s1 = Some (r, s')"
      using Cons.prems(1) f wt Inr by simp
    have "rt_inv s' \<and> heap_grows s1 s' \<and> (\<forall>out'. r = Inr out' \<longrightarrow>
      (\<exists>ivs. map fst ivs = map fst fs \<and> values_ok groups ivs
        \<and> out' = (out @ map (\<lambda>target. (target, v)) (jg_targets (groups ! i))) @ outputs_of groups ivs))"
    proof (rule Cons.IH [OF rest s1(1)])
      fix i e c assume "(i, e, c) \<in> set fs"
      then show "allocated_for s1 e (jg_identity (groups ! i))"
        by (intro allocated_grows [OF s1(2) Cons.prems(3) [of i e c]]) simp
    qed
    moreover have "map fst ((i, v) # ivs) = map fst (f # fs) \<and> values_ok groups ((i, v) # ivs)"
      if "map fst ivs = map fst fs" "values_ok groups ivs" for ivs
      using that s1(3) [OF Inr] by (simp add: f)
    ultimately show ?thesis
      using heap_grows_trans [OF s1(2)] by (metis append_assoc outputs_of_simps(4))
  qed
qed auto

end

context judgment_runtime
begin

text \<open>
  The main lemma: whatever the provider returns and whatever other threads do, the function's values
  are acceptable for their groups and reach exactly the targets of the groups.
\<close>

text \<open>The end of a run: cached, batched and shared results together cover every group once.\<close>

lemma await_complete:
  assumes aw: "await_followers rt groups (bp_followers plan) out2 s2 = Some (r, s')"
    and s2: "rt_inv s2" and plan: "plan_inv groups [0..<length groups] plan s2"
    and ran: "ran groups plan (concat (bp_partitions plan)) (bp_output plan) (Inr out2) s2"
  shows "rt_inv s' \<and> heap_grows s2 s' \<and> (\<forall>out. r = Inr out \<longrightarrow>
    (\<exists>vs. list_all2 (\<lambda>g. P (jg_identity g)) groups vs \<and> mset out = mset (expand groups vs)))"
proof -
  obtain ivs0 where ivs0: "bp_output plan = outputs_of groups ivs0" "values_ok groups ivs0"
    "plan_indices plan ivs0 = mset [0..<length groups]" and refs: "plan_refs_ok groups plan s2"
    using plan by (auto simp: plan_inv_def)
  obtain ivs1 where ivs1: "map fst ivs1 = concat (bp_partitions plan)" "values_ok groups ivs1"
    "out2 = bp_output plan @ outputs_of groups ivs1"
    using ran by (auto simp: ran_Inr)
  have "allocated_for s2 e (jg_identity (groups ! i))" if "(i, e, c) \<in> set (bp_followers plan)" for i e c
    using that refs by (fastforce simp: plan_refs_ok_def)
  then have fin: "rt_inv s' \<and> heap_grows s2 s' \<and> (\<forall>out'. r = Inr out' \<longrightarrow>
      (\<exists>ivs. map fst ivs = map fst (bp_followers plan) \<and> values_ok groups ivs
        \<and> out' = out2 @ outputs_of groups ivs))"
    by (intro await_followers_sound [OF aw s2])
  have "\<exists>vs. list_all2 (\<lambda>g. P (jg_identity g)) groups vs \<and> mset out = mset (expand groups vs)"
    if r: "r = Inr out" for out
  proof -
    obtain ivs2 where ivs2: "map fst ivs2 = map fst (bp_followers plan)" "values_ok groups ivs2"
      "out = out2 @ outputs_of groups ivs2"
      using fin r by blast
    have eq: "out = outputs_of groups (ivs0 @ ivs1 @ ivs2)"
      by (simp add: ivs2(3) ivs1(3) ivs0(1))
    show ?thesis
      unfolding eq
    proof (rule outputs_complete)
      show "mset (map fst (ivs0 @ ivs1 @ ivs2)) = mset [0..<length groups]"
        using ivs0(3) by (simp add: plan_indices_def ivs1(1) ivs2(1) add.assoc)
      show "P (jg_identity (groups ! i)) v" if "(i, v) \<in> set (ivs0 @ ivs1 @ ivs2)" for i v
        using that ivs0(2) ivs1(2) ivs2(2) by (auto simp: values_ok_def)
    qed
  qed
  then show ?thesis using fin by blast
qed

lemma execute_batch_groups_sound:
  assumes run: "execute_batch_groups groups clock provider rt mx limits policy (s, w) = Some (r, s', w')"
    and s: "rt_inv s" and sound: "sound_provider Q provider"
    and judges: "\<And>g. g \<in> set groups \<Longrightarrow> group_judges Q P g"
  shows "rt_inv s' \<and> heap_grows s s' \<and> (\<forall>out. r = Inr out \<longrightarrow>
    (\<exists>vs. list_all2 (\<lambda>g. P (jg_identity g)) groups vs \<and> mset out = mset (expand groups vs)))"
proof -
  have "plan_inv groups [] empty_plan s"
    by (simp add: plan_inv_def plan_refs_ok_def keys_ok_def empty_plan_def plan_indices_def exI [of _ "[]"])
  then have planned: "rt_inv s1 \<and> heap_grows s s1 \<and> (\<forall>plan. pr = Inr plan \<longrightarrow> plan_inv groups [0..<length groups] plan s1)"
    if "plan_groups clock rt provider limits policy groups [0..<length groups] empty_plan (s, w) = (pr, s1, w1)" for pr s1 w1
    using plan_groups_sound [OF that s, of "[]"] by simp
  have runs: "rt_inv s2 \<and> heap_grows s s2 \<and> plan_inv groups [0..<length groups] plan s2
      \<and> ran groups plan (concat (bp_partitions plan)) (bp_output plan) r2 s2"
    if pl: "plan_groups clock rt provider limits policy groups [0..<length groups] empty_plan (s, w) = (Inr plan, s1, w1)"
      and rp: "run_partitions clock rt provider (batch_limit (p_capabilities provider) mx) limits policy groups plan
         (bp_partitions plan) (bp_output plan) (s1, w1) = Some (r2, s2, w2)" for plan s1 w1 r2 s2 w2
  proof -
    have s1: "rt_inv s1" "heap_grows s s1" "plan_inv groups [0..<length groups] plan s1" using planned [OF pl] by simp_all
    then have plan: "plan_refs_ok groups plan s1" "keys_ok groups plan" by (auto simp: plan_inv_def)
    then have "set (concat (bp_partitions plan)) \<subseteq> fst ` set (bp_leaders plan)" by (simp add: plan_refs_ok_def)
    then show ?thesis
      using run_partitions_sound [OF plan(2) sound judges rp s1(1) plan(1)] s1 plan_inv_grows heap_grows_trans by blast
  qed
  from run show ?thesis
  proof (cases rule: execute_batch_groups_cases)
    case refused
    then show ?thesis using s by simp
  next
    case unplanned
    then show ?thesis using planned by auto
  next
    case failed
    then show ?thesis using runs by auto
  next
    case (awaited plan s1 w1 out2 s2)
    note ran = runs [OF awaited(1,2)]
    have "rt_inv s' \<and> heap_grows s2 s' \<and> (\<forall>out. r = Inr out \<longrightarrow>
        (\<exists>vs. list_all2 (\<lambda>g. P (jg_identity g)) groups vs \<and> mset out = mset (expand groups vs)))"
      by (rule await_complete [OF awaited(3)]) (use ran in auto)
    then show ?thesis using ran heap_grows_trans by blast
  qed
qed

end

end
