(* ===== verification/Host.thy ===== *)
theory Host
  imports Batch_Soundness Metrics
begin

text \<open>
  The connection runtime, \<open>src/host/mod.rs\<close>: query lifecycle, counters, credential scopes, query
  entries, the pool of request permits, and the \<open>RuntimeAdapter\<close> that implements the executor's
  \<open>ExecutionRuntime\<close> over it. Each method runs under the connection's mutex, so it is a function of
  the runtime's state. The hash of \<open>RandomState\<close> and DuckDB's interrupt code are parameters;
  \<open>cr_next_scope\<close> is the process-wide \<open>NEXT_CONNECTION_SCOPE\<close>.
\<close>

section \<open>Data\<close>

datatype query_outcome = Succeeded | Failed | Cancelled

record query_snapshot =
  qs_query_id :: u64
  qs_outcome :: query_outcome
  qs_elapsed :: duration
  qs_counts :: query_counts
  qs_provider :: "string option"
  qs_requested_model :: "string option"
  qs_detailed_timing :: bool

record active_query =
  aq_query_id :: u64
  aq_started_at :: instant
  aq_cancelled :: flag_ref
  aq_counts :: query_counts
  aq_provider :: "string option"
  aq_requested_model :: "string option"
  aq_detailed_timing :: bool

record permit_state =
  ps_active :: usize
  ps_peak :: usize

text \<open>
  What the other threads of the process do to this runtime. A thread completes an entry only with
  the handle it got for that identity.
\<close>

datatype host_action =
    Act_Begin_Query instant
  | Act_End_Query u32 u32 instant
  | Act_Claim u64 judgment_identity
  | Act_Complete judgment_identity entry_ref "judgment_result result"
  | Act_Cache_Lookup "judgment_identity option" instant cache_policy
  | Act_Cache_Insert judgment_identity judgment_result instant cache_policy
  | Act_Credential u64 "string option"
  | Act_Take_Permit usize flag_ref
  | Act_Drop_Permit
  | Act_Take_Scope

text \<open>
  \<open>cr_pending\<close> is not in the code: it lists what the other threads do during each coming sleep of the
  thread under consideration.
\<close>

record connection_runtime = query_heap +
  cr_connection_scope :: u64
  cr_credential_scope :: u64
  cr_credential_fingerprint :: "u64 option"
  cr_credential_hasher :: "string \<Rightarrow> u64"
  cr_next_query_id :: u64
  cr_active_query :: "active_query option"
  cr_last_query :: "query_snapshot option"
  cr_query_entries :: "(judgment_identity \<times> entry_ref) list"
  cr_inflight :: permit_state
  cr_cache :: judgment_cache
  cr_next_scope :: u64
  cr_pending :: "host_action list list"

text \<open>\<open>fetch_add(1)\<close> on the process-wide counter, and \<open>ConnectionRuntime::default\<close>.\<close>

definition take_scope :: "connection_runtime \<Rightarrow> u64 \<times> connection_runtime" where
  "take_scope s = (cr_next_scope s, s\<lparr>cr_next_scope := cr_next_scope s + 1\<rparr>)"

definition default_runtime :: "u64 \<Rightarrow> (string \<Rightarrow> u64) \<Rightarrow> host_action list list \<Rightarrow> connection_runtime" where
  "default_runtime next_connection_scope hasher pending =
     \<lparr>qh_slots = (\<lambda>_. None), qh_next_entry = 0, qh_created_for = (\<lambda>_. undefined),
      qh_flags = (\<lambda>_. False), qh_next_flag = 0,
      cr_connection_scope = next_connection_scope, cr_credential_scope = next_connection_scope,
      cr_credential_fingerprint = None, cr_credential_hasher = hasher, cr_next_query_id = 0,
      cr_active_query = None, cr_last_query = None, cr_query_entries = [],
      cr_inflight = \<lparr>ps_active = 0, ps_peak = 0\<rparr>, cr_cache = default_cache,
      cr_next_scope = next_connection_scope + 1, cr_pending = pending\<rparr>"

section \<open>Query lifecycle\<close>

definition store_flag :: "flag_ref \<Rightarrow> bool \<Rightarrow> connection_runtime \<Rightarrow> connection_runtime" where
  "store_flag f b s = s\<lparr>qh_flags := (qh_flags s)(f := b)\<rparr>"

definition begin_query :: "instant \<Rightarrow> connection_runtime \<Rightarrow> connection_runtime" where
  "begin_query now s =
     (let s = (case cr_active_query s of
                 None \<Rightarrow> s
               | Some previous \<Rightarrow> store_flag (aq_cancelled previous) True (s\<lparr>cr_active_query := None\<rparr>));
          query_id = cr_next_query_id s;
          flag = qh_next_flag s;
          s = s\<lparr>cr_next_query_id := query_id + 1, cr_query_entries := [],
                qh_next_flag := Suc flag, qh_flags := (qh_flags s)(flag := False)\<rparr>
      in s\<lparr>cr_active_query := Some
             \<lparr>aq_query_id = query_id, aq_started_at = now, aq_cancelled = flag,
              aq_counts = default_counts, aq_provider = None, aq_requested_model = None,
              aq_detailed_timing = False\<rparr>\<rparr>)"

definition end_query :: "u32 \<Rightarrow> u32 \<Rightarrow> instant \<Rightarrow> connection_runtime \<Rightarrow> connection_runtime" where
  "end_query interrupt error_type now s =
     (case cr_active_query s of
        None \<Rightarrow> s
      | Some active \<Rightarrow>
          let s = store_flag (aq_cancelled active) True (s\<lparr>cr_active_query := None, cr_query_entries := []\<rparr>);
              outcome = (if error_type = interrupt then Cancelled
                         else if error_type = 0 then Succeeded else Failed)
          in if 0 < qc_input_rows (aq_counts active)
             then s\<lparr>cr_last_query := Some
                      \<lparr>qs_query_id = aq_query_id active, qs_outcome = outcome,
                       qs_elapsed = now - aq_started_at active, qs_counts = aq_counts active,
                       qs_provider = aq_provider active, qs_requested_model = aq_requested_model active,
                       qs_detailed_timing = aq_detailed_timing active\<rparr>\<rparr>
             else s)"

text \<open>The active query when it is the one named, as every recording method looks it up.\<close>

definition active_scope :: "u64 \<Rightarrow> connection_runtime \<Rightarrow> active_query option" where
  "active_scope scope s =
     (case cr_active_query s of
        None \<Rightarrow> None
      | Some query \<Rightarrow> if aq_query_id query = scope then Some query else None)"

definition update_query :: "u64 \<Rightarrow> (active_query \<Rightarrow> active_query) \<Rightarrow> connection_runtime \<Rightarrow> connection_runtime" where
  "update_query scope f s =
     (case active_scope scope s of None \<Rightarrow> s | Some query \<Rightarrow> s\<lparr>cr_active_query := Some (f query)\<rparr>)"

definition update_counts :: "u64 \<Rightarrow> (query_counts \<Rightarrow> query_counts) \<Rightarrow> connection_runtime \<Rightarrow> connection_runtime" where
  "update_counts scope f s = update_query scope (\<lambda>query. query\<lparr>aq_counts := f (aq_counts query)\<rparr>) s"

section \<open>Recording\<close>

definition get_or_insert :: "'a \<Rightarrow> 'a option \<Rightarrow> 'a option" where
  "get_or_insert v x = (case x of None \<Rightarrow> Some v | Some _ \<Rightarrow> x)"

definition record_profile_context :: "u64 \<Rightarrow> string \<Rightarrow> string \<Rightarrow> bool \<Rightarrow> connection_runtime \<Rightarrow> connection_runtime" where
  "record_profile_context scope provider requested_model detailed_timing =
     update_query scope (\<lambda>query. query
       \<lparr>aq_provider := get_or_insert provider (aq_provider query),
        aq_requested_model := get_or_insert requested_model (aq_requested_model query),
        aq_detailed_timing := (aq_detailed_timing query \<or> detailed_timing)\<rparr>)"

definition record_optimized_rows :: "u64 \<Rightarrow> usize \<Rightarrow> usize \<Rightarrow> usize \<Rightarrow> usize \<Rightarrow> connection_runtime \<Rightarrow> connection_runtime" where
  "record_optimized_rows scope input_rows null_rows valid_rows unique_judgments =
     update_counts scope (\<lambda>counts. counts
       \<lparr>qc_input_rows := sat_add (qc_input_rows counts) input_rows,
        qc_null_rows := sat_add (qc_null_rows counts) null_rows,
        qc_valid_rows := sat_add (qc_valid_rows counts) valid_rows,
        qc_deduplicated_rows := sat_add (qc_deduplicated_rows counts) (sat_sub valid_rows unique_judgments)\<rparr>)"

definition record_row_input :: "u64 \<Rightarrow> connection_runtime \<Rightarrow> connection_runtime" where
  "record_row_input scope =
     update_counts scope (\<lambda>counts. counts\<lparr>qc_input_rows := sat_add (qc_input_rows counts) 1\<rparr>)"

definition record_row_result :: "u64 \<Rightarrow> bool \<Rightarrow> connection_runtime \<Rightarrow> connection_runtime" where
  "record_row_result scope is_null =
     update_counts scope (\<lambda>counts.
       if is_null then counts\<lparr>qc_null_rows := sat_add (qc_null_rows counts) 1\<rparr>
       else counts\<lparr>qc_valid_rows := sat_add (qc_valid_rows counts) 1,
                   qc_unique_judgments := sat_add (qc_unique_judgments counts) 1\<rparr>)"

definition record_cache_hit :: "u64 \<Rightarrow> connection_runtime \<Rightarrow> connection_runtime" where
  "record_cache_hit scope =
     update_counts scope (\<lambda>counts. counts\<lparr>qc_cache_hit_judgments := sat_add (qc_cache_hit_judgments counts) 1\<rparr>)"

definition count_attempt :: "usize \<Rightarrow> bool \<Rightarrow> query_counts \<Rightarrow> query_counts" where
  "count_attempt batch_size external counts =
     (let counts = counts\<lparr>qc_provider_invocations := sat_add (qc_provider_invocations counts) 1\<rparr>
      in if external
         then let count = (case map_of (qc_batch_size_histogram counts) batch_size of None \<Rightarrow> 0 | Some n \<Rightarrow> n);
                  counts = counts
                    \<lparr>qc_external_requests := sat_add (qc_external_requests counts) 1,
                     qc_batch_size_histogram :=
                       omap_insert batch_size (sat_add count 1) (qc_batch_size_histogram counts)\<rparr>
              in if 1 < batch_size
                 then counts\<lparr>qc_batched_requests := sat_add (qc_batched_requests counts) 1\<rparr>
                 else counts
         else counts)"

definition record_provider_attempt :: "u64 \<Rightarrow> usize \<Rightarrow> bool \<Rightarrow> connection_runtime \<Rightarrow> connection_runtime" where
  "record_provider_attempt scope batch_size external = update_counts scope (count_attempt batch_size external)"

text \<open>The four parts of \<open>record_provider_response\<close>: timing, reported model, usage, inference time.\<close>

definition count_roundtrip :: "u128 \<Rightarrow> query_counts \<Rightarrow> query_counts" where
  "count_roundtrip ns counts = counts
     \<lparr>qc_external_roundtrip_ns := sat_add (qc_external_roundtrip_ns counts) ns,
      qc_external_roundtrip_count := sat_add (qc_external_roundtrip_count counts) 1\<rparr>"

definition count_response_timing :: "provider_metadata \<Rightarrow> duration \<Rightarrow> query_counts \<Rightarrow> query_counts" where
  "count_response_timing metadata elapsed counts =
     (let counts = count_roundtrip
            (case pm_external_roundtrip_ns metadata of
               Some ns \<Rightarrow> ucast ns | None \<Rightarrow> word_of_nat elapsed) counts
      in case pm_serialization_time_ns metadata of
           None \<Rightarrow> counts
         | Some ns \<Rightarrow> counts
             \<lparr>qc_serialization_time_ns := sat_add (qc_serialization_time_ns counts) (ucast ns),
              qc_serialization_observed_count := sat_add (qc_serialization_observed_count counts) 1\<rparr>)"

definition count_reported_model :: "provider_metadata \<Rightarrow> query_counts \<Rightarrow> query_counts" where
  "count_reported_model metadata counts =
     (case pm_effective_model metadata of
        None \<Rightarrow> counts
      | Some model \<Rightarrow>
          if is_blank model then counts
          else counts\<lparr>qc_reported_models := insort_insert model (qc_reported_models counts)\<rparr>)"

definition count_usage :: "provider_metadata \<Rightarrow> query_counts \<Rightarrow> query_counts" where
  "count_usage metadata counts =
     (let counts = counts\<lparr>qc_usage_response_count := sat_add (qc_usage_response_count counts) 1\<rparr>;
          missing = counts\<lparr>qc_usage_missing_count := sat_add (qc_usage_missing_count counts) 1\<rparr>
      in case pm_usage metadata of
           None \<Rightarrow> missing
         | Some usage \<Rightarrow>
             (case (pu_input_tokens usage, pu_output_tokens usage) of
                (Some input, Some out) \<Rightarrow> counts
                  \<lparr>qc_input_tokens := Some (sat_add (case qc_input_tokens counts of None \<Rightarrow> 0 | Some n \<Rightarrow> n) input),
                   qc_output_tokens := Some (sat_add (case qc_output_tokens counts of None \<Rightarrow> 0 | Some n \<Rightarrow> n) out)\<rparr>
              | _ \<Rightarrow> missing))"

definition count_inference :: "provider_metadata \<Rightarrow> query_counts \<Rightarrow> query_counts" where
  "count_inference metadata counts =
     (case pm_inference_time_ms metadata of
        Some milliseconds \<Rightarrow> counts
          \<lparr>qc_inference_time_ms := sat_add (qc_inference_time_ms counts) (ucast milliseconds),
           qc_inference_observed_count := sat_add (qc_inference_observed_count counts) 1\<rparr>
      | None \<Rightarrow> counts\<lparr>qc_inference_missing_count := sat_add (qc_inference_missing_count counts) 1\<rparr>)"

definition record_provider_response ::
  "u64 \<Rightarrow> provider_metadata \<Rightarrow> duration \<Rightarrow> bool \<Rightarrow> connection_runtime \<Rightarrow> connection_runtime" where
  "record_provider_response scope metadata elapsed external s =
     (case active_scope scope s of
        None \<Rightarrow> s
      | Some query \<Rightarrow>
          if \<not> external then s
          else update_counts scope (\<lambda>counts.
            count_inference metadata (count_usage metadata (count_reported_model metadata
              (if aq_detailed_timing query then count_response_timing metadata elapsed counts else counts)))) s)"

definition record_provider_failure :: "u64 \<Rightarrow> duration \<Rightarrow> bool \<Rightarrow> connection_runtime \<Rightarrow> connection_runtime" where
  "record_provider_failure scope elapsed external s =
     (case active_scope scope s of
        None \<Rightarrow> s
      | Some query \<Rightarrow>
          if external
          then update_counts scope (\<lambda>counts.
            let counts = counts
                  \<lparr>qc_usage_missing_count := sat_add (qc_usage_missing_count counts) 1,
                   qc_inference_missing_count := sat_add (qc_inference_missing_count counts) 1\<rparr>
            in if aq_detailed_timing query then count_roundtrip (word_of_nat elapsed) counts else counts) s
          else s)"

definition record_failed_request :: "u64 \<Rightarrow> connection_runtime \<Rightarrow> connection_runtime" where
  "record_failed_request scope =
     update_counts scope (\<lambda>counts. counts\<lparr>qc_failed_requests := sat_add (qc_failed_requests counts) 1\<rparr>)"

section \<open>Scopes, query entries and permits\<close>

definition identity_scopes :: "connection_runtime \<Rightarrow> u64 \<times> u64" where
  "identity_scopes s =
     (cr_connection_scope s,
      case cr_active_query s of Some query \<Rightarrow> aq_query_id query | None \<Rightarrow> cr_next_query_id s)"

definition credential_scope :: "u64 \<Rightarrow> string option \<Rightarrow> connection_runtime \<Rightarrow> u64 result \<times> connection_runtime" where
  "credential_scope scope credential s =
     (case active_scope scope s of
        None \<Rightarrow> (Inl (provider_error ''query execution is no longer active''), s)
      | Some _ \<Rightarrow>
          let fingerprint = map_option (cr_credential_hasher s) credential
          in if fingerprint \<noteq> cr_credential_fingerprint s
             then let (fresh, s) = take_scope (s\<lparr>cr_credential_fingerprint := fingerprint\<rparr>);
                      s = s\<lparr>cr_credential_scope := fresh, cr_cache := snd (cache_clear (cr_cache s))\<rparr>
                  in (Inr (cr_credential_scope s), s)
             else (Inr (cr_credential_scope s), s))"

definition claim_query_entry ::
  "u64 \<Rightarrow> judgment_identity \<Rightarrow> connection_runtime \<Rightarrow> (entry_ref \<times> bool) result \<times> connection_runtime" where
  "claim_query_entry scope identity s =
     (case active_scope scope s of
        None \<Rightarrow> (Inl (provider_error ''query execution is no longer active''), s)
      | Some active \<Rightarrow>
          if qh_flags s (aq_cancelled active)
          then (Inl (provider_error ''query was cancelled''), s)
          else case map_of (cr_query_entries s) identity of
            Some entry \<Rightarrow>
              (Inr (entry, False),
               update_counts scope (\<lambda>counts. counts\<lparr>qc_deduplicated_rows := sat_add (qc_deduplicated_rows counts) 1\<rparr>) s)
          | None \<Rightarrow>
              let s = update_counts scope (\<lambda>counts. counts\<lparr>qc_unique_judgments := sat_add (qc_unique_judgments counts) 1\<rparr>) s;
                  (entry, s) = new_query_entry identity s
              in (Inr (entry, True), s\<lparr>cr_query_entries := alist_put identity entry (cr_query_entries s)\<rparr>))"

definition query_cancellation :: "u64 \<Rightarrow> connection_runtime \<Rightarrow> flag_ref result \<times> connection_runtime" where
  "query_cancellation scope s =
     (case active_scope scope s of
        None \<Rightarrow> (Inl (provider_error ''query execution is no longer active''), s)
      | Some query \<Rightarrow> (Inr (aq_cancelled query), s))"

definition take_permit :: "permit_state \<Rightarrow> permit_state" where
  "take_permit ps = (let active = ps_active ps + 1 in \<lparr>ps_active = active, ps_peak = max (ps_peak ps) active\<rparr>)"

definition drop_permit :: "connection_runtime \<Rightarrow> connection_runtime" where
  "drop_permit s = s\<lparr>cr_inflight := (cr_inflight s)\<lparr>ps_active := sat_sub (ps_active (cr_inflight s)) 1\<rparr>\<rparr>"

partial_function (option) acquire_loop ::
  "(connection_runtime \<Rightarrow> connection_runtime) \<Rightarrow> usize \<Rightarrow> flag_ref \<Rightarrow> connection_runtime
   \<Rightarrow> (permit result \<times> connection_runtime) option" where
  "acquire_loop others max_inflight cancelled s =
     (if qh_flags s cancelled
      then Some (Inl (provider_error ''query was cancelled while waiting for an external request slot''), s)
      else if ps_active (cr_inflight s) < max_inflight
      then Some (Inr 0, s\<lparr>cr_inflight := take_permit (cr_inflight s)\<rparr>)
      else acquire_loop others max_inflight cancelled (others s))"

lemma acquire_loop_code [code]:
  "acquire_loop others max_inflight cancelled s =
     (case qh_flags s cancelled of
        True \<Rightarrow> Some (Inl (provider_error ''query was cancelled while waiting for an external request slot''), s)
      | False \<Rightarrow>
          (case ps_active (cr_inflight s) < max_inflight of
             True \<Rightarrow> Some (Inr 0, s\<lparr>cr_inflight := take_permit (cr_inflight s)\<rparr>)
           | False \<Rightarrow> acquire_loop others max_inflight cancelled (others s)))"
  by (subst acquire_loop.simps) (simp split: bool.split)

definition pool_acquire ::
  "(connection_runtime \<Rightarrow> connection_runtime) \<Rightarrow> usize \<Rightarrow> flag_ref \<Rightarrow> connection_runtime
   \<Rightarrow> (permit result \<times> connection_runtime) option" where
  "pool_acquire others max_inflight cancelled s =
     (if max_inflight = 0 then Some (Inl (configuration ''duckjeu_max_inflight must be positive''), s)
      else acquire_loop others max_inflight cancelled s)"

definition acquire_request_permit ::
  "(connection_runtime \<Rightarrow> connection_runtime) \<Rightarrow> u64 \<Rightarrow> usize \<Rightarrow> connection_runtime
   \<Rightarrow> (permit result \<times> connection_runtime) option" where
  "acquire_request_permit others scope max_inflight s =
     (case query_cancellation scope s of
        (Inl e, s) \<Rightarrow> Some (Inl e, s)
      | (Inr cancelled, s) \<Rightarrow> pool_acquire others max_inflight cancelled s)"

section \<open>The adapter\<close>

definition adapter_cache_lookup ::
  "judgment_identity option \<Rightarrow> instant \<Rightarrow> cache_policy \<Rightarrow> connection_runtime
   \<Rightarrow> judgment_result option \<times> connection_runtime" where
  "adapter_cache_lookup identity now policy s =
     (case reconcile_policy now policy (cr_cache s) of
        (False, cache) \<Rightarrow> (None, s\<lparr>cr_cache := cache\<rparr>)
      | (True, cache) \<Rightarrow>
          (case identity of
             None \<Rightarrow> (None, s\<lparr>cr_cache := cache\<rparr>)
           | Some k \<Rightarrow> let (r, cache) = cache_lookup k now cache in (r, s\<lparr>cr_cache := cache\<rparr>)))"

definition adapter_cache_insert ::
  "judgment_identity \<Rightarrow> judgment_result \<Rightarrow> instant \<Rightarrow> cache_policy \<Rightarrow> connection_runtime \<Rightarrow> connection_runtime" where
  "adapter_cache_insert k r now policy s =
     s\<lparr>cr_cache := snd (insert_success k r now policy (cr_cache s))\<rparr>"

fun apply_action :: "connection_runtime \<Rightarrow> host_action \<Rightarrow> connection_runtime" where
  "apply_action s (Act_Begin_Query now) = begin_query now s"
| "apply_action s (Act_End_Query interrupt error_type now) = end_query interrupt error_type now s"
| "apply_action s (Act_Claim scope k) = snd (claim_query_entry scope k s)"
| "apply_action s (Act_Complete k e r) =
     (if e < qh_next_entry s \<and> qh_created_for s e = k then complete r e s else s)"
| "apply_action s (Act_Cache_Lookup k now policy) = snd (adapter_cache_lookup k now policy s)"
| "apply_action s (Act_Cache_Insert k r now policy) = adapter_cache_insert k r now policy s"
| "apply_action s (Act_Credential scope credential) = snd (credential_scope scope credential s)"
| "apply_action s (Act_Take_Permit max_inflight cancelled) =
     (if \<not> qh_flags s cancelled \<and> ps_active (cr_inflight s) < max_inflight
      then s\<lparr>cr_inflight := take_permit (cr_inflight s)\<rparr> else s)"
| "apply_action s Act_Drop_Permit = drop_permit s"
| "apply_action s Act_Take_Scope = snd (take_scope s)"

definition other_threads :: "connection_runtime \<Rightarrow> connection_runtime" where
  "other_threads s =
     (case cr_pending s of
        [] \<Rightarrow> s
      | actions # pending \<Rightarrow> foldl apply_action (s\<lparr>cr_pending := pending\<rparr>) actions)"

definition host_ops :: "connection_runtime runtime_ops" where
  "host_ops =
     \<lparr>rt_claim_query_entry = claim_query_entry,
      rt_query_cancellation = query_cancellation,
      rt_record_cache_hit = record_cache_hit,
      rt_record_provider_attempt = record_provider_attempt,
      rt_record_failed_request = record_failed_request,
      rt_record_provider_response = record_provider_response,
      rt_record_provider_failure = record_provider_failure,
      rt_cache_lookup = adapter_cache_lookup,
      rt_cache_insert = adapter_cache_insert,
      rt_acquire_permit = acquire_request_permit other_threads,
      rt_release_permit = (\<lambda>_. drop_permit),
      rt_others = other_threads\<rparr>"

end
