(* ===== verification/Functions.thy ===== *)
theory Functions
  imports Vectors Host Batch_Executor
begin

text \<open>
  Evaluating the SQL functions, the second half of \<open>src/functions/mod.rs\<close>: what an execution freezes at
  its start, the row evaluator, the optimized evaluator, and the publication of results. The state is
  the connection runtime (when the extension is attached to one), the two process-wide counters, and
  the outside world; an output vector is a map from rows to cells. None means a call never returns.
\<close>

section \<open>The frozen execution state\<close>

record 'w execution_state =
  es_context :: provider_context
  es_provider :: "string + 'w provider"
  es_connected :: bool
  es_runtime_config :: "string + runtime_config"

definition with_runtime :: "bool \<Rightarrow> (connection_runtime \<Rightarrow> connection_runtime) \<Rightarrow> connection_runtime \<Rightarrow> connection_runtime" where
  "with_runtime connected f s = (if connected then f s else s)"

definition init_state ::
  "'w services \<Rightarrow> environment \<Rightarrow> client_context option \<Rightarrow> bool \<Rightarrow> 'w execution_state" where
  "init_state sv env context connected =
     (case read_provider_context env context of
        Inr ctx \<Rightarrow>
          \<lparr>es_context = ctx,
           es_provider = (case provider_for sv ctx of Inl e \<Rightarrow> Inl (je_message e) | Inr p \<Rightarrow> Inr p),
           es_connected = connected, es_runtime_config = read_runtime_config context\<rparr>
      | Inl message \<Rightarrow>
          \<lparr>es_context = default_context, es_provider = Inl message,
           es_connected = connected, es_runtime_config = read_runtime_config context\<rparr>)"

definition init ::
  "'w services \<Rightarrow> environment \<Rightarrow> client_context option \<Rightarrow> bool \<Rightarrow> connection_runtime
   \<Rightarrow> 'w execution_state \<times> connection_runtime" where
  "init sv env context connected s =
     (let state = init_state sv env context connected;
          detailed_timing = (case es_runtime_config state of Inl _ \<Rightarrow> False | Inr c \<Rightarrow> rc_profile_enabled c);
          query_scope = snd (identity_scopes s)
      in (state, with_runtime connected
            (record_profile_context query_scope (kind_as_str (px_provider (es_context state)))
               (px_model (es_context state)) detailed_timing) s))"

section \<open>Output\<close>

datatype cell = Cell_Null | Cell_Double f64 | Cell_Boolean bool | Cell_String string | Cell_Bigint "64 word"

type_synonym out_vector = "nat \<Rightarrow> cell option"

definition set_output_null :: "out_vector \<Rightarrow> nat \<Rightarrow> out_vector" where
  "set_output_null out row = out(row \<mapsto> Cell_Null)"

definition write_result :: "function_kind \<Rightarrow> out_vector \<Rightarrow> nat \<Rightarrow> judgment_result \<Rightarrow> out_vector" where
  "write_result kind out row r =
     (case (kind, r) of
        (Fn_Prob, Noul probability) \<Rightarrow> out(row \<mapsto> Cell_Double probability)
      | (Fn_Bool, Noul probability) \<Rightarrow> out(row \<mapsto> Cell_Boolean (bool_from_probability probability))
      | (Fn_Choice, Choice label) \<Rightarrow> out(row \<mapsto> Cell_String label)
      | _ \<Rightarrow> out)"

text \<open>The message DuckDB receives: a C string, so NUL bytes become spaces.\<close>

definition set_error :: "string \<Rightarrow> string" where
  "set_error message = map (\<lambda>c. if byte_of c = 0 then CHR '' '' else c) message"

section \<open>One row at a time\<close>

definition choices_exceed :: "provider_capabilities \<Rightarrow> judgment_request \<Rightarrow> bool" where
  "choices_exceed capabilities request \<longleftrightarrow>
     (case pc_max_choices capabilities of
        None \<Rightarrow> False
      | Some limit \<Rightarrow> rq_kind request = Kind_Choice \<and> unat limit < length (rq_choices request))"

text \<open>
  The checks of \<open>evaluate_row\<close> that precede the call; a row that needs no judgment passes them all.
\<close>

definition row_provider :: "'w execution_state \<Rightarrow> judgment_request \<Rightarrow> (runtime_config \<times> 'w provider) result" where
  "row_provider state request =
     (case es_runtime_config state of
        Inl message \<Rightarrow> Inl (configuration message)
      | Inr config \<Rightarrow>
          if rc_mode config \<noteq> Row
          then Inl (configuration ''internal error: optimized execution reached the row evaluator'')
          else case es_provider state of
            Inl message \<Rightarrow> Inl (configuration message)
          | Inr provider \<Rightarrow>
              let capabilities = p_capabilities provider
              in if supports capabilities (rq_kind request) \<noteq> Verified
                 then Inl (configuration ''provider does not verify support for this judgment type'')
                 else if choices_exceed capabilities request
                 then Inl (configuration ''choice count exceeds the verified provider limit'')
                 else Inr (config, provider))"

text \<open>From the acquired permit on; \<open>release\<close> drops it on every return.\<close>

definition judge_row ::
  "('w \<Rightarrow> instant \<times> 'w) \<Rightarrow> bool \<Rightarrow> u64 \<Rightarrow> 'w provider \<Rightarrow> judgment_request
   \<Rightarrow> connection_runtime \<times> 'w \<Rightarrow> judgment_result option result \<times> connection_runtime \<times> 'w" where
  "judge_row clock connected query_scope provider request = (\<lambda>(s, w).
     let external = p_makes_external_request provider;
         s = with_runtime connected (record_provider_attempt query_scope 1 external) s;
         (started, w) = clock w;
         (response, w) = p_judge_with_metadata provider request w;
         (ended, w) = clock w;
         elapsed = ended - started;
         release = with_runtime connected drop_permit
     in case response of
       Inr response \<Rightarrow>
         let s = with_runtime connected
                   (record_provider_response query_scope (br_metadata response) elapsed external) s
         in (result_bind (validate_batch_result [request] response) (\<lambda>_.
               case br_answers response of
                 [] \<Rightarrow> Inl (invalid_response ''provider returned no answer'')
               | answer # _ \<Rightarrow> Inr (Some (pa_result answer))), release s, w)
     | Inl error \<Rightarrow>
         let s = (if external
                  then with_runtime connected (\<lambda>s.
                    record_provider_failure query_scope elapsed external (record_failed_request query_scope s)) s
                  else s)
         in (Inl error, release s, w))"

definition evaluate_row ::
  "('w \<Rightarrow> instant \<times> 'w) \<Rightarrow> text_codec \<Rightarrow> function_kind \<Rightarrow> 'w execution_state \<Rightarrow> u64 \<Rightarrow> data_chunk \<Rightarrow> nat
   \<Rightarrow> connection_runtime \<times> 'w \<Rightarrow> (judgment_result option result \<times> connection_runtime \<times> 'w) option" where
  "evaluate_row clock codec kind state query_scope input row = (\<lambda>(s, w).
     case read_request codec kind input row of
       Inl e \<Rightarrow> Some (Inl e, s, w)
     | Inr None \<Rightarrow> Some (Inr None, s, w)
     | Inr (Some request) \<Rightarrow>
         (case row_provider state request of
           Inl e \<Rightarrow> Some (Inl e, s, w)
         | Inr (config, provider) \<Rightarrow>
             if es_connected state
             then (case acquire_request_permit other_threads query_scope (rc_max_inflight config) s of
                     None \<Rightarrow> None
                   | Some (Inl e, s) \<Rightarrow> Some (Inl e, s, w)
                   | Some (Inr _, s) \<Rightarrow> Some (judge_row clock True query_scope provider request (s, w)))
             else Some (judge_row clock False query_scope provider request (s, w))))"

fun run_rows ::
  "('w \<Rightarrow> instant \<times> 'w) \<Rightarrow> text_codec \<Rightarrow> function_kind \<Rightarrow> 'w execution_state \<Rightarrow> u64 \<Rightarrow> data_chunk \<Rightarrow> nat list
   \<Rightarrow> out_vector \<Rightarrow> connection_runtime \<times> 'w \<Rightarrow> (unit result \<times> out_vector \<times> connection_runtime \<times> 'w) option" where
  "run_rows clock codec kind state query_scope input [] out (s, w) = Some (Inr (), out, s, w)"
| "run_rows clock codec kind state query_scope input (row # rows) out (s, w) =
     (let s = with_runtime (es_connected state) (record_row_input query_scope) s
      in case evaluate_row clock codec kind state query_scope input row (s, w) of
        None \<Rightarrow> None
      | Some (Inl error, s, w) \<Rightarrow> Some (Inl error, out, s, w)
      | Some (Inr None, s, w) \<Rightarrow>
          run_rows clock codec kind state query_scope input rows (set_output_null out row)
            (with_runtime (es_connected state) (record_row_result query_scope True) s, w)
      | Some (Inr (Some r), s, w) \<Rightarrow>
          run_rows clock codec kind state query_scope input rows (write_result kind out row r)
            (with_runtime (es_connected state) (record_row_result query_scope False) s, w))"

section \<open>A whole chunk\<close>

text \<open>The process-wide counters \<open>NEXT_FUNCTION_INVOCATION\<close> and \<open>NEXT_DATA_CHUNK\<close>.\<close>

record function_counters =
  fc_invocation :: u64
  fc_chunk :: u64

definition cache_policy_of :: "runtime_config \<Rightarrow> cache_policy option" where
  "cache_policy_of config =
     (if rc_cache_enabled config
      then Some \<lparr>cp_max_entries = rc_cache_max_entries config, cp_max_bytes = rc_cache_max_bytes config,
                 cp_ttl = unat (rc_cache_ttl_ms config) * 1000000\<rparr>
      else None)"

definition identity_context_of :: "provider_context \<Rightarrow> u64 \<Rightarrow> u64 \<Rightarrow> identity_context" where
  "identity_context_of ctx credentials query_scope =
     \<lparr>ic_provider_namespace = kind_as_str (px_provider ctx), ic_endpoint = px_api_url ctx,
      ic_requested_model = px_model ctx, ic_effective_model = None,
      ic_credential_scope = credentials, ic_model_binding_scope = query_scope\<rparr>"

text \<open>The loop that reads every row of the chunk into work items and counts NULL rows.\<close>

fun collect_work ::
  "text_codec \<Rightarrow> function_kind \<Rightarrow> data_chunk \<Rightarrow> identity_context \<Rightarrow> u64 \<Rightarrow> u64 \<Rightarrow> nat list
   \<Rightarrow> judgment_work list \<times> nat \<Rightarrow> (judgment_work list \<times> nat) result" where
  "collect_work codec kind input context invocation chunk [] (work, null_rows) = Inr (work, null_rows)"
| "collect_work codec kind input context invocation chunk (row # rows) (work, null_rows) =
     result_bind (read_request codec kind input row) (\<lambda>request.
       case request of
         Some request \<Rightarrow>
           collect_work codec kind input context invocation chunk rows
             (work @ [\<lparr>jw_identity = new_identity request context, jw_request = request,
                       jw_target = \<lparr>tg_function_invocation = invocation, tg_data_chunk = chunk,
                                    tg_row = usize_of row\<rparr>\<rparr>], null_rows)
       | None \<Rightarrow>
           collect_work codec kind input context invocation chunk rows (work, Suc null_rows))"

text \<open>The choice between batching and executing one by one.\<close>

definition execute_work ::
  "('w \<Rightarrow> instant \<times> 'w) \<Rightarrow> runtime_config \<Rightarrow> 'w provider \<Rightarrow> u64 \<Rightarrow> judgment_group list
   \<Rightarrow> connection_runtime \<times> 'w \<Rightarrow> (row_results result \<times> connection_runtime \<times> 'w) option" where
  "execute_work clock config provider query_scope groups =
     (let limits = \<lparr>el_query_scope = query_scope, el_max_inflight = rc_max_inflight config,
                    el_max_request_bytes = rc_max_request_bytes config\<rparr>
      in if rc_batch_enabled config
         then execute_batch_groups groups clock provider host_ops (rc_batch_max_judgments config) limits
                (cache_policy_of config)
         else execute_groups groups clock provider host_ops limits (cache_policy_of config))"

text \<open>\<open>results_by_row\<close> as a map; every target's row is a row of this chunk.\<close>

fun put_row :: "(nat \<Rightarrow> judgment_result option) \<Rightarrow> row_target \<times> judgment_result \<Rightarrow> nat \<Rightarrow> judgment_result option" where
  "put_row m (target, r) = m(unat (tg_row target) \<mapsto> r)"

definition results_by_row :: "row_results \<Rightarrow> nat \<Rightarrow> judgment_result option" where
  "results_by_row executed = foldl put_row (\<lambda>_. None) executed"

fun publish_rows ::
  "function_kind \<Rightarrow> (nat \<Rightarrow> judgment_result option) \<Rightarrow> nat list \<Rightarrow> out_vector \<Rightarrow> out_vector" where
  "publish_rows kind results [] out = out"
| "publish_rows kind results (row # rows) out =
     publish_rows kind results rows
       (case results row of Some r \<Rightarrow> write_result kind out row r | None \<Rightarrow> set_output_null out row)"

text \<open>From the grouped work on, and the whole function.\<close>

definition run_groups ::
  "('w \<Rightarrow> instant \<times> 'w) \<Rightarrow> runtime_config \<Rightarrow> 'w execution_state \<Rightarrow> u64 \<Rightarrow> judgment_group list
   \<Rightarrow> connection_runtime \<times> 'w \<Rightarrow> (row_results result \<times> connection_runtime \<times> 'w) option" where
  "run_groups clock config state query_scope groups = (\<lambda>(s, w).
     if groups = [] then Some (Inr [], s, w)
     else case es_provider state of
       Inl message \<Rightarrow> Some (Inl (configuration message), s, w)
     | Inr provider \<Rightarrow> execute_work clock config provider query_scope groups (s, w))"

definition run_optimized ::
  "('w \<Rightarrow> instant \<times> 'w) \<Rightarrow> text_codec \<Rightarrow> function_kind \<Rightarrow> data_chunk \<Rightarrow> 'w execution_state \<Rightarrow> nat
   \<Rightarrow> function_counters \<Rightarrow> out_vector \<Rightarrow> connection_runtime \<times> 'w
   \<Rightarrow> (unit result \<times> out_vector \<times> function_counters \<times> connection_runtime \<times> 'w) option" where
  "run_optimized clock codec kind input state row_count counters out = (\<lambda>(s, w).
     case es_runtime_config state of
       Inl message \<Rightarrow> Some (Inl (configuration message), out, counters, s, w)
     | Inr config \<Rightarrow>
         if rc_mode config \<noteq> Optimized
         then Some (Inl (configuration ''internal error: optimized execution has row configuration''),
                    out, counters, s, w)
         else if \<not> es_connected state
         then Some (Inl (configuration ''optimized execution requires the DuckDB v1.5.5 connection bridge''),
                    out, counters, s, w)
         else
           let query_scope = snd (identity_scopes s)
           in case credential_scope query_scope (px_credential (es_context state)) s of
             (Inl e, s) \<Rightarrow> Some (Inl e, out, counters, s, w)
           | (Inr scope, s) \<Rightarrow>
               let s = record_optimized_rows query_scope (usize_of row_count) 0 0 0 s;
                   invocation = fc_invocation counters;
                   chunk = fc_chunk counters;
                   counters = \<lparr>fc_invocation = invocation + 1, fc_chunk = chunk + 1\<rparr>
               in case collect_work codec kind input (identity_context_of (es_context state) scope query_scope)
                         invocation chunk [0..<row_count] ([], 0) of
                 Inl e \<Rightarrow> Some (Inl e, out, counters, s, w)
               | Inr (work, null_rows) \<Rightarrow>
                   let groups = group_by_identity work;
                       s = record_optimized_rows query_scope 0 (usize_of null_rows) (usize_of (length work))
                             (usize_of (length groups)) s
                   in case run_groups clock config state query_scope groups (s, w) of
                     None \<Rightarrow> None
                   | Some (Inl e, s, w) \<Rightarrow> Some (Inl e, out, counters, s, w)
                   | Some (Inr executed, s, w) \<Rightarrow>
                       Some (Inr (), publish_rows kind (results_by_row executed) [0..<row_count] out,
                             counters, s, w))"

text \<open>The callback: the error DuckDB is given, and what was written.\<close>

definition run ::
  "('w \<Rightarrow> instant \<times> 'w) \<Rightarrow> text_codec \<Rightarrow> function_kind \<Rightarrow> 'w execution_state option \<Rightarrow> data_chunk
   \<Rightarrow> function_counters \<Rightarrow> out_vector \<Rightarrow> connection_runtime \<times> 'w
   \<Rightarrow> (string option \<times> out_vector \<times> function_counters \<times> connection_runtime \<times> 'w) option" where
  "run clock codec kind state_ptr input counters out = (\<lambda>(s, w).
     case state_ptr of
       None \<Rightarrow> Some (Some (set_error ''internal error: execution state is missing''), out, counters, s, w)
     | Some state \<Rightarrow>
         let row_count = unat (dc_size input)
         in if (case es_runtime_config state of Inl _ \<Rightarrow> False | Inr config \<Rightarrow> rc_mode config = Optimized)
            then (case run_optimized clock codec kind input state row_count counters out (s, w) of
                    None \<Rightarrow> None
                  | Some (r, out, counters, s, w) \<Rightarrow>
                      Some (case r of Inl e \<Rightarrow> Some (set_error (je_message e)) | Inr _ \<Rightarrow> None, out, counters, s, w))
            else (case run_rows clock codec kind state (snd (identity_scopes s)) input [0..<row_count] out (s, w) of
                    None \<Rightarrow> None
                  | Some (r, out, s, w) \<Rightarrow>
                      Some (case r of Inl e \<Rightarrow> Some (set_error (je_message e)) | Inr _ \<Rightarrow> None, out, counters, s, w)))"

section \<open>Clearing the cache and reading the last profile\<close>

text \<open>
  \<open>src/functions/cache_clear.rs\<close>: the policy frozen at the start, and the number cached in the state
  after the first clearing, which every row of every chunk then gets.
\<close>

fun fill_rows :: "cell \<Rightarrow> nat list \<Rightarrow> out_vector \<Rightarrow> out_vector" where
  "fill_rows c [] out = out"
| "fill_rows c (row # rows) out = fill_rows c rows (out(row \<mapsto> c))"

record clear_state =
  cl_connected :: bool
  cl_cache_policy :: "cache_policy option"
  cl_result :: "64 word option"

definition clear_init :: "client_context option \<Rightarrow> bool \<Rightarrow> clear_state" where
  "clear_init context connected =
     \<lparr>cl_connected = connected,
      cl_cache_policy = (case read_runtime_config context of Inl _ \<Rightarrow> None | Inr config \<Rightarrow> cache_policy_of config),
      cl_result = None\<rparr>"

text \<open>The output's data pointer may be null, in which case the cache has been cleared nonetheless.\<close>

definition clear_eval ::
  "('w \<Rightarrow> instant \<times> 'w) \<Rightarrow> clear_state option \<Rightarrow> data_chunk \<Rightarrow> bool \<Rightarrow> out_vector \<Rightarrow> connection_runtime \<times> 'w
   \<Rightarrow> string option \<times> out_vector \<times> clear_state option \<times> connection_runtime \<times> 'w" where
  "clear_eval clock state_ptr input out_data out = (\<lambda>(s, w).
     case state_ptr of
       None \<Rightarrow> (Some (set_error ''internal error: cache clear state is missing''), out, None, s, w)
     | Some state \<Rightarrow>
         if \<not> cl_connected state
         then (Some (set_error ''duckjeu_cache_clear requires the DuckDB v1.5.5 connection bridge''),
               out, Some state, s, w)
         else
           let (removed, state, s, w) =
             (case cl_result state of
                Some removed \<Rightarrow> (removed, state, s, w)
              | None \<Rightarrow>
                  let (cache, w) = (case cl_cache_policy state of
                        None \<Rightarrow> (cr_cache s, w)
                      | Some policy \<Rightarrow>
                          let (now, w) = clock w in (snd (reconcile_policy now policy (cr_cache s)), w));
                      (removed, cache) = cache_clear cache;
                      n = (if removed < 2 ^ 63 then word_of_nat removed else 2 ^ 63 - 1)
                  in (n, state\<lparr>cl_result := Some n\<rparr>, s\<lparr>cr_cache := cache\<rparr>, w))
           in if \<not> out_data
              then (Some (set_error ''internal error: cache clear output vector is unavailable''),
                    out, Some state, s, w)
              else (None, fill_rows (Cell_Bigint removed) [0..<unat (dc_size input)] out, Some state, s, w))"

text \<open>\<open>src/functions/profile.rs\<close>: the latest snapshot, printed into every row, or NULL when there is none.\<close>

definition profile_status :: "query_outcome \<Rightarrow> string" where
  "profile_status outcome =
     (case outcome of Succeeded \<Rightarrow> ''completed'' | Failed \<Rightarrow> ''failed'' | Cancelled \<Rightarrow> ''cancelled'')"

definition profile_of :: "query_snapshot \<Rightarrow> json" where
  "profile_of snapshot = render_profile
     \<lparr>pr_status = profile_status (qs_outcome snapshot), pr_provider = qs_provider snapshot,
      pr_requested_model = qs_requested_model snapshot, pr_counts = qs_counts snapshot,
      pr_elapsed = qs_elapsed snapshot, pr_detailed_timing = qs_detailed_timing snapshot\<rparr>"

definition profile_eval ::
  "(json \<Rightarrow> string option) \<Rightarrow> bool option \<Rightarrow> data_chunk \<Rightarrow> out_vector \<Rightarrow> connection_runtime
   \<Rightarrow> string option \<times> out_vector" where
  "profile_eval to_string state_ptr input out s =
     (case state_ptr of
        None \<Rightarrow> (Some (set_error ''internal error: profile state is missing''), out)
      | Some connected \<Rightarrow>
          let rows = [0..<unat (dc_size input)]
          in case (if connected then cr_last_query s else None) of
               None \<Rightarrow> (None, fill_rows Cell_Null rows out)
             | Some snapshot \<Rightarrow>
                 (case to_string (profile_of snapshot) of
                    None \<Rightarrow> (Some (set_error ''execution profile could not be serialized''), out)
                  | Some profile \<Rightarrow> (None, fill_rows (Cell_String profile) rows out)))"

end
