(* ===== verification/Host_Runtime.thy ===== *)
theory Host_Runtime
  imports Host
begin

text \<open>
  The connection runtime provides the executor's interface: the invariant \<open>host_inv\<close> of its state, its
  preservation by every operation and by the other threads, and the interpretations of
  \<open>judgment_runtime\<close> on \<open>host_ops\<close>.
\<close>

section \<open>The invariant\<close>

fun action_ok :: "(judgment_identity \<Rightarrow> judgment_result \<Rightarrow> bool) \<Rightarrow> host_action \<Rightarrow> bool" where
  "action_ok P (Act_Complete k e r) \<longleftrightarrow> (\<forall>v. r = Inr v \<longrightarrow> P k v)"
| "action_ok P (Act_Cache_Insert k r now policy) \<longleftrightarrow> P k r"
| "action_ok P _ \<longleftrightarrow> True"

definition host_inv :: "(judgment_identity \<Rightarrow> judgment_result \<Rightarrow> bool) \<Rightarrow> connection_runtime \<Rightarrow> bool" where
  "host_inv P s \<longleftrightarrow>
     (\<forall>e < qh_next_entry s. \<forall>v. qh_slots s e = Some (Inr v) \<longrightarrow> P (qh_created_for s e) v)
     \<and> (\<forall>k v. cache_holds (cr_cache s) k v \<longrightarrow> P k v)
     \<and> (\<forall>(k, e) \<in> set (cr_query_entries s). allocated_for s e k)
     \<and> (\<forall>actions \<in> set (cr_pending s). \<forall>a \<in> set actions. action_ok P a)"

lemma host_inv_default:
  "(\<forall>actions \<in> set pending. \<forall>a \<in> set actions. action_ok P a) \<Longrightarrow> host_inv P (default_runtime n h pending)"
  by (simp add: host_inv_def default_runtime_def default_cache_def cache_holds_def)

text \<open>An operation that leaves the entries, the cache and the registry alone keeps the invariant.\<close>

lemma host_frame:
  assumes "qh_slots s' = qh_slots s" "qh_next_entry s' = qh_next_entry s" "qh_created_for s' = qh_created_for s"
    and "set (cr_query_entries s') \<subseteq> set (cr_query_entries s)" "set (cr_pending s') \<subseteq> set (cr_pending s)"
    and "\<And>k v. cache_holds (cr_cache s') k v \<Longrightarrow> cache_holds (cr_cache s) k v" "host_inv P s"
  shows "host_inv P s' \<and> heap_grows s s'"
  using assms by (auto simp: host_inv_def heap_grows_def allocated_for_def)

lemma keeps_update_query: "keeps (host_inv P) (update_query scope f)"
  unfolding keeps_def by (intro allI impI host_frame) (auto simp: update_query_def split: option.splits)

lemma keeps_update_counts: "keeps (host_inv P) (update_counts scope f)"
  using keeps_update_query by (simp add: update_counts_def keeps_def)

lemma keeps_id: "keeps I (\<lambda>s. s)"
  by (simp add: keeps_def)

lemma keeps_comp: "keeps I f \<Longrightarrow> keeps I g \<Longrightarrow> keeps I (\<lambda>s. g (f s))"
  by (auto simp: keeps_def intro: heap_grows_trans)

text \<open>The recording operations.\<close>

lemma keeps_records:
  "keeps (host_inv P) (record_profile_context scope p m t)"
  "keeps (host_inv P) (record_optimized_rows scope a b c d)"
  "keeps (host_inv P) (record_row_input scope)"
  "keeps (host_inv P) (record_row_result scope is_null)"
  "keeps (host_inv P) (record_cache_hit scope)"
  "keeps (host_inv P) (record_provider_attempt scope n external)"
  "keeps (host_inv P) (record_failed_request scope)"
  by (simp_all only: record_profile_context_def record_optimized_rows_def record_row_input_def
      record_row_result_def record_cache_hit_def record_provider_attempt_def record_failed_request_def
      keeps_update_counts keeps_update_query)

lemma keeps_response: "keeps (host_inv P) (record_provider_response scope metadata d external)"
  using keeps_update_counts unfolding keeps_def record_provider_response_def
  by (auto split: option.splits)

lemma keeps_failure: "keeps (host_inv P) (record_provider_failure scope d external)"
  using keeps_update_counts unfolding keeps_def record_provider_failure_def
  by (auto split: option.splits)

text \<open>The lifecycle, scopes and permits.\<close>

lemma begin_query_fields:
  "qh_slots (begin_query now s) = qh_slots s" "qh_next_entry (begin_query now s) = qh_next_entry s"
  "qh_created_for (begin_query now s) = qh_created_for s" "cr_query_entries (begin_query now s) = []"
  "cr_pending (begin_query now s) = cr_pending s" "cr_cache (begin_query now s) = cr_cache s"
  by (simp_all add: begin_query_def store_flag_def Let_def split: option.splits)

lemma end_query_fields:
  "qh_slots (end_query i e now s) = qh_slots s" "qh_next_entry (end_query i e now s) = qh_next_entry s"
  "qh_created_for (end_query i e now s) = qh_created_for s"
  "set (cr_query_entries (end_query i e now s)) \<subseteq> set (cr_query_entries s)"
  "cr_pending (end_query i e now s) = cr_pending s" "cr_cache (end_query i e now s) = cr_cache s"
  by (simp_all add: end_query_def store_flag_def Let_def split: option.splits)

lemma keeps_begin: "keeps (host_inv P) (begin_query now)"
  unfolding keeps_def by (intro allI impI host_frame) (simp_all add: begin_query_fields)

lemma keeps_end: "keeps (host_inv P) (end_query i e now)"
  unfolding keeps_def by (intro allI impI host_frame) (simp_all add: end_query_fields)

lemma credential_scope_fields:
  assumes "credential_scope scope credential s = (r, s')"
  shows "qh_slots s' = qh_slots s" "qh_next_entry s' = qh_next_entry s" "qh_created_for s' = qh_created_for s"
    "cr_query_entries s' = cr_query_entries s" "cr_pending s' = cr_pending s"
    "cr_cache s' = cr_cache s \<or> cr_cache s' = snd (cache_clear (cr_cache s))"
  using assms
  by (auto simp: credential_scope_def take_scope_def Let_def split: option.splits if_splits)

lemma keeps_credential: "keeps (host_inv P) (\<lambda>s. snd (credential_scope scope credential s))"
  unfolding keeps_def
proof (intro allI impI)
  fix s assume inv: "host_inv P s"
  obtain r s' where c: "credential_scope scope credential s = (r, s')" by fastforce
  note f = credential_scope_fields [OF c]
  have "host_inv P s' \<and> heap_grows s s'"
  proof (rule host_frame [OF f(1-3) _ _ _ inv])
    show "cache_holds (cr_cache s) k v" if "cache_holds (cr_cache s') k v" for k v
      using that f(6) store.wipe_empty by auto
  qed (simp_all add: f)
  then show "host_inv P (snd (credential_scope scope credential s))
      \<and> heap_grows s (snd (credential_scope scope credential s))" by (simp add: c)
qed

lemma keeps_cancellation: "keeps (host_inv P) (\<lambda>s. snd (query_cancellation scope s))"
  unfolding keeps_def by (simp add: query_cancellation_def split: option.splits)

lemma keeps_inflight: "keeps (host_inv P) (\<lambda>s. s\<lparr>cr_inflight := f (cr_inflight s)\<rparr>)"
  unfolding keeps_def by (intro allI impI host_frame) simp_all

lemma keeps_drop: "keeps (host_inv P) drop_permit"
  unfolding keeps_def by (intro allI impI host_frame) (simp_all add: drop_permit_def)

lemma keeps_take_scope: "keeps (host_inv P) (\<lambda>s. snd (take_scope s))"
  unfolding keeps_def by (intro allI impI host_frame) (simp_all add: take_scope_def)

text \<open>Claiming.\<close>

lemma claim_cases:
  assumes "claim_query_entry scope k s = (r, s')"
  obtains (fail) e where "r = Inl e" "s' = s"
  | (shared) entry where "r = Inr (entry, False)" "map_of (cr_query_entries s) k = Some entry"
      "s' = update_counts scope (\<lambda>counts. counts\<lparr>qc_deduplicated_rows := sat_add (qc_deduplicated_rows counts) 1\<rparr>) s"
  | (fresh) s1 where "r = Inr (qh_next_entry s1, True)" "map_of (cr_query_entries s) k = None"
      "s1 = update_counts scope (\<lambda>counts. counts\<lparr>qc_unique_judgments := sat_add (qc_unique_judgments counts) 1\<rparr>) s"
      "s' = (snd (new_query_entry k s1))\<lparr>cr_query_entries := alist_put k (qh_next_entry s1) (cr_query_entries s1)\<rparr>"
proof (cases "active_scope scope s")
  case None
  then show ?thesis using assms by (intro fail) (auto simp: claim_query_entry_def)
next
  case (Some active)
  show ?thesis
  proof (cases "qh_flags s (aq_cancelled active)")
    case True
    then show ?thesis using assms Some by (intro fail) (auto simp: claim_query_entry_def)
  next
    case False
    show ?thesis
    proof (cases "map_of (cr_query_entries s) k")
      case None
      let ?s1 = "update_counts scope (\<lambda>counts. counts\<lparr>qc_unique_judgments := sat_add (qc_unique_judgments counts) 1\<rparr>) s"
      have "(r, s') = (Inr (qh_next_entry ?s1, True),
          (snd (new_query_entry k ?s1))\<lparr>cr_query_entries := alist_put k (qh_next_entry ?s1) (cr_query_entries ?s1)\<rparr>)"
        using assms [symmetric] Some False None
        by (simp add: claim_query_entry_def Let_def new_query_entry_def)
      then show ?thesis using None by (intro fresh [of ?s1]) simp_all
    next
      case entry: (Some entry)
      then show ?thesis
        using assms Some False by (intro shared [of entry]) (simp_all add: claim_query_entry_def)
    qed
  qed
qed

lemma keeps_new_entry:
  "keeps (host_inv P) (\<lambda>s. (snd (new_query_entry k s))
     \<lparr>cr_query_entries := alist_put k (qh_next_entry s) (cr_query_entries s)\<rparr>)"
  unfolding keeps_def
proof (intro allI impI conjI)
  fix s :: connection_runtime
  assume inv: "host_inv P s"
  let ?s' = "(snd (new_query_entry k s))\<lparr>cr_query_entries := alist_put k (qh_next_entry s) (cr_query_entries s)\<rparr>"
  show "heap_grows s ?s'"
    by (simp add: heap_grows_def new_query_entry_def)
  have entries: "allocated_for ?s' e k'" if "(k', e) \<in> set (cr_query_entries ?s')" for k' e
  proof -
    have "(k', e) = (k, qh_next_entry s) \<or> (k', e) \<in> set (cr_query_entries s)"
      using that set_alist_put [of k "qh_next_entry s" "cr_query_entries s"] by auto
    then show ?thesis
      using inv by (auto simp: host_inv_def allocated_for_def new_query_entry_def)
  qed
  have "P (qh_created_for ?s' e) v" if "e < qh_next_entry ?s'" "qh_slots ?s' e = Some (Inr v)" for e v
    using that inv by (auto simp: host_inv_def new_query_entry_def less_Suc_eq split: if_splits)
  moreover have "cr_cache ?s' = cr_cache s" "cr_pending ?s' = cr_pending s"
    by (simp_all add: new_query_entry_def)
  ultimately show "host_inv P ?s'"
    using inv entries unfolding host_inv_def by auto
qed

lemma keeps_claim: "keeps (host_inv P) (\<lambda>s. snd (claim_query_entry scope k s))"
  unfolding keeps_def
proof (intro allI impI)
  fix s assume inv: "host_inv P s"
  obtain r s' where c: "claim_query_entry scope k s = (r, s')" by fastforce
  from c have "host_inv P s' \<and> heap_grows s s'"
  proof (cases rule: claim_cases)
    case fail
    then show ?thesis using inv by simp
  next
    case shared
    then show ?thesis using keepsD [OF keeps_update_counts inv] by simp
  next
    case (fresh s1)
    then have "host_inv P s1" "heap_grows s s1"
      using keepsD [OF keeps_update_counts inv] by simp_all
    then show ?thesis
      using keepsD [OF keeps_new_entry, of P s1 k] fresh(4) by (auto intro: heap_grows_trans)
  qed
  then show "host_inv P (snd (claim_query_entry scope k s)) \<and> heap_grows s (snd (claim_query_entry scope k s))"
    by (simp add: c)
qed

lemma claim_allocates:
  assumes "host_inv P s" "claim_query_entry scope k s = (Inr (e, owns), s')"
  shows "allocated_for s' e k"
  using assms(2)
proof (cases rule: claim_cases)
  case (shared entry)
  then have "allocated_for s e k"
    using assms(1) map_of_SomeD [of "cr_query_entries s" k e] by (auto simp: host_inv_def)
  then show ?thesis
    using shared allocated_grows keepsD(2) [OF keeps_update_counts assms(1)] by blast
next
  case (fresh s1)
  then show ?thesis by (simp add: allocated_for_def new_query_entry_def)
qed simp

lemma host_complete:
  assumes "host_inv P s" "allocated_for s e k" "\<And>v. r = Inr v \<Longrightarrow> P k v"
  shows "host_inv P (complete r e s)"
proof -
  have "P (qh_created_for s e') v" if "e' < qh_next_entry s" "qh_slots (complete r e s) e' = Some (Inr v)" for e' v
    using that assms by (auto simp: complete_slots host_inv_def allocated_for_def split: if_splits)
  moreover have "cr_cache (complete r e s) = cr_cache s" "cr_query_entries (complete r e s) = cr_query_entries s"
    "cr_pending (complete r e s) = cr_pending s"
    by (simp_all add: complete_def split: option.splits)
  ultimately show ?thesis
    using assms(1) by (simp add: host_inv_def allocated_for_def)
qed

text \<open>The cache operations, through the interface of the cache.\<close>

lemma host_cache:
  assumes "host_inv P s" "\<And>k v. cache_holds c k v \<Longrightarrow> P k v"
  shows "host_inv P (s\<lparr>cr_cache := c\<rparr>) \<and> heap_grows s (s\<lparr>cr_cache := c\<rparr>)"
  using assms by (auto simp: host_inv_def heap_grows_def allocated_for_def)

lemma host_inv_sound: "host_inv P s \<Longrightarrow> store.sound P (cr_cache s)"
  by (simp add: host_inv_def store.sound_def)

lemma adapter_lookup_sound:
  assumes inv: "host_inv P s" and run: "adapter_cache_lookup ck now p s = (r, s')"
  shows "host_inv P s' \<and> heap_grows s s'" "ck = Some k \<Longrightarrow> r = Some v \<Longrightarrow> P k v"
    "ck = None \<Longrightarrow> r = None"
proof -
  obtain ok c where c: "reconcile_policy now p (cr_cache s) = (ok, c)" by fastforce
  have snd: "store.sound P c"
    using store.sound_tidy [OF host_inv_sound [OF inv], of now p] c by simp
  have find: "store.sound P c'" "x = Some v \<Longrightarrow> P k v" if "cache_lookup k now c = (x, c')" for k x c' v
    using store.sound_find [OF snd that] by simp_all
  show "host_inv P s' \<and> heap_grows s s'"
    using run snd find
    by (auto simp: adapter_cache_lookup_def c store.sound_def Let_def
        split: bool.splits option.splits prod.splits intro!: host_cache [OF inv])
  show "ck = Some k \<Longrightarrow> r = Some v \<Longrightarrow> P k v" "ck = None \<Longrightarrow> r = None"
    using run find
    by (auto simp: adapter_cache_lookup_def c Let_def split: bool.splits prod.splits)
qed

lemma adapter_insert_sound:
  assumes "P k r"
  shows "keeps (host_inv P) (adapter_cache_insert k r now p)"
  unfolding keeps_def adapter_cache_insert_def
proof (intro allI impI host_cache, assumption)
  fix s k' v
  assume "host_inv P s" "cache_holds (snd (insert_success k r now p (cr_cache s))) k' v"
  then show "P k' v"
    using store.sound_put [where P = P, OF host_inv_sound assms] by (auto simp: store.sound_def)
qed

text \<open>The other threads.\<close>

lemma apply_action_keeps:
  assumes "action_ok P a"
  shows "keeps (host_inv P) (\<lambda>s. apply_action s a)"
proof (cases a)
  case (Act_Complete k e r)
  then show ?thesis
    using assms host_complete by (auto simp: keeps_def allocated_for_def)
next
  case (Act_Cache_Lookup k now p)
  then show ?thesis
    using adapter_lookup_sound(1) by (auto simp: keeps_def) (metis prod.collapse)+
next
  case (Act_Take_Permit n f)
  then show ?thesis
    using keepsD [OF keeps_inflight [of P take_permit]] by (auto simp: keeps_def)
qed (use assms keeps_begin keeps_end keeps_claim keeps_credential keeps_drop keeps_take_scope
      adapter_insert_sound in simp_all)

lemma actions_keep:
  "(\<And>a. a \<in> set acts \<Longrightarrow> action_ok P a) \<Longrightarrow> keeps (host_inv P) (\<lambda>s. foldl apply_action s acts)"
proof (induction acts)
  case (Cons a acts)
  have "keeps (host_inv P) (\<lambda>s. foldl apply_action (apply_action s a) acts)"
    by (rule keeps_comp [OF apply_action_keeps Cons.IH]) (simp_all add: Cons.prems)
  then show ?case by simp
qed (simp add: keeps_id)

lemma other_threads_keep: "keeps (host_inv P) other_threads"
  unfolding keeps_def
proof (intro allI impI)
  fix s assume inv: "host_inv P s"
  show "host_inv P (other_threads s) \<and> heap_grows s (other_threads s)"
  proof (cases "cr_pending s")
    case Nil
    then show ?thesis using inv by (simp add: other_threads_def)
  next
    case (Cons acts rest)
    have s1: "host_inv P (s\<lparr>cr_pending := rest\<rparr>) \<and> heap_grows s (s\<lparr>cr_pending := rest\<rparr>)"
      by (rule host_frame) (use inv Cons in auto)
    have "keeps (host_inv P) (\<lambda>s. foldl apply_action s acts)"
      using inv Cons by (intro actions_keep) (simp add: host_inv_def)
    from keepsD [OF this, of "s\<lparr>cr_pending := rest\<rparr>"] show ?thesis
      using s1 Cons by (auto simp: other_threads_def intro: heap_grows_trans)
  qed
qed

text \<open>Acquiring a permit.\<close>

lemma acquire_loop_steps:
  assumes "acquire_loop others n c s = Some y"
  shows "\<exists>m. let t = (others ^^ m) s in
     (if qh_flags t c
      then y = (Inl (provider_error ''query was cancelled while waiting for an external request slot''), t)
      else ps_active (cr_inflight t) < n \<and> y = (Inr 0, t\<lparr>cr_inflight := take_permit (cr_inflight t)\<rparr>))"
proof (rule acquire_loop.raw_induct [where P = "\<lambda>others n c s y. \<exists>m. let t = (others ^^ m) s in
     (if qh_flags t c
      then y = (Inl (provider_error ''query was cancelled while waiting for an external request slot''), t)
      else ps_active (cr_inflight t) < n \<and> y = (Inr 0, t\<lparr>cr_inflight := take_permit (cr_inflight t)\<rparr>))", OF _ assms])
  fix loop and others :: "connection_runtime \<Rightarrow> connection_runtime" and n :: usize and c s y
  assume 1: "\<And>others n c s y. loop others n c s = Some y \<Longrightarrow> \<exists>m. let t = (others ^^ m) s in
     (if qh_flags t c
      then y = (Inl (provider_error ''query was cancelled while waiting for an external request slot''), t)
      else ps_active (cr_inflight t) < n \<and> y = (Inr 0, t\<lparr>cr_inflight := take_permit (cr_inflight t)\<rparr>))"
    "(if qh_flags s c
      then Some (Inl (provider_error ''query was cancelled while waiting for an external request slot''), s)
      else if ps_active (cr_inflight s) < n
      then Some (Inr 0, s\<lparr>cr_inflight := take_permit (cr_inflight s)\<rparr>)
      else loop others n c (others s)) = Some y"
  show "\<exists>m. let t = (others ^^ m) s in
     (if qh_flags t c
      then y = (Inl (provider_error ''query was cancelled while waiting for an external request slot''), t)
      else ps_active (cr_inflight t) < n \<and> y = (Inr 0, t\<lparr>cr_inflight := take_permit (cr_inflight t)\<rparr>))"
  proof (cases "qh_flags s c \<or> ps_active (cr_inflight s) < n")
    case True
    then show ?thesis using 1(2) by (intro exI [of _ 0]) (auto simp: Let_def split: if_splits)
  next
    case False
    then have "loop others n c (others s) = Some y" using 1(2) by simp
    from 1(1) [OF this] obtain m where m: "let t = (others ^^ m) (others s) in
       (if qh_flags t c
        then y = (Inl (provider_error ''query was cancelled while waiting for an external request slot''), t)
        else ps_active (cr_inflight t) < n \<and> y = (Inr 0, t\<lparr>cr_inflight := take_permit (cr_inflight t)\<rparr>))"
      by blast
    then show ?thesis by (intro exI [of _ "Suc m"]) (simp add: funpow_swap1)
  qed
qed

lemma acquire_keeps_inv:
  assumes inv: "host_inv P s" and run: "acquire_request_permit other_threads scope n s = Some (x, s')"
  shows "host_inv P s' \<and> heap_grows s s'"
proof (cases "\<exists>c. fst (query_cancellation scope s) = Inr c \<and> n \<noteq> 0")
  case False
  then show ?thesis
    using run inv
    by (auto simp: acquire_request_permit_def pool_acquire_def query_cancellation_def split: option.splits)
next
  case True
  then obtain c where c: "acquire_loop other_threads n c s = Some (x, s')"
    using run by (auto simp: acquire_request_permit_def pool_acquire_def query_cancellation_def split: option.splits)
  obtain m where m: "let t = (other_threads ^^ m) s in
     (if qh_flags t c
      then (x, s') = (Inl (provider_error ''query was cancelled while waiting for an external request slot''), t)
      else ps_active (cr_inflight t) < n \<and> (x, s') = (Inr 0, t\<lparr>cr_inflight := take_permit (cr_inflight t)\<rparr>))"
    using acquire_loop_steps [OF c] by blast
  define t where "t = (other_threads ^^ m) s"
  have t: "host_inv P t" "heap_grows s t"
    using keepsD [OF keeps_funpow [OF other_threads_keep] inv] by (simp_all add: t_def)
  have "s' = t \<or> s' = t\<lparr>cr_inflight := take_permit (cr_inflight t)\<rparr>"
    using m by (auto simp: t_def [symmetric] Let_def split: if_splits)
  then show ?thesis
    using t keepsD [OF keeps_inflight [of P take_permit] t(1)] by (auto intro: heap_grows_trans)
qed

section \<open>The interpretations\<close>

text \<open>
  For every predicate on judgments that does not depend on which model version answers, the connection
  runtime is a lawful execution runtime.
\<close>

locale host_judgments =
  fixes P :: "judgment_identity \<Rightarrow> judgment_result \<Rightarrow> bool"
  assumes model_free: "P (k\<lparr>id_effective_model := model, id_unresolved_model_scope := u\<rparr>) r \<longleftrightarrow> P k r"

sublocale host_judgments \<subseteq> judgment_runtime host_ops P "host_inv P"
proof
  show "P k r" if "host_inv P s" "allocated_for s e k" "qh_slots s e = Some (Inr r)" for s e k r
    using that by (auto simp: host_inv_def allocated_for_def)
  show "host_inv P (complete res e s)"
    if "host_inv P s" "allocated_for s e k" "\<And>r. res = Inr r \<Longrightarrow> P k r" for s e k res
    using that by (rule host_complete)
  show "keeps (host_inv P) (\<lambda>s. snd (rt_cache_lookup host_ops ck now p s))" for ck now p
    using adapter_lookup_sound(1) by (auto simp: keeps_def host_ops_def) (metis prod.collapse)+
  show "P k r" if "host_inv P s" "rt_cache_lookup host_ops (Some k) now p s = (Some r, s')" for s k now p r s'
    by (rule adapter_lookup_sound(2) [OF that(1) _ refl refl]) (use that(2) in \<open>simp add: host_ops_def\<close>)
  show "fst (rt_cache_lookup host_ops None now p s) = None" for now p s
    by (simp add: host_ops_def adapter_cache_lookup_def split: prod.split bool.split)
  show "host_inv P s' \<and> heap_grows s s'"
    if "host_inv P s" "rt_acquire_permit host_ops scope n s = Some (x, s')" for s scope n x s'
    using acquire_keeps_inv that by (simp add: host_ops_def)
qed (simp_all add: host_ops_def keeps_claim claim_allocates keeps_cancellation keeps_records keeps_response
      keeps_failure adapter_insert_sound keeps_drop other_threads_keep model_free)

text \<open>The predicate every provider satisfies: a valid answer to the question.\<close>

interpretation valid: host_judgments valid_for_identity
  by unfold_locales simp

end
