(* ===== verification/Functions_Soundness.thy ===== *)
theory Functions_Soundness
  imports Functions Host_Runtime
begin

text \<open>
  What the evaluators publish: the work read from a chunk, the way results find their rows, and the
  soundness of both evaluators for any condition on results that a provider's answers satisfy.
\<close>

section \<open>Work read from a chunk\<close>

definition work_item :: "identity_context \<Rightarrow> u64 \<Rightarrow> u64 \<Rightarrow> nat \<Rightarrow> judgment_request \<Rightarrow> judgment_work" where
  "work_item context invocation chunk row request =
     \<lparr>jw_identity = new_identity request context, jw_request = request,
      jw_target = \<lparr>tg_function_invocation = invocation, tg_data_chunk = chunk, tg_row = usize_of row\<rparr>\<rparr>"

lemma collect_work_Inr:
  assumes "collect_work codec kind input context invocation chunk rows (work, n) = Inr (work', n')"
  shows "\<exists>more. work' = work @ more \<and> n' + length more = n + length rows
    \<and> (\<forall>item \<in> set more. \<exists>row \<in> set rows. \<exists>request. read_request codec kind input row = Inr (Some request)
         \<and> item = work_item context invocation chunk row request)
    \<and> (\<forall>row \<in> set rows. read_request codec kind input row = Inr None
         \<or> (\<exists>request. read_request codec kind input row = Inr (Some request)
              \<and> work_item context invocation chunk row request \<in> set more))"
  using assms
proof (induction rows arbitrary: work n)
  case (Cons row rows)
  then obtain x where x: "read_request codec kind input row = Inr x"
    by (auto simp: result_bind_Inr)
  show ?case
  proof (cases x)
    case None
    then have "collect_work codec kind input context invocation chunk rows (work, Suc n) = Inr (work', n')"
      using Cons.prems x by simp
    from Cons.IH [OF this] show ?thesis using x None by fastforce
  next
    case (Some request)
    let ?item = "work_item context invocation chunk row request"
    have "collect_work codec kind input context invocation chunk rows (work @ [?item], n) = Inr (work', n')"
      using Cons.prems x Some by (simp add: work_item_def)
    from Cons.IH [OF this] obtain more where more: "work' = (work @ [?item]) @ more" "n' + length more = n + length rows"
      "\<forall>item \<in> set more. \<exists>row \<in> set rows. \<exists>request. read_request codec kind input row = Inr (Some request)
         \<and> item = work_item context invocation chunk row request"
      "\<forall>row \<in> set rows. read_request codec kind input row = Inr None
         \<or> (\<exists>request. read_request codec kind input row = Inr (Some request)
              \<and> work_item context invocation chunk row request \<in> set more)"
      by blast
    show ?thesis
      by (rule exI [of _ "?item # more"]) (use more x Some in auto)
  qed
qed simp

section \<open>Results by row\<close>

lemma results_fold:
  "foldl put_row m executed row = Some v \<Longrightarrow>
   m row = Some v \<or> (\<exists>target. (target, v) \<in> set executed \<and> unat (tg_row target) = row)"
proof (induction executed arbitrary: m)
  case (Cons x executed)
  obtain t r where x: "x = (t, r)" by (cases x)
  have "put_row m x row = Some v \<or> (\<exists>target. (target, v) \<in> set executed \<and> unat (tg_row target) = row)"
    using Cons.IH [of "put_row m x"] Cons.prems by (simp only: foldl_Cons simp_thms)
  then show ?case by (auto simp: x split: if_splits)
qed simp

lemma results_fold_keeps: "m row \<noteq> None \<Longrightarrow> foldl put_row m executed row \<noteq> None"
proof (induction executed arbitrary: m)
  case (Cons x executed)
  obtain t r where x: "x = (t, r)" by (cases x)
  show ?case unfolding foldl_Cons by (rule Cons.IH) (use Cons.prems x in simp)
qed simp

lemma results_fold_defined:
  "(target, v) \<in> set executed \<Longrightarrow> foldl put_row m executed (unat (tg_row target)) \<noteq> None"
proof (induction executed arbitrary: m)
  case (Cons x executed)
  show ?case
  proof (cases "x = (target, v)")
    case True
    show ?thesis unfolding foldl_Cons by (rule results_fold_keeps) (simp add: True)
  next
    case False
    then show ?thesis using Cons.prems unfolding foldl_Cons by (intro Cons.IH) simp
  qed
qed simp

lemma results_by_row_from:
  "results_by_row executed row = Some v \<Longrightarrow> \<exists>target. (target, v) \<in> set executed \<and> unat (tg_row target) = row"
  using results_fold [of "\<lambda>_. None"] by (auto simp: results_by_row_def)

lemma results_by_row_defined:
  "(target, v) \<in> set executed \<Longrightarrow> results_by_row executed (unat (tg_row target)) \<noteq> None"
  unfolding results_by_row_def by (rule results_fold_defined)

section \<open>Cells\<close>

definition cell_of :: "function_kind \<Rightarrow> judgment_result \<Rightarrow> cell option" where
  "cell_of kind r =
     (case (kind, r) of
        (Fn_Prob, Noul p) \<Rightarrow> Some (Cell_Double p)
      | (Fn_Bool, Noul p) \<Rightarrow> Some (Cell_Boolean (bool_from_probability p))
      | (Fn_Choice, Choice label) \<Rightarrow> Some (Cell_String label)
      | _ \<Rightarrow> None)"

lemma write_result_cell:
  "write_result kind out row r = (case cell_of kind r of None \<Rightarrow> out | Some c \<Rightarrow> out(row \<mapsto> c))"
  by (cases kind; cases r) (simp_all add: write_result_def cell_of_def)

definition row_update :: "function_kind \<Rightarrow> judgment_result option \<Rightarrow> cell option \<Rightarrow> cell option" where
  "row_update kind x before =
     (case x of None \<Rightarrow> Some Cell_Null | Some r \<Rightarrow> (case cell_of kind r of None \<Rightarrow> before | Some c \<Rightarrow> Some c))"

lemma publish_rows_row:
  "distinct rows \<Longrightarrow>
   publish_rows kind results rows out row
     = (if row \<in> set rows then row_update kind (results row) (out row) else out row)"
proof (induction rows arbitrary: out)
  case (Cons r rows)
  then show ?case
    by (auto simp: row_update_def set_output_null_def write_result_cell split: option.splits)
qed simp

text \<open>
  What a row must hold for its request: NULL for a NULL argument, otherwise the cell of a result
  acceptable under \<open>Q\<close>.
\<close>

definition row_holds ::
  "(judgment_request \<Rightarrow> judgment_result \<Rightarrow> bool) \<Rightarrow> function_kind \<Rightarrow> judgment_request option result
   \<Rightarrow> cell option \<Rightarrow> bool" where
  "row_holds Q kind request c \<longleftrightarrow>
     request = Inr None \<and> c = Some Cell_Null
     \<or> (\<exists>rq r. request = Inr (Some rq) \<and> Q rq r \<and> valid_answer (rq_kind rq) (rq_choices rq) r \<and> c = cell_of kind r)"

lemma read_request_kind:
  "read_request codec kind input row = Inr (Some rq) \<Longrightarrow>
   well_formed_request rq \<and> rq_kind rq = (if kind = Fn_Choice then Kind_Choice else Kind_Noul)"
  by (auto simp: read_request_def result_bind_Inr Let_def noul_request_def choice_request_def
      well_formed_request_def split: if_splits)

lemma cell_of_valid:
  "read_request codec kind input row = Inr (Some rq) \<Longrightarrow> valid_answer (rq_kind rq) (rq_choices rq) r \<Longrightarrow>
   cell_of kind r \<noteq> None"
  by (drule read_request_kind) (cases kind; cases r; simp add: cell_of_def valid_answer_def)

section \<open>Conditions on results\<close>

text \<open>
  A condition \<open>Q\<close> on the results for a request and the same condition \<open>P\<close> on identities, as the
  executors state it.
\<close>

locale host_requests = host_judgments P for P +
  fixes Q :: "judgment_request \<Rightarrow> judgment_result \<Rightarrow> bool"
  assumes request_identity: "Q (rq\<lparr>rq_request_key := key\<rparr>) r \<Longrightarrow> P (new_identity rq c) r"
    and identity_request: "P (new_identity rq c) r \<Longrightarrow> Q rq r"
    and request_valid: "Q rq r \<Longrightarrow> valid_answer (rq_kind rq) (rq_choices rq) r"
begin

lemma group_of_work_judges:
  assumes "g \<in> set (group_by_identity work)"
    and "\<forall>item \<in> set work. \<exists>c. jw_identity item = new_identity (jw_request item) c"
  shows "group_judges Q P g"
proof -
  obtain k where k: "k \<in> jw_identity ` set work" "g = group_of work k"
    using assms(1) by (auto simp: group_by_identity_spec group_spec_def)
  then obtain item where item: "find (\<lambda>item. jw_identity item = k) work = Some item"
    by (cases "find (\<lambda>item. jw_identity item = k) work") (auto simp: find_None_iff)
  then have "item \<in> set work" "jw_identity item = k" by (auto simp: find_Some_iff in_set_conv_nth)
  moreover obtain c where "jw_identity item = new_identity (jw_request item) c"
    using assms(2) calculation by blast
  moreover have "jg_request g = jw_request item" "jg_identity g = k"
    using k(2) item by (simp_all add: group_of_def)
  ultimately show ?thesis using request_identity by (simp add: group_judges_def) metis
qed

lemma expanded_work:
  assumes "list_all2 (\<lambda>g. P (jg_identity g)) (group_by_identity work) vs"
    and "(target, v) \<in> set (expand (group_by_identity work) vs)"
  shows "\<exists>item \<in> set work. jw_target item = target \<and> P (jw_identity item) v"
proof -
  have "\<exists>g \<in> set groups. target \<in> set (jg_targets g) \<and> P (jg_identity g) v"
    if "list_all2 (\<lambda>g. P (jg_identity g)) groups vs" "(target, v) \<in> set (expand groups vs)" for groups
    using that by (induction groups vs rule: list_all2_induct) auto
  from this [OF assms] obtain g where g: "g \<in> set (group_by_identity work)" "target \<in> set (jg_targets g)"
    "P (jg_identity g) v" by blast
  then obtain k where "g = group_of work k" by (auto simp: group_by_identity_spec group_spec_def)
  then show ?thesis using g by (auto simp: group_of_def)
qed

lemma execute_work_sound:
  assumes run: "execute_work clock config provider scope groups (s, w) = Some (r, s', w')"
    and s: "host_inv P s" and p: "sound_provider Q provider"
    and g: "\<And>g. g \<in> set groups \<Longrightarrow> group_judges Q P g"
  shows "host_inv P s' \<and> heap_grows s s' \<and> (\<forall>out. r = Inr out \<longrightarrow>
    (\<exists>vs. list_all2 (\<lambda>g. P (jg_identity g)) groups vs \<and> mset out = mset (expand groups vs)))"
proof (cases "rc_batch_enabled config")
  case True
  then show ?thesis
    using run execute_batch_groups_sound [OF _ s p g] by (simp add: execute_work_def Let_def)
next
  case False
  then have run': "execute_groups groups clock provider host_ops
      \<lparr>el_query_scope = scope, el_max_inflight = rc_max_inflight config,
       el_max_request_bytes = rc_max_request_bytes config\<rparr> (cache_policy_of config) (s, w) = Some (r, s', w')"
    using run by (simp add: execute_work_def Let_def)
  show ?thesis using execute_groups_sound [OF run' s p g] by auto
qed

lemma run_groups_sound:
  assumes run: "run_groups clock config state scope groups (s, w) = Some (r, s', w')"
    and s: "host_inv P s" and p: "\<And>p. es_provider state = Inr p \<Longrightarrow> sound_provider Q p"
    and g: "\<And>g. g \<in> set groups \<Longrightarrow> group_judges Q P g"
  shows "host_inv P s' \<and> heap_grows s s' \<and> (\<forall>out. r = Inr out \<longrightarrow>
    (\<exists>vs. list_all2 (\<lambda>g. P (jg_identity g)) groups vs \<and> mset out = mset (expand groups vs)))"
proof (cases "groups = []")
  case False
  then show ?thesis
    using run s execute_work_sound [OF _ s p g]
    by (auto simp: run_groups_def split: sum.splits)
qed (use run s in \<open>auto simp: run_groups_def\<close>)

text \<open>Rows of the chunk from the executed work.\<close>

lemma executed_rows:
  assumes work: "collect_work codec kind input context invocation chunk [0..<n] ([], 0) = Inr (work, k)"
    and vs: "list_all2 (\<lambda>g. P (jg_identity g)) (group_by_identity work) vs"
    and executed: "mset executed = mset (expand (group_by_identity work) vs)"
    and "n < 2 ^ 64" "row < n"
  shows "row_holds Q kind (read_request codec kind input row)
    (row_update kind (results_by_row executed row) before)"
proof -
  have rows: "unat (usize_of row') = row'" if "row' < n" for row'
    using that assms(4) by (intro unat_usize_of) simp
  have elems: "set executed = set (expand (group_by_identity work) vs)"
    using executed by (metis set_mset_mset)
  have from_item: "\<exists>rq. read_request codec kind input row = Inr (Some rq)
      \<and> item = work_item context invocation chunk row rq"
    if "item \<in> set work" "unat (tg_row (jw_target item)) = row" for item
    using collect_work_Inr [OF work] that rows assms(5) by (fastforce simp: work_item_def)
  have judged: "\<exists>rq. read_request codec kind input row = Inr (Some rq) \<and> Q rq v"
    if r: "results_by_row executed row = Some v" for v
  proof -
    obtain target where "(target, v) \<in> set executed" "unat (tg_row target) = row"
      using results_by_row_from [OF r] by blast
    then obtain item where "item \<in> set work" "jw_target item = target" "P (jw_identity item) v"
      using expanded_work [OF vs] elems by blast
    moreover from this obtain rq where "read_request codec kind input row = Inr (Some rq)"
      "item = work_item context invocation chunk row rq"
      using from_item \<open>unat (tg_row target) = row\<close> by blast
    ultimately show ?thesis using identity_request by (auto simp: work_item_def)
  qed
  consider "read_request codec kind input row = Inr None"
    | rq where "read_request codec kind input row = Inr (Some rq)"
      "work_item context invocation chunk row rq \<in> set work"
    using collect_work_Inr [OF work] assms(5) by fastforce
  then show ?thesis
  proof cases
    case 1
    then have "results_by_row executed row = None" using judged by fastforce
    then show ?thesis using 1 by (simp add: row_holds_def row_update_def)
  next
    case (2 rq)
    let ?item = "work_item context invocation chunk row rq"
    have "length vs = length (group_by_identity work)" using vs by (simp add: list_all2_lengthD)
    then have "mset (map fst (expand (group_by_identity work) vs)) = mset (map jw_target work)"
      using expand_targets group_targets by metis
    then have "jw_target ?item \<in> set (map fst (expand (group_by_identity work) vs))"
      using 2(2) by (metis image_eqI list.set_map set_mset_mset)
    then obtain v where "(jw_target ?item, v) \<in> set executed" using elems by auto
    then have "results_by_row executed row \<noteq> None"
      using results_by_row_defined rows [OF assms(5)] by (force simp: work_item_def)
    then obtain u where u: "results_by_row executed row = Some u" by blast
    then have q: "Q rq u" using judged 2(1) by fastforce
    then have "cell_of kind u \<noteq> None" using cell_of_valid [OF 2(1)] request_valid by blast
    then show ?thesis using q request_valid 2(1) u by (auto simp: row_holds_def row_update_def)
  qed
qed

end

section \<open>Both evaluators are sound\<close>

lemma keeps_with_runtime: "keeps I f \<Longrightarrow> keeps I (with_runtime connected f)"
  by (simp add: keeps_def with_runtime_def)

lemma keepsI2: "keeps I f \<Longrightarrow> I s \<and> heap_grows s0 s \<Longrightarrow> I (f s) \<and> heap_grows s0 (f s)"
  using heap_grows_trans by (fastforce simp: keeps_def)

lemma keeps_failed_call:
  "keeps (host_inv P) (\<lambda>s. record_provider_failure scope d external (record_failed_request scope s))"
  by (rule keeps_comp [OF keeps_records(7) keeps_failure])

context host_requests
begin

lemma judge_row_sound:
  assumes run: "judge_row clock connected scope provider request (s, w) = (r, s', w')"
    and s: "host_inv P s" and p: "sound_provider Q provider"
  shows "host_inv P s' \<and> heap_grows s s' \<and> (\<forall>x. r = Inr x \<longrightarrow> (\<exists>v. x = Some v \<and> Q request v))"
proof -
  let ?external = "p_makes_external_request provider"
  define s1 where "s1 = with_runtime connected (record_provider_attempt scope 1 ?external) s"
  obtain t1 w1 where t1: "clock w = (t1, w1)" by fastforce
  obtain response w2 where call: "p_judge_with_metadata provider request w1 = (response, w2)" by fastforce
  obtain t2 w3 where t2: "clock w2 = (t2, w3)" by fastforce
  have s1: "host_inv P s1 \<and> heap_grows s s1"
    unfolding s1_def by (rule keepsI2 [OF keeps_with_runtime [OF keeps_records(6)]]) (simp add: s)
  note drop = keepsI2 [OF keeps_with_runtime [OF keeps_drop]]
  show ?thesis
  proof (cases response)
    case (Inl e)
    define s2 where "s2 = (if ?external then with_runtime connected (\<lambda>s. record_provider_failure scope (t2 - t1) ?external
        (record_failed_request scope s)) s1 else s1)"
    have "host_inv P s2 \<and> heap_grows s s2"
      using s1 keepsI2 [OF keeps_with_runtime [OF keeps_failed_call] s1] by (simp add: s2_def)
    then have "host_inv P (with_runtime connected drop_permit s2) \<and> heap_grows s (with_runtime connected drop_permit s2)"
      by (rule drop)
    moreover have "r = Inl e" "s' = with_runtime connected drop_permit s2"
      using run by (auto simp: judge_row_def t1 call t2 Inl Let_def s1_def s2_def)
    ultimately show ?thesis by simp
  next
    case (Inr response')
    define s2 where "s2 = with_runtime connected
        (record_provider_response scope (br_metadata response') (t2 - t1) ?external) s1"
    have "host_inv P s2 \<and> heap_grows s s2"
      unfolding s2_def by (rule keepsI2 [OF keeps_with_runtime [OF keeps_response] s1])
    then have "host_inv P (with_runtime connected drop_permit s2) \<and> heap_grows s (with_runtime connected drop_permit s2)"
      by (rule drop)
    moreover have r: "r = result_bind (validate_batch_result [request] response') (\<lambda>_.
        case br_answers response' of [] \<Rightarrow> Inl (invalid_response ''provider returned no answer'')
        | answer # _ \<Rightarrow> Inr (Some (pa_result answer)))" "s' = with_runtime connected drop_permit s2"
      using run by (auto simp: judge_row_def t1 call t2 Inr Let_def s1_def s2_def)
    moreover have "Q request (pa_result answer)"
      if "covers_batch [request] response'" "answer \<in> set (br_answers response')" for answer
      using p call that unfolding sound_provider_def Inr by blast
    ultimately show ?thesis by (auto simp: result_bind_Inr split: list.splits)
  qed
qed

lemma evaluate_row_sound:
  assumes run: "evaluate_row clock codec kind state scope input row (s, w) = Some (r, s', w')"
    and s: "host_inv P s" and p: "\<And>p. es_provider state = Inr p \<Longrightarrow> sound_provider Q p"
  shows "host_inv P s' \<and> heap_grows s s' \<and> (\<forall>x. r = Inr x \<longrightarrow>
    row_holds Q kind (read_request codec kind input row) (row_update kind x before))"
proof -
  consider (error) e where "r = Inl e" "s' = s" | (null) "read_request codec kind input row = Inr None" "r = Inr None" "s' = s"
    | (call) rq config provider where "read_request codec kind input row = Inr (Some rq)"
        "row_provider state rq = Inr (config, provider)"
    using run by (auto simp: evaluate_row_def split: sum.splits option.splits)
  then show ?thesis
  proof cases
    case (call rq config provider)
    then have sound: "sound_provider Q provider"
      by (intro p) (auto simp: row_provider_def Let_def split: sum.splits if_splits)
    have judged: "?thesis" if j: "judge_row clock c scope provider rq (s1, w) = (r, s', w')" and s1: "host_inv P s1 \<and> heap_grows s s1" for c s1
    proof -
      have *: "host_inv P s' \<and> heap_grows s1 s' \<and> (\<forall>x. r = Inr x \<longrightarrow> (\<exists>v. x = Some v \<and> Q rq v))"
        using judge_row_sound [OF j _ sound] s1 by blast
      moreover have "row_holds Q kind (read_request codec kind input row) (row_update kind (Some v) before)"
        if "Q rq v" for v
        using that request_valid [OF that] cell_of_valid [OF call(1) request_valid [OF that]] call(1)
        by (auto simp: row_holds_def row_update_def)
      ultimately show ?thesis using s1 heap_grows_trans by blast
    qed
    show ?thesis
    proof (cases "es_connected state")
      case True
      then obtain x s1 where a: "acquire_request_permit other_threads scope (rc_max_inflight config) s = Some (x, s1)"
        using run call by (auto simp: evaluate_row_def split: option.splits)
      have "host_inv P s1 \<and> heap_grows s s1" by (rule acquire_keeps_inv [OF s a])
      then show ?thesis
        using run call True a judged [of True s1] by (cases x) (auto simp: evaluate_row_def)
    next
      case False
      then show ?thesis using run call judged [of False s] s by (simp add: evaluate_row_def)
    qed
  qed (use s in \<open>auto simp: row_holds_def row_update_def\<close>)
qed

end

definition rows_hold ::
  "(judgment_request \<Rightarrow> judgment_result \<Rightarrow> bool) \<Rightarrow> text_codec \<Rightarrow> function_kind \<Rightarrow> data_chunk \<Rightarrow> nat list
   \<Rightarrow> out_vector \<Rightarrow> out_vector \<Rightarrow> bool" where
  "rows_hold Q codec kind input rows before out \<longleftrightarrow>
     (\<forall>row. if row \<in> set rows then row_holds Q kind (read_request codec kind input row) (out row)
            else out row = before row)"

lemma rows_hold_step:
  assumes "rows_hold Q codec kind input rows (before(row := c)) out" "row \<notin> set rows"
    and "row_holds Q kind (read_request codec kind input row) c"
  shows "rows_hold Q codec kind input (row # rows) before out"
  using assms unfolding rows_hold_def by auto

lemma written_row:
  "set_output_null out row = out(row := row_update kind None (out row))"
  "write_result kind out row r = out(row := row_update kind (Some r) (out row))"
  by (simp_all add: set_output_null_def write_result_cell row_update_def fun_upd_idem split: option.splits)

context host_requests
begin

lemma run_rows_sound:
  assumes "run_rows clock codec kind state scope input rows out (s, w) = Some (r, out', s', w')"
    and "host_inv P s" "\<And>p. es_provider state = Inr p \<Longrightarrow> sound_provider Q p" "distinct rows"
  shows "host_inv P s' \<and> heap_grows s s' \<and> (r = Inr () \<longrightarrow> rows_hold Q codec kind input rows out out')"
  using assms
proof (induction rows arbitrary: out s w)
  case (Cons row rows)
  let ?c = "es_connected state"
  define s1 where "s1 = with_runtime ?c (record_row_input scope) s"
  have s1: "host_inv P s1 \<and> heap_grows s s1"
    unfolding s1_def by (rule keepsI2 [OF keeps_with_runtime [OF keeps_records(3)]]) (simp add: Cons.prems)
  obtain x s2 w2 where ev: "evaluate_row clock codec kind state scope input row (s1, w) = Some (x, s2, w2)"
    using Cons.prems(1) by (auto simp: s1_def Let_def split: option.splits)
  have s2: "host_inv P s2 \<and> heap_grows s s2" and x: "\<And>y. x = Inr y \<Longrightarrow>
      row_holds Q kind (read_request codec kind input row) (row_update kind y (out row))"
    using evaluate_row_sound [OF ev _ Cons.prems(3)] s1 heap_grows_trans by blast+
  show ?case
  proof (cases x)
    case (Inl e)
    then show ?thesis using Cons.prems(1) ev s2 by (auto simp: s1_def Let_def)
  next
    case (Inr y)
    define s3 where "s3 = with_runtime ?c (record_row_result scope (y = None)) s2"
    have s3: "host_inv P s3 \<and> heap_grows s s3"
      unfolding s3_def by (rule keepsI2 [OF keeps_with_runtime [OF keeps_records(4)] s2])
    have "run_rows clock codec kind state scope input rows (out(row := row_update kind y (out row))) (s3, w2)
        = Some (r, out', s', w')"
      using Cons.prems(1) ev Inr
      by (cases y) (simp_all add: s1_def s3_def Let_def written_row [where kind = kind])
    from Cons.IH [OF this _ Cons.prems(3)] Cons.prems(4) s3 x [OF Inr] show ?thesis
      using rows_hold_step heap_grows_trans by (metis distinct.simps(2))
  qed
qed (simp add: rows_hold_def)

lemma run_optimized_sound:
  assumes run: "run_optimized clock codec kind input state n counters out (s, w) = Some (r, out', counters', s', w')"
    and s: "host_inv P s" and p: "\<And>p. es_provider state = Inr p \<Longrightarrow> sound_provider Q p" and n: "n < 2 ^ 64"
  shows "host_inv P s' \<and> heap_grows s s'
    \<and> (r = Inr () \<longrightarrow> rows_hold Q codec kind input [0..<n] out out') \<and> (\<forall>e. r = Inl e \<longrightarrow> out' = out)"
proof -
  consider (refused) e where "r = Inl e" "s' = s" "out' = out"
    | (accepted) config where "es_runtime_config state = Inr config" "rc_mode config = Optimized" "es_connected state"
    using run by (auto simp: run_optimized_def split: sum.splits if_splits)
  then show ?thesis
  proof cases
    case (accepted config)
    let ?scope = "snd (identity_scopes s)"
    obtain c s1 where c: "credential_scope ?scope (px_credential (es_context state)) s = (c, s1)" by fastforce
    have s1: "host_inv P s1 \<and> heap_grows s s1"
      using keepsI2 [OF keeps_credential, of P s s ?scope "px_credential (es_context state)"] s c by simp
    show ?thesis
    proof (cases c)
      case (Inl e)
      then show ?thesis using run accepted c s1 by (auto simp: run_optimized_def Let_def)
    next
      case (Inr scope)
      define s2 where "s2 = record_optimized_rows ?scope (usize_of n) 0 0 0 s1"
      have s2: "host_inv P s2 \<and> heap_grows s s2"
        unfolding s2_def by (rule keepsI2 [OF keeps_records(2) s1])
      let ?ids = "identity_context_of (es_context state) scope ?scope"
      let ?collected = "collect_work codec kind input ?ids (fc_invocation counters) (fc_chunk counters) [0..<n] ([], 0)"
      show ?thesis
      proof (cases ?collected)
        case (Inl e)
        then show ?thesis using run accepted c Inr s2 by (auto simp: run_optimized_def Let_def s2_def)
      next
        case (Inr collected)
        obtain work k where work: "?collected = Inr (work, k)" using Inr by (cases collected) simp
        let ?groups = "group_by_identity work"
        define s3 where "s3 = record_optimized_rows ?scope 0 (usize_of k) (usize_of (length work))
            (usize_of (length ?groups)) s2"
        have s3: "host_inv P s3 \<and> heap_grows s s3"
          unfolding s3_def by (rule keepsI2 [OF keeps_records(2) s2])
        obtain x s4 w4 where groups: "run_groups clock config state ?scope ?groups (s3, w) = Some (x, s4, w4)"
          using run accepted c \<open>c = Inr scope\<close> work
          by (auto simp: run_optimized_def Let_def s2_def s3_def split: option.splits)
        have "\<forall>item \<in> set work. \<exists>c. jw_identity item = new_identity (jw_request item) c"
          using collect_work_Inr [OF work] by (fastforce simp: work_item_def)
        then have "group_judges Q P g" if "g \<in> set ?groups" for g
          using that group_of_work_judges by blast
        from run_groups_sound [OF groups _ p this] s3
        have s4: "host_inv P s4 \<and> heap_grows s s4" and vs: "\<And>executed. x = Inr executed \<Longrightarrow>
            \<exists>vs. list_all2 (\<lambda>g. P (jg_identity g)) ?groups vs \<and> mset executed = mset (expand ?groups vs)"
          using heap_grows_trans by blast+
        have "rows_hold Q codec kind input [0..<n] out (publish_rows kind (results_by_row executed) [0..<n] out)"
          if "x = Inr executed" for executed
          using vs [OF that] executed_rows [OF work _ _ n] by (auto simp: rows_hold_def publish_rows_row)
        then show ?thesis
          using run accepted c \<open>c = Inr scope\<close> work groups s4
          by (cases x) (auto simp: run_optimized_def Let_def s2_def s3_def)
      qed
    qed
  qed (use s in auto)
qed

end

end
