(* ===== verification/Host_Progress.thy ===== *)
theory Host_Progress
  imports Host_Runtime
begin

text \<open>
  Liveness of the per-judgment executor on the connection runtime: with an active query, a free
  request slot and every registered entry completed, running the groups never blocks, and leaves the
  runtime in the same condition, so that the next chunk can run. The exact condition under which the
  two blocking loops return is stated for arbitrary other threads.
\<close>

section \<open>The blocking loops\<close>

lemma acquire_loop_returns:
  "qh_flags ((others ^^ m) s) c \<or> ps_active (cr_inflight ((others ^^ m) s)) < n \<Longrightarrow>
   acquire_loop others n c s \<noteq> None"
proof (induction m arbitrary: s)
  case 0
  then show ?case by (subst acquire_loop.simps) auto
next
  case (Suc m)
  then show ?case by (subst acquire_loop.simps) (auto simp: funpow_swap1)
qed

lemma host_ops_simps [simp]:
  "rt_claim_query_entry host_ops = claim_query_entry" "rt_query_cancellation host_ops = query_cancellation"
  "rt_record_cache_hit host_ops = record_cache_hit" "rt_cache_lookup host_ops = adapter_cache_lookup"
  "rt_others host_ops = other_threads"
  by (simp_all add: host_ops_def)

section \<open>Ready states\<close>

definition query_running :: "u64 \<Rightarrow> connection_runtime \<Rightarrow> bool" where
  "query_running scope s \<longleftrightarrow>
     (\<exists>q. active_scope scope s = Some q \<and> \<not> qh_flags s (aq_cancelled q))"

text \<open>
  Every registered entry but those of \<open>X\<close>, which are pending, is completed, with an outcome in \<open>A\<close>: any outcome where only
  progress matters, a success where errors are excluded too.
\<close>

definition entries_done :: "(judgment_result result \<Rightarrow> bool) \<Rightarrow> entry_ref set \<Rightarrow> connection_runtime \<Rightarrow> bool" where
  "entries_done A X s \<longleftrightarrow>
     (\<forall>(k, e) \<in> set (cr_query_entries s). e \<in> X \<and> qh_slots s e = None \<or> (\<exists>r. qh_slots s e = Some r \<and> A r))"

definition ready_for :: "(judgment_result result \<Rightarrow> bool) \<Rightarrow> usize \<Rightarrow> u64 \<Rightarrow> connection_runtime \<Rightarrow> bool" where
  "ready_for A n scope s \<longleftrightarrow> query_running scope s \<and> ps_active (cr_inflight s) < n \<and> entries_done A {} s"

abbreviation ready :: "usize \<Rightarrow> u64 \<Rightarrow> connection_runtime \<Rightarrow> bool" where
  "ready \<equiv> ready_for (\<lambda>_. True)"

definition succeeded :: "judgment_result result \<Rightarrow> bool" where
  "succeeded r \<longleftrightarrow> \<not> is_err r"

lemma succeeded_simps [simp]: "succeeded (Inr v)" "\<not> succeeded (Inl e)"
  by (simp_all add: succeeded_def is_err_def)

text \<open>
  What makes every outcome of a group acceptable: either errors are, or the request fits, the policy is
  valid and the provider answers it validly in every world.
\<close>

definition answers :: "'w provider \<Rightarrow> judgment_request \<Rightarrow> bool" where
  "answers provider rq \<longleftrightarrow>
     (\<forall>w. \<exists>response w' v. p_judge_with_metadata provider rq w = (Inr response, w')
        \<and> check_single_response rq response = Inr v)"

definition acceptable ::
  "(judgment_result result \<Rightarrow> bool) \<Rightarrow> 'w provider \<Rightarrow> execution_limits \<Rightarrow> cache_policy option \<Rightarrow> judgment_group \<Rightarrow> bool" where
  "acceptable A provider limits policy g \<longleftrightarrow>
     (\<forall>v. A (Inr v))
     \<and> ((\<forall>e. A (Inl e))
        \<or> p_estimate_request_bytes provider [jg_request g] \<le> el_max_request_bytes limits
          \<and> (\<forall>p. policy = Some p \<longrightarrow> policy_validate p = Inr ()) \<and> answers provider (jg_request g))"

lemma acceptable_any [simp]: "acceptable (\<lambda>_. True) provider limits policy g"
  by (simp add: acceptable_def)

lemma acceptable_ok: "acceptable A provider limits policy g \<Longrightarrow> A (Inr v)"
  by (simp add: acceptable_def)

lemma acceptable_policy: "acceptable A provider limits (Some p) g \<Longrightarrow> policy_validate p = Inl e \<Longrightarrow> A r"
  by (cases r) (auto simp: acceptable_def simp del: policy_validate_iff)

lemma acceptable_size:
  "acceptable A provider limits policy g \<Longrightarrow>
   el_max_request_bytes limits < p_estimate_request_bytes provider [jg_request g] \<Longrightarrow> A r"
  by (cases r) (auto simp: acceptable_def)

text \<open>What the operations between a claim and its completion leave alone.\<close>

definition same_core :: "u64 \<Rightarrow> connection_runtime \<Rightarrow> connection_runtime \<Rightarrow> bool" where
  "same_core scope s s' \<longleftrightarrow> cr_query_entries s' = cr_query_entries s \<and> qh_slots s' = qh_slots s
     \<and> query_running scope s' = query_running scope s \<and> ps_active (cr_inflight s') = ps_active (cr_inflight s)"

lemma same_core_refl [simp]: "same_core scope s s"
  by (simp add: same_core_def)

lemma same_core_trans: "same_core scope s s' \<Longrightarrow> same_core scope s' s'' \<Longrightarrow> same_core scope s s''"
  by (simp add: same_core_def)

lemma same_core_counts: "same_core scope s s' \<Longrightarrow> same_core scope s (update_counts scope' f s')"
  by (auto simp: same_core_def update_counts_def update_query_def query_running_def active_scope_def
      split: option.splits if_splits)

lemma same_core_cache: "same_core scope s s' \<Longrightarrow> same_core scope s (s'\<lparr>cr_cache := c\<rparr>)"
  by (auto simp: same_core_def query_running_def active_scope_def split: option.splits if_splits)

lemma same_core_records:
  assumes "same_core scope s s'"
  shows "same_core scope s (record_cache_hit scope' s')"
    "same_core scope s (record_provider_attempt scope' n external s')"
    "same_core scope s (record_failed_request scope' s')"
    "same_core scope s (record_provider_response scope' metadata d external s')"
    "same_core scope s (record_provider_failure scope' d external s')"
    "same_core scope s (adapter_cache_insert k r now p s')"
    "same_core scope s (snd (adapter_cache_lookup ck now p s'))"
  using assms
  by (auto simp: record_cache_hit_def record_provider_attempt_def record_failed_request_def
      record_provider_response_def record_provider_failure_def adapter_cache_insert_def
      adapter_cache_lookup_def same_core_counts same_core_cache Let_def
      split: option.splits prod.splits bool.splits)

lemma same_core_ready: "same_core scope s s' \<Longrightarrow> ready_for A n scope s' = ready_for A n scope s"
  by (simp add: same_core_def ready_for_def entries_done_def)

lemma running_inflight [simp]: "query_running scope (s\<lparr>cr_inflight := ps\<rparr>) = query_running scope s"
  by (simp add: query_running_def active_scope_def split: option.splits)

lemma acquire_ready:
  assumes "query_running scope s" "ps_active (cr_inflight s) < n"
  shows "acquire_request_permit other_threads scope n s
    = Some (Inr 0, s\<lparr>cr_inflight := take_permit (cr_inflight s)\<rparr>)"
proof -
  obtain q where q: "active_scope scope s = Some q" "\<not> qh_flags s (aq_cancelled q)"
    using assms(1) by (auto simp: query_running_def)
  have "n \<noteq> 0" using assms(2) by auto
  then show ?thesis
    using q assms(2)
    by (simp add: acquire_request_permit_def query_cancellation_def pool_acquire_def acquire_loop.simps)
qed

lemma permit_returned:
  assumes "same_core scope (s\<lparr>cr_inflight := take_permit (cr_inflight s)\<rparr>) s'" "ps_active (cr_inflight s) < n"
  shows "same_core scope s (drop_permit s')"
proof -
  have "ps_active (cr_inflight s) + 1 \<noteq> 0"
    using assms(2) by (metis add.commute add_0 eq_iff_diff_eq_0 linorder_not_less word_n1_ge word_not_simps(3) add_eq_0_iff)
  then have "sat_sub (ps_active (cr_inflight s) + 1) 1 = ps_active (cr_inflight s)"
    by (simp add: sat_sub_def)
  then show ?thesis
    using assms(1)
    by (simp add: same_core_def take_permit_def Let_def drop_permit_def)
qed

section \<open>One group\<close>

lemma store_result_core:
  "store_result clock host_ops provider policy ck g m r (s', w) = (s'', w') \<Longrightarrow> same_core scope s s' \<Longrightarrow>
   same_core scope s s''"
  by (auto simp: store_result_def host_ops_def same_core_records split: option.splits if_splits prod.splits)

lemma settle_one_core:
  assumes "settle_one clock host_ops provider limits policy ck g permit outcome d (s', w) = (r, log, s'', w')"
    and "same_core scope (s\<lparr>cr_inflight := take_permit (cr_inflight s)\<rparr>) s'" "ps_active (cr_inflight s) < n"
  shows "same_core scope s s''"
proof -
  obtain t where "s'' = drop_permit t" "same_core scope (s\<lparr>cr_inflight := take_permit (cr_inflight s)\<rparr>) t"
  proof (cases outcome)
    case (Inl e)
    then show ?thesis using assms that by (auto simp: settle_one_def host_ops_def)
  next
    case (Inr response)
    let ?s3 = "record_provider_response (el_query_scope limits) (br_metadata response) d
      (p_makes_external_request provider) s'"
    have s3: "same_core scope (s\<lparr>cr_inflight := take_permit (cr_inflight s)\<rparr>) ?s3"
      by (rule same_core_records(4) [OF assms(2)])
    show ?thesis
    proof (cases "check_single_response (jg_request g) response")
      case (Inl e)
      then show ?thesis using assms(1) Inr s3 that by (auto simp: settle_one_def host_ops_def)
    next
      case v: (Inr v)
      obtain s4 w4 where store: "store_result clock host_ops provider policy ck g
          (pm_effective_model (br_metadata response)) v (?s3, w) = (s4, w4)" by fastforce
      show ?thesis
        using assms(1) Inr v store that [OF _ store_result_core [OF store s3]]
        by (auto simp: settle_one_def Let_def host_ops_def)
    qed
  qed
  then show ?thesis using permit_returned [OF _ assms(3)] by simp
qed

lemma settle_one_result:
  "settle_one clock host_ops provider limits policy ck g permit outcome d sw = (r, log, sw') \<Longrightarrow>
   r = result_bind outcome (check_single_response (jg_request g))"
  by (cases outcome) (auto simp: settle_one_def Let_def split: prod.splits sum.splits)

lemma attempt_one_returns:
  assumes "query_running (el_query_scope limits) s" "ps_active (cr_inflight s) < el_max_inflight limits"
    and "acceptable A provider limits policy g"
    "\<not> el_max_request_bytes limits < p_estimate_request_bytes provider [jg_request g]"
  shows "\<exists>r log s' w'. attempt_one clock host_ops provider limits policy ck g (s, w) = Some (r, log, s', w')
    \<and> same_core (el_query_scope limits) s s' \<and> A r"
proof -
  let ?scope = "el_query_scope limits"
  let ?s1 = "s\<lparr>cr_inflight := take_permit (cr_inflight s)\<rparr>"
  let ?s2 = "record_provider_attempt ?scope 1 (p_makes_external_request provider) ?s1"
  obtain t1 w1 where t1: "clock w = (t1, w1)" by fastforce
  obtain out w2 where out: "p_judge_with_metadata provider (jg_request g) w1 = (out, w2)" by fastforce
  obtain t2 w3 where t2: "clock w2 = (t2, w3)" by fastforce
  obtain r log s' w' where settle:
    "settle_one clock host_ops provider limits policy ck g 0 out (t2 - t1) (?s2, w3) = (r, log, s', w')"
    using prod_cases4 by blast
  have "attempt_one clock host_ops provider limits policy ck g (s, w) = Some (r, log, s', w')"
    using settle acquire_ready [OF assms(1,2)] by (simp add: attempt_one_def host_ops_def t1 out t2)
  moreover have "same_core ?scope s s'"
    by (rule settle_one_core [OF settle same_core_records(2) [OF same_core_refl] assms(2)])
  moreover have "A r"
  proof (cases "\<forall>e. A (Inl e)")
    case True
    then show ?thesis using acceptable_ok [OF assms(3)] by (cases r) auto
  next
    case False
    then obtain response w' v where "p_judge_with_metadata provider (jg_request g) w1 = (Inr response, w')"
      "check_single_response (jg_request g) response = Inr v"
      using assms(3) unfolding acceptable_def answers_def by blast
    then show ?thesis using settle_one_result [OF settle] out acceptable_ok [OF assms(3)] by simp
  qed
  ultimately show ?thesis by blast
qed

lemma account_failure_core:
  "same_core scope s s' \<Longrightarrow> same_core scope s (account_failure host_ops provider limits err log s')"
  by (simp add: account_failure_def host_ops_def Let_def same_core_records)

text \<open>Between a fresh claim of \<open>e\<close> and its completion only \<open>e\<close> is incomplete.\<close>

lemma complete_ready:
  assumes "query_running scope s" "ps_active (cr_inflight s) < n" "entries_done A {e} s" "A r"
  shows "ready_for A n scope (complete r e s)"
proof -
  have "cr_query_entries (complete r e s) = cr_query_entries s" "cr_inflight (complete r e s) = cr_inflight s"
    "cr_active_query (complete r e s) = cr_active_query s"
    by (simp_all add: complete_def split: option.splits)
  then show ?thesis
    using assms
    by (auto simp: ready_for_def query_running_def active_scope_def entries_done_def complete_slots)
qed

section \<open>Running with pending entries\<close>

definition running_with ::
  "(judgment_result result \<Rightarrow> bool) \<Rightarrow> entry_ref set \<Rightarrow> usize \<Rightarrow> u64 \<Rightarrow> connection_runtime \<Rightarrow> bool" where
  "running_with A X n scope s \<longleftrightarrow> query_running scope s \<and> ps_active (cr_inflight s) < n \<and> entries_done A X s
     \<and> (\<forall>e \<in> X. \<forall>r. qh_slots s e = Some r \<longrightarrow> A r)"

definition slots_kept :: "connection_runtime \<Rightarrow> connection_runtime \<Rightarrow> bool" where
  "slots_kept s s' \<longleftrightarrow> (\<forall>e r. qh_slots s e = Some r \<longrightarrow> qh_slots s' e = Some r)"

lemma slots_kept_refl [simp]: "slots_kept s s"
  by (simp add: slots_kept_def)

lemma slots_kept_trans: "slots_kept s s' \<Longrightarrow> slots_kept s' s'' \<Longrightarrow> slots_kept s s''"
  by (simp add: slots_kept_def)

lemma slots_kept_complete [simp]: "slots_kept s (complete r e s)"
  by (simp add: slots_kept_def complete_slots)

lemma same_core_kept: "same_core scope s s' \<Longrightarrow> slots_kept s s'"
  by (simp add: same_core_def slots_kept_def)

lemma same_core_running: "same_core scope s s' \<Longrightarrow> running_with A X n scope s' = running_with A X n scope s"
  by (simp add: same_core_def running_with_def entries_done_def)

lemma running_ready: "running_with A {} n scope s = ready_for A n scope s"
  by (simp add: running_with_def ready_for_def)

lemma complete_core:
  "cr_query_entries (complete r e s) = cr_query_entries s" "cr_inflight (complete r e s) = cr_inflight s"
  "query_running scope (complete r e s) = query_running scope s"
  by (simp_all add: complete_def query_running_def active_scope_def split: option.splits)

lemma running_complete: "running_with A X n scope s \<Longrightarrow> A r \<Longrightarrow> running_with A X n scope (complete r e s)"
  unfolding running_with_def
  by (intro conjI) (fastforce simp: entries_done_def complete_core complete_slots split: if_splits)+

lemma running_settled:
  "running_with A X n scope s \<Longrightarrow> (\<And>e. e \<in> X \<Longrightarrow> qh_slots s e \<noteq> None) \<Longrightarrow> ready_for A n scope s"
  by (fastforce simp: running_with_def ready_for_def entries_done_def)

text \<open>What a claim does to a runtime whose pending entries are \<open>X\<close>.\<close>

lemma running_complete_last:
  "running_with A (insert e X) n scope s \<Longrightarrow> A r \<Longrightarrow> running_with A X n scope (complete r e s)"
  unfolding running_with_def
  by (intro conjI) (fastforce simp: entries_done_def complete_core complete_slots split: if_splits)+

lemma claim_running:
  assumes run: "running_with A X n scope s" and claim: "claim_query_entry scope k s = (c, s1)"
  obtains (shared) e where "c = Inr (e, False)" "e \<in> X \<or> (\<exists>r. qh_slots s1 e = Some r \<and> A r)"
      "running_with A X n scope s1"
  | (fresh) e where "c = Inr (e, True)" "running_with A (insert e X) n scope s1"
  using claim
proof (cases rule: claim_cases)
  case (fail e)
  then show ?thesis
    using run claim by (auto simp: running_with_def query_running_def claim_query_entry_def Let_def split: option.splits prod.splits)
next
  case (shared e)
  have core: "same_core scope s s1" using shared(3) by (simp add: same_core_counts)
  then have "running_with A X n scope s1" using run same_core_running by blast
  moreover have "e \<in> X \<or> (\<exists>r. qh_slots s1 e = Some r \<and> A r)"
    using run map_of_SomeD [OF shared(2)] core by (auto simp: running_with_def entries_done_def same_core_def)
  ultimately show ?thesis using shared(1) that(1) by blast
next
  case (fresh t)
  let ?e = "qh_next_entry t"
  have core: "same_core scope s t" using fresh(3) by (simp add: same_core_counts)
  have "entries_done A (insert ?e X) s1"
    unfolding entries_done_def
  proof (rule ballI, unfold split_paired_all prod.case)
    fix k' e assume a: "(k', e) \<in> set (cr_query_entries s1)"
    have "(k', e) \<in> set (cr_query_entries t)" if "e \<noteq> ?e"
      using a that set_alist_put [of k ?e "cr_query_entries t"] fresh(4) by auto
    moreover have "e \<in> X \<and> qh_slots s e = None \<or> (\<exists>r. qh_slots s e = Some r \<and> A r)"
      if "(k', e) \<in> set (cr_query_entries s)" using run that by (auto simp: running_with_def entries_done_def)
    ultimately show "e \<in> insert ?e X \<and> qh_slots s1 e = None \<or> (\<exists>r. qh_slots s1 e = Some r \<and> A r)"
      using core fresh(4) by (cases "e = ?e") (auto simp: same_core_def new_query_entry_def)
  qed
  moreover have "query_running scope s1" "ps_active (cr_inflight s1) < n"
    using core run fresh(4)
    by (simp_all add: running_with_def same_core_def query_running_def active_scope_def new_query_entry_def)
  moreover have "\<forall>e \<in> insert ?e X. \<forall>r. qh_slots s1 e = Some r \<longrightarrow> A r"
    using core run fresh(4) by (auto simp: running_with_def same_core_def new_query_entry_def)
  ultimately show ?thesis using fresh(1) that(2) by (simp add: running_with_def)
qed

text \<open>What the whole phase does.\<close>

lemma claim_phase_running:
  assumes run: "running_with A X n scope s" and claim: "claim_phase clock host_ops scope policy ck k (s, w) = (c, s', w')"
    and ok: "\<forall>v. A (Inr v)" "\<forall>p e. policy = Some p \<longrightarrow> policy_validate p = Inl e \<longrightarrow> A (Inl e)"
  shows "case c of
      Claim_Failed e \<Rightarrow> (\<exists>p. policy = Some p \<and> policy_validate p = Inl e) \<and> running_with A X n scope s'
    | Claim_Follows e f \<Rightarrow> (e \<in> X \<or> (\<exists>r. qh_slots s' e = Some r \<and> A r)) \<and> running_with A X n scope s'
    | Claim_Hit v \<Rightarrow> running_with A X n scope s'
    | Claim_Leads e \<Rightarrow> running_with A (insert e X) n scope s'"
proof -
  obtain c1 s1 where c1: "claim_query_entry scope k s = (c1, s1)" by fastforce
  have active: "\<exists>q. active_scope scope t = Some q" if "running_with A Y n scope t" for Y t
    using that by (auto simp: running_with_def query_running_def)
  note phase = claim [unfolded claim_phase_def prod.case host_ops_simps c1 Let_def]
  from run c1 show ?thesis
  proof (cases rule: claim_running)
    case (shared e)
    then show ?thesis using phase active [OF shared(3)] by (auto simp: query_cancellation_def)
  next
    case (fresh e)
    obtain q where "active_scope scope s1 = Some q" using active [OF fresh(2)] by blast
    then have q: "query_cancellation scope s1 = (Inr (aq_cancelled q), s1)" by (simp add: query_cancellation_def)
    note phase1 = phase [unfolded fresh(1) q]
    show ?thesis
    proof (cases policy)
      case None
      then show ?thesis using phase1 fresh(2) by auto
    next
      case (Some p)
      obtain now w1 where now: "clock w = (now, w1)" by fastforce
      obtain hit s2 where hit: "adapter_cache_lookup ck now p s1 = (hit, s2)" by fastforce
      have core: "same_core scope s1 s2"
        using same_core_records(7) [OF same_core_refl, of scope s1 ck now p] by (simp add: hit)
      then have run2: "running_with A (insert e X) n scope s2" using fresh(2) same_core_running by blast
      have done2: "running_with A X n scope (complete (Inr v) e (record_cache_hit scope s2))" for v
        using same_core_running [OF same_core_records(1) [OF same_core_refl], of A "insert e X" n scope scope s2] run2 ok(1)
        by (intro running_complete_last) simp_all
      show ?thesis
      proof (cases "policy_validate p")
        case (Inl error)
        then have "running_with A X n scope (complete (Inl error) e s1)"
          using fresh(2) ok(2) Some by (intro running_complete_last) blast+
        then show ?thesis using phase1 Some Inl by (auto simp del: policy_validate_iff)
      next
        case (Inr u)
        then show ?thesis using phase1 Some now hit run2 done2 by (cases hit) (auto simp del: policy_validate_iff)
      qed
    qed
  qed
qed

lemma request_one_group_returns:
  assumes s: "query_running (el_query_scope limits) s" "ps_active (cr_inflight s) < el_max_inflight limits"
    "entries_done A {e} s" "acceptable A provider limits policy g"
  shows "\<exists>r s' w'. request_one_group clock host_ops provider limits policy ck g e (s, w) = Some (r, s', w')
    \<and> ready_for A (el_max_inflight limits) (el_query_scope limits) s' \<and> A r"
proof (cases "el_max_request_bytes limits < p_estimate_request_bytes provider [jg_request g]")
  case True
  then show ?thesis using complete_ready [OF s(1-3)] acceptable_size [OF s(4)] by (simp add: request_one_group_def Let_def)
next
  case False
  obtain r log s1 w1 where att: "attempt_one clock host_ops provider limits policy ck g (s, w) = Some (r, log, s1, w1)"
    "same_core (el_query_scope limits) s s1" "A r"
    using attempt_one_returns [OF s(1,2,4) False] by blast
  let ?s2 = "account_failure host_ops provider limits (is_err r) log s1"
  have "same_core (el_query_scope limits) s ?s2" by (rule account_failure_core [OF att(2)])
  then have "ready_for A (el_max_inflight limits) (el_query_scope limits) (complete r e ?s2)"
    using s att(3) by (intro complete_ready) (simp_all add: same_core_def entries_done_def)
  then show ?thesis using False att(1,3) by (simp add: request_one_group_def Let_def)
qed

lemma execute_one_group_returns:
  assumes ready: "ready_for A (el_max_inflight limits) (el_query_scope limits) s"
    and ok: "acceptable A provider limits policy g"
  shows "\<exists>r s' w'. execute_one_group clock host_ops provider limits policy g (s, w) = Some (r, s', w')
    \<and> ready_for A (el_max_inflight limits) (el_query_scope limits) s' \<and> A r"
proof -
  let ?scope = "el_query_scope limits" and ?n = "el_max_inflight limits"
  let ?ck = "case policy of None \<Rightarrow> None | Some _ \<Rightarrow> cache_identity_for g provider"
  obtain c s1 w1 where c: "claim_phase clock host_ops ?scope policy ?ck (jg_identity g) (s, w) = (c, s1, w1)"
    using prod_cases3 by blast
  have fine: "\<forall>v. A (Inr v)" and invalid: "\<forall>p e. policy = Some p \<longrightarrow> policy_validate p = Inl e \<longrightarrow> A (Inl e)"
    using acceptable_policy acceptable_ok ok by blast+
  note claimed = claim_phase_running [OF ready [folded running_ready] c fine invalid]
  show ?thesis
  proof (cases c)
    case (Claim_Failed e)
    then show ?thesis using claimed invalid c by (auto simp: execute_one_group_claims Let_def running_ready)
  next
    case (Claim_Follows e f)
    then show ?thesis using claimed c by (auto simp: execute_one_group_claims Let_def running_ready)
  next
    case (Claim_Hit v)
    then show ?thesis using claimed c fine by (auto simp: execute_one_group_claims Let_def running_ready)
  next
    case (Claim_Leads e)
    then have "running_with A {e} ?n ?scope s1" using claimed by simp
    then show ?thesis
      using Claim_Leads c request_one_group_returns [OF _ _ _ ok, of s1 e clock ?ck w1]
      by (simp add: execute_one_group_claims running_with_def)
  qed
qed

lemma execute_each_returns:
  assumes "\<forall>g \<in> set groups. acceptable A provider limits policy g"
    and "\<forall>out. B (Inr out)" "\<forall>e. A (Inl e) \<longrightarrow> B (Inl e)"
  shows "ready_for A (el_max_inflight limits) (el_query_scope limits) s \<Longrightarrow>
    \<exists>r s' w'. execute_each clock host_ops provider limits policy out groups (s, w) = Some (r, s', w')
      \<and> ready_for A (el_max_inflight limits) (el_query_scope limits) s' \<and> B r"
  using assms(1)
proof (induction groups arbitrary: out s w)
  case (Cons g groups)
  obtain r s1 w1 where one: "execute_one_group clock host_ops provider limits policy g (s, w) = Some (r, s1, w1)"
    "ready_for A (el_max_inflight limits) (el_query_scope limits) s1" "A r"
    using execute_one_group_returns [OF Cons.prems(1)] Cons.prems(2) by (metis list.set_intros(1))
  then show ?case using Cons.IH [OF one(2)] Cons.prems(2) assms(3) by (cases r) simp_all
qed (simp add: assms(2))

end
