(* ===== verification/Provider_Calls.thy ===== *)
theory Provider_Calls
  imports Batch_Soundness
begin

text \<open>
  Which calls the executors make. The world is changed by the clock and by the provider only, so
  whatever holds initially and is stable under admissible calls holds at the end; the admissible
  calls are those within the configured limits, with distinct keys, over groups of one batch context.
\<close>

section \<open>Admissible calls\<close>

definition admissible_single :: "judgment_group list \<Rightarrow> 'w provider \<Rightarrow> execution_limits \<Rightarrow> judgment_request \<Rightarrow> bool" where
  "admissible_single groups provider limits rq \<longleftrightarrow>
     rq \<in> jg_request ` set groups \<and> p_estimate_request_bytes provider [rq] \<le> el_max_request_bytes limits"

definition admissible_batch ::
  "judgment_group list \<Rightarrow> 'w provider \<Rightarrow> usize \<Rightarrow> execution_limits \<Rightarrow> judgment_request list \<Rightarrow> bool" where
  "admissible_batch groups provider mx limits rqs \<longleftrightarrow>
     rqs \<noteq> [] \<and> length rqs \<le> unat mx
     \<and> p_estimate_request_bytes provider rqs \<le> el_max_request_bytes limits
     \<and> distinct (map rq_request_key rqs)
     \<and> (\<exists>indices. set indices \<subseteq> {..<length groups} \<and> rqs = requests_for_groups groups indices None
          \<and> (\<forall>i \<in> set indices. \<forall>j \<in> set indices.
               same_batch_context (jg_identity (groups ! i)) (jg_identity (groups ! j))))"

definition stable_clock :: "('w \<Rightarrow> instant \<times> 'w) \<Rightarrow> ('w \<Rightarrow> bool) \<Rightarrow> bool" where
  "stable_clock clock J \<longleftrightarrow> (\<forall>w. J w \<longrightarrow> J (snd (clock w)))"

lemma stable_clockD: "stable_clock clock J \<Longrightarrow> clock w = (t, w') \<Longrightarrow> J w \<Longrightarrow> J w'"
  by (auto simp: stable_clock_def dest: spec [of _ w])

lemma keys_distinct: "distinct (map rq_request_key (requests_for_groups groups indices a))"
proof -
  have "map rq_request_key (requests_for_groups groups indices a)
      = map (\<lambda>j. ''r'' @ nat_to_string j) [0..<length (requests_for_groups groups indices a)]"
    by (rule nth_equalityI) (auto simp: requests_for_groups_def nth_enumerate_eq Let_def split: option.splits)
  then show ?thesis by (simp add: distinct_map inj_on_def)
qed

lemma same_batch_context_equiv:
  "same_batch_context k k"
  "same_batch_context k k' \<Longrightarrow> same_batch_context k' k"
  "same_batch_context k k' \<Longrightarrow> same_batch_context k' k'' \<Longrightarrow> same_batch_context k k''"
  by (simp_all add: same_batch_context_def)

section \<open>Single requests\<close>

lemma store_result_world:
  "store_result clock rt provider policy ck g m r (s, w) = (s', w') \<Longrightarrow> stable_clock clock J \<Longrightarrow> J w \<Longrightarrow> J w'"
  by (auto simp: store_result_def split: option.splits if_splits prod.splits dest: stable_clockD)

lemma settle_one_world:
  "settle_one clock rt provider limits policy ck g permit outcome d (s, w) = (r, log, s', w') \<Longrightarrow>
   stable_clock clock J \<Longrightarrow> J w \<Longrightarrow> J w'"
  by (auto simp: settle_one_def Let_def split: sum.splits prod.splits dest: store_result_world)

lemma attempt_one_world:
  assumes "attempt_one clock rt provider limits policy ck g (s, w) = Some (r, log, s', w')"
    and clk: "stable_clock clock J" and J: "J w"
    and call: "\<And>w. J w \<Longrightarrow> J (snd (p_judge_with_metadata provider (jg_request g) w))"
  shows "J w'"
proof -
  obtain t1 w1 where t1: "clock w = (t1, w1)" by fastforce
  obtain out w2 where out: "p_judge_with_metadata provider (jg_request g) w1 = (out, w2)" by fastforce
  obtain t2 w3 where t2: "clock w2 = (t2, w3)" by fastforce
  have "J w3" using J t1 t2 call [of w1] clk by (auto simp: out dest: stable_clockD)
  then show ?thesis
    using assms(1) J clk by (auto simp: attempt_one_def t1 out t2 split: option.splits sum.splits dest: settle_one_world)
qed

lemma request_one_group_world:
  assumes "request_one_group clock rt provider limits policy ck g e (s, w) = Some (r, s', w')"
    and clk: "stable_clock clock J" and J: "J w"
    and call: "\<And>w. J w \<Longrightarrow> p_estimate_request_bytes provider [jg_request g] \<le> el_max_request_bytes limits \<Longrightarrow>
      J (snd (p_judge_with_metadata provider (jg_request g) w))"
  shows "J w'"
proof (cases "el_max_request_bytes limits < p_estimate_request_bytes provider [jg_request g]")
  case True
  then show ?thesis using assms(1) J by (simp add: request_one_group_def Let_def)
next
  case False
  then obtain log s1 where "attempt_one clock rt provider limits policy ck g (s, w) = Some (r, log, s1, w')"
    using assms(1) by (auto simp: request_one_group_def Let_def split: option.splits)
  then show ?thesis
    by (rule attempt_one_world [OF _ clk J call]) (use False in \<open>simp_all add: not_less\<close>)
qed

lemma claim_phase_world:
  "claim_phase clock rt scope policy ck k (s, w) = (c, s', w') \<Longrightarrow> stable_clock clock J \<Longrightarrow> J w \<Longrightarrow> J w'"
  by (auto simp: claim_phase_def Let_def simp del: policy_validate_iff
      split: sum.splits prod.splits if_splits option.splits dest: stable_clockD)

lemma execute_one_group_world:
  assumes run: "execute_one_group clock rt provider limits policy g (s, w) = Some (r, s', w')"
    and clk: "stable_clock clock J" and J: "J w"
    and call: "\<And>w. J w \<Longrightarrow> p_estimate_request_bytes provider [jg_request g] \<le> el_max_request_bytes limits \<Longrightarrow>
      J (snd (p_judge_with_metadata provider (jg_request g) w))"
  shows "J w'"
proof -
  let ?ck = "case policy of None \<Rightarrow> None | Some _ \<Rightarrow> cache_identity_for g provider"
  obtain c s1 w1 where c: "claim_phase clock rt (el_query_scope limits) policy ?ck (jg_identity g) (s, w) = (c, s1, w1)"
    using prod_cases3 by blast
  have "J w1" by (rule claim_phase_world [OF c clk J])
  then show ?thesis
    using run request_one_group_world [OF _ clk _ call, where w = w1]
    by (cases c) (auto simp: execute_one_group_claims Let_def c split: option.splits)
qed

lemma execute_each_world:
  "execute_each clock rt provider limits policy out groups (s, w) = Some (r, s', w') \<Longrightarrow>
   stable_clock clock J \<Longrightarrow> J w \<Longrightarrow>
   (\<And>rq w. J w \<Longrightarrow> admissible_single groups provider limits rq \<Longrightarrow> J (snd (p_judge_with_metadata provider rq w))) \<Longrightarrow>
   J w'"
proof (induction groups arbitrary: out s w)
  case (Cons g groups)
  obtain r1 s1 w1 where one: "execute_one_group clock rt provider limits policy g (s, w) = Some (r1, s1, w1)"
    using Cons.prems(1) by (auto simp: split: option.splits)
  have J1: "J w1"
    by (rule execute_one_group_world [OF one Cons.prems(2,3) Cons.prems(4)]) (simp_all add: admissible_single_def)
  show ?case
  proof (cases r1)
    case (Inl e)
    then show ?thesis using Cons.prems(1) one J1 by simp
  next
    case (Inr v)
    then have "execute_each clock rt provider limits policy
        (out @ map (\<lambda>target. (target, v)) (jg_targets g)) groups (s1, w1) = Some (r, s', w')"
      using Cons.prems(1) one by simp
    then show ?thesis
      by (rule Cons.IH [OF _ Cons.prems(2) J1 Cons.prems(4)]) (simp_all add: admissible_single_def)
  qed
qed simp

section \<open>Batches\<close>

text \<open>Every partition of a plan is a non-empty set of groups of one batch context.\<close>

definition one_context :: "judgment_group list \<Rightarrow> nat list \<Rightarrow> bool" where
  "one_context groups is \<longleftrightarrow> set is \<subseteq> {..<length groups}
     \<and> (\<forall>i \<in> set is. \<forall>j \<in> set is. same_batch_context (jg_identity (groups ! i)) (jg_identity (groups ! j)))"

lemma one_context_hd:
  assumes "one_context groups is" "is \<noteq> []" "j < length groups"
    and "same_batch_context (jg_identity (groups ! hd is)) (jg_identity (groups ! j))"
  shows "one_context groups (is @ [j])"
proof -
  have "same_batch_context (jg_identity (groups ! i)) (jg_identity (groups ! j))" if "i \<in> set is" for i
    using assms that same_batch_context_equiv(3) by (metis hd_in_set one_context_def)
  then show ?thesis
    using assms(1,3) by (auto simp: one_context_def same_batch_context_equiv(1) intro: same_batch_context_equiv(2))
qed

lemma one_context_mono: "one_context groups is \<Longrightarrow> set js \<subseteq> set is \<Longrightarrow> one_context groups js"
  by (auto simp: one_context_def)

definition contexts_ok :: "judgment_group list \<Rightarrow> nat list list \<Rightarrow> bool" where
  "contexts_ok groups ps \<longleftrightarrow> (\<forall>p \<in> set ps. p \<noteq> [] \<and> one_context groups p)"

lemma contexts_ok_add: "contexts_ok groups ps \<Longrightarrow> i < length groups \<Longrightarrow> contexts_ok groups (add_to_partition groups i ps)"
proof (induction ps)
  case Nil
  then show ?case by (simp add: contexts_ok_def one_context_def same_batch_context_equiv(1))
next
  case (Cons p ps)
  have p: "p \<noteq> []" "one_context groups p" and ps: "contexts_ok groups ps"
    using Cons.prems(1) by (simp_all add: contexts_ok_def)
  show ?case
  proof (cases "same_batch_context (jg_identity (groups ! hd p)) (jg_identity (groups ! i))")
    case True
    then show ?thesis
      using one_context_hd [OF p(2,1) Cons.prems(2) True] ps by (simp add: contexts_ok_def)
  next
    case False
    then show ?thesis using Cons.IH [OF ps Cons.prems(2)] p by (simp add: contexts_ok_def)
  qed
qed

lemma plan_group_world:
  assumes run: "plan_group clock rt provider limits policy groups i plan (s, w) = (r, s', w')"
    and clk: "stable_clock clock J" and J: "J w" and i: "i < length groups"
    and ok: "contexts_ok groups (bp_partitions plan)"
  shows "J w' \<and> (\<forall>plan'. r = Inr plan' \<longrightarrow> contexts_ok groups (bp_partitions plan'))"
proof -
  let ?ck = "case policy of None \<Rightarrow> None | Some _ \<Rightarrow> cache_identity_for (groups ! i) provider"
  obtain c s1 w1 where c: "claim_phase clock rt (el_query_scope limits) policy ?ck (jg_identity (groups ! i)) (s, w) = (c, s1, w1)"
    using prod_cases3 by blast
  have "J w1" by (rule claim_phase_world [OF c clk J])
  then show ?thesis
    using run J ok contexts_ok_add [OF ok i]
    by (cases c) (auto simp: plan_group_claims Let_def c add_leader_def split: if_splits)
qed

lemma plan_groups_world:
  "plan_groups clock rt provider limits policy groups indices plan (s, w) = (r, s', w') \<Longrightarrow>
   stable_clock clock J \<Longrightarrow> J w \<Longrightarrow> (\<And>i. i \<in> set indices \<Longrightarrow> i < length groups) \<Longrightarrow>
   contexts_ok groups (bp_partitions plan) \<Longrightarrow>
   J w' \<and> (\<forall>plan'. r = Inr plan' \<longrightarrow> contexts_ok groups (bp_partitions plan'))"
proof (induction indices arbitrary: plan s w)
  case (Cons i indices)
  obtain r1 s1 w1 where one: "plan_group clock rt provider limits policy groups i plan (s, w) = (r1, s1, w1)"
    using prod_cases3 by blast
  note J1 = plan_group_world [OF one Cons.prems(2,3) Cons.prems(4) [of i] Cons.prems(5)]
  show ?case
  proof (cases r1)
    case (Inl e)
    then show ?thesis using Cons.prems(1) one J1 by auto
  next
    case (Inr plan1)
    then have "plan_groups clock rt provider limits policy groups indices plan1 (s1, w1) = (r, s', w')"
      using Cons.prems(1) one by simp
    then show ?thesis by (rule Cons.IH) (use Cons.prems J1 Inr in auto)
  qed
qed auto

lemma publish_results_world:
  "publish_results clock rt provider policy groups plan m results out (s, w) = (out', s', w') \<Longrightarrow>
   stable_clock clock J \<Longrightarrow> J w \<Longrightarrow> J w'"
proof (induction results arbitrary: out s w)
  case (Cons iv results)
  obtain i v where iv: "iv = (i, v)" by fastforce
  obtain s1 w1 where store: "store_result clock rt provider policy (map_of (bp_cache_keys plan) i)
      (groups ! i) m v (s, w) = (s1, w1)" by fastforce
  have "J w1" by (rule store_result_world [OF store Cons.prems(2,3)])
  then show ?case using Cons.IH [OF _ Cons.prems(2)] Cons.prems(1) by (simp add: iv store)
qed simp

lemma dispatch_world:
  assumes run: "dispatch clock rt provider limits policy groups plan indices out (s, w) = Some (r, s', w')"
    and clk: "stable_clock clock J" and J: "J w"
    and call: "\<And>w. J w \<Longrightarrow> J (snd (p_judge_many provider (requests_for_groups groups indices None) w))"
  shows "J w'"
proof -
  obtain a log s1 w1 where att: "attempt_batch clock rt provider limits
      (requests_for_groups groups indices None) indices (s, w) = Some (a, log, s1, w1)"
    using run by (auto simp: dispatch_def split: option.splits)
  obtain t1 v1 where t1: "clock w = (t1, v1)" by fastforce
  obtain resp v2 where resp: "p_judge_many provider (requests_for_groups groups indices None) v1 = (resp, v2)" by fastforce
  obtain t2 v3 where t2: "clock v2 = (t2, v3)" by fastforce
  have "J v3" using J t1 t2 call [of v1] clk by (auto simp: resp dest: stable_clockD)
  then have "J w1"
    using att J by (auto simp: attempt_batch_def Let_def t1 resp t2 split: option.splits sum.splits)
  then show ?thesis
    using run att clk
    by (auto simp: dispatch_def Let_def split: sum.splits prod.splits dest: publish_results_world)
qed

lemma dispatch_or_fail_world:
  assumes "dispatch_or_fail clock rt provider limits policy groups plan indices out (s, w) = Some (r, s', w')"
    and "stable_clock clock J" "J w"
    and "\<And>w. J w \<Longrightarrow> J (snd (p_judge_many provider (requests_for_groups groups indices None) w))"
  shows "J w'"
proof -
  obtain r1 s1 where "dispatch clock rt provider limits policy groups plan indices out (s, w) = Some (r1, s1, w')"
    using assms(1) by (auto simp: dispatch_or_fail_def split: option.splits sum.splits)
  then show ?thesis by (rule dispatch_world [OF _ assms(2-4)])
qed

text \<open>The batch under construction is within the limits; \<open>all_is\<close> is the partition being chunked.\<close>

lemma admissible_current:
  assumes "one_context groups all_is" "set is \<subseteq> set all_is" "is \<noteq> []" "within_limits groups provider mx limits is"
  shows "admissible_batch groups provider mx limits (requests_for_groups groups is None)"
proof -
  have "requests_for_groups groups is None \<noteq> []"
    using assms(3) length_requests [of groups "is" None] by (metis list.size(3) length_0_conv add_0_right option.case(1))
  moreover have "one_context groups is" using assms(1,2) by (rule one_context_mono)
  ultimately show ?thesis
    using assms(3,4) by (auto simp: admissible_batch_def within_limits_def keys_distinct one_context_def)
qed

lemma run_partition_world:
  assumes clk: "stable_clock clock J" and ctx: "one_context groups all_is"
    and call: "\<And>rqs w. J w \<Longrightarrow> admissible_batch groups provider mx limits rqs \<Longrightarrow> J (snd (p_judge_many provider rqs w))"
  shows "run_partition clock rt provider mx limits policy groups plan indices current out (s, w) = Some (r, s', w') \<Longrightarrow>
    J w \<Longrightarrow> set indices \<subseteq> set all_is \<Longrightarrow> set current \<subseteq> set all_is \<Longrightarrow>
    within_limits groups provider mx limits current \<Longrightarrow> J w'"
proof -
  assume "run_partition clock rt provider mx limits policy groups plan indices current out (s, w) = Some (r, s', w')"
    "J w" "set indices \<subseteq> set all_is" "set current \<subseteq> set all_is" "within_limits groups provider mx limits current"
  moreover have dispatched: "J w1"
    if "dispatch_or_fail clock rt provider limits policy groups plan current out (s, w) = Some (r, s1, w1)"
      "current \<noteq> []" "J w" "set current \<subseteq> set all_is" "within_limits groups provider mx limits current" for current out s w r s1 w1
    by (rule dispatch_or_fail_world [OF that(1) clk that(3)])
      (rule call, assumption, rule admissible_current [OF ctx that(4,2,5)])
  ultimately show ?thesis
    unfolding run_partition_iff
  proof (induction rule: partition_run.induct)
    case sent_last
    then show ?case using dispatched by blast
  next
    case sent_failed
    then show ?case using dispatched by blast
  next
    case sent_too_large
    then show ?case using dispatched by blast
  next
    case (sent i current out s w out1 s1 w1 indices r s' w')
    then show ?case using dispatched [OF sent(4,3)] by simp
  qed simp_all
qed

lemma run_partitions_world:
  assumes clk: "stable_clock clock J"
    and call: "\<And>rqs w. J w \<Longrightarrow> admissible_batch groups provider mx limits rqs \<Longrightarrow> J (snd (p_judge_many provider rqs w))"
  shows "run_partitions clock rt provider mx limits policy groups plan ps out (s, w) = Some (r, s', w') \<Longrightarrow>
    J w \<Longrightarrow> contexts_ok groups ps \<Longrightarrow> J w'"
proof (induction ps arbitrary: out s w)
  case (Cons p ps)
  obtain r1 s1 w1 where one: "run_partition clock rt provider mx limits policy groups plan p [] out (s, w) = Some (r1, s1, w1)"
    using Cons.prems(1) by (auto split: option.splits)
  have "J w1"
    by (rule run_partition_world [OF clk _ call one Cons.prems(2)])
      (use Cons.prems(3) in \<open>auto simp: contexts_ok_def within_limits_def\<close>)
  then show ?case
    using Cons.prems one Cons.IH by (cases r1) (auto simp: contexts_ok_def)
qed simp

lemma execute_batch_groups_world:
  assumes run: "execute_batch_groups groups clock provider rt mx limits policy (s, w) = Some (r, s', w')"
    and clk: "stable_clock clock J" and J: "J w"
    and call: "\<And>rqs w. J w \<Longrightarrow>
      admissible_batch groups provider (batch_limit (p_capabilities provider) mx) limits rqs \<Longrightarrow>
      J (snd (p_judge_many provider rqs w))"
  shows "J w'"
proof -
  have planned: "J w1 \<and> (\<forall>plan. pr = Inr plan \<longrightarrow> contexts_ok groups (bp_partitions plan))"
    if "plan_groups clock rt provider limits policy groups [0..<length groups] empty_plan (s, w) = (pr, s1, w1)" for pr s1 w1
    by (rule plan_groups_world [OF that clk J]) (simp_all add: empty_plan_def contexts_ok_def)
  have runs: "J w2"
    if "plan_groups clock rt provider limits policy groups [0..<length groups] empty_plan (s, w) = (Inr plan, s1, w1)"
      "run_partitions clock rt provider (batch_limit (p_capabilities provider) mx) limits policy groups plan
         (bp_partitions plan) (bp_output plan) (s1, w1) = Some (r2, s2, w2)" for plan s1 w1 r2 s2 w2
    by (rule run_partitions_world [OF clk call that(2)]) (use planned [OF that(1)] in auto)
  from run show ?thesis
    by (cases rule: execute_batch_groups_cases) (use J planned runs in blast)+
qed

end
