(* ===== verification/Batch_Progress.thy ===== *)
theory Batch_Progress
  imports Host_Progress Provider_Calls
begin

text \<open>
  Liveness of the batching executor on the connection runtime. From a ready runtime, planning, dispatch
  and the wait for shared entries never block: the call returns, gives its request slots back and, unless
  planning was refused midway, leaves every entry it claimed completed. When the provider answers every
  batch validly it also succeeds.
\<close>

lemma slots_kept_fail [simp]: "slots_kept s (fail_entries error es s)"
  by (simp add: slots_kept_def fail_entries_slots)

lemma running_fail: "running_with A X n scope s \<Longrightarrow> A (Inl error) \<Longrightarrow> running_with A X n scope (fail_entries error es s)"
  unfolding fail_entries_def by (induction es arbitrary: s) (simp_all add: running_complete)

lemma leaders_done_kept: "slots_kept s s' \<Longrightarrow> leaders_done plan I s \<Longrightarrow> leaders_done plan I s'"
  by (fastforce simp: slots_kept_def leaders_done_def)

section \<open>What makes a batch run acceptable\<close>

text \<open>The checks of the planning loop that do not depend on the runtime.\<close>

definition plannable :: "'w provider \<Rightarrow> cache_policy option \<Rightarrow> judgment_group list \<Rightarrow> bool" where
  "plannable provider policy groups \<longleftrightarrow>
     (\<forall>p. policy = Some p \<longrightarrow> policy_validate p = Inr ())
     \<and> (\<forall>g \<in> set groups. supports (p_capabilities provider) (rq_kind (jg_request g)) = Verified
          \<and> \<not> too_many_choices provider (jg_request g))"

definition serves_batches :: "judgment_group list \<Rightarrow> 'w provider \<Rightarrow> usize \<Rightarrow> execution_limits \<Rightarrow> bool" where
  "serves_batches groups provider mx limits \<longleftrightarrow>
     (\<forall>g \<in> set groups. p_estimate_request_bytes provider [(jg_request g)\<lparr>rq_request_key := ''r0''\<rparr>]
        \<le> el_max_request_bytes limits)
     \<and> (\<forall>rqs w. admissible_batch groups provider mx limits rqs \<longrightarrow>
          (\<exists>response w'. p_judge_many provider rqs w = (Inr response, w') \<and> covers_batch rqs response))"

definition batch_acceptable ::
  "(judgment_result result \<Rightarrow> bool) \<Rightarrow> judgment_group list \<Rightarrow> 'w provider \<Rightarrow> usize \<Rightarrow> execution_limits
   \<Rightarrow> cache_policy option \<Rightarrow> bool" where
  "batch_acceptable A groups provider mx limits policy \<longleftrightarrow>
     (\<forall>v. A (Inr v))
     \<and> ((\<forall>e. A (Inl e)) \<or> plannable provider policy groups \<and> serves_batches groups provider mx limits)"

text \<open>A phase that has run: its outcome, and what it leaves of the pending entries.\<close>

definition settled ::
  "(judgment_result result \<Rightarrow> bool) \<Rightarrow> entry_ref set \<Rightarrow> execution_limits \<Rightarrow> batch_plan \<Rightarrow> nat set \<Rightarrow> 'r result
   \<Rightarrow> connection_runtime \<Rightarrow> connection_runtime \<Rightarrow> bool" where
  "settled A X limits plan I r s s' \<longleftrightarrow>
     running_with A X (el_max_inflight limits) (el_query_scope limits) s' \<and> slots_kept s s'
     \<and> (case r of Inr _ \<Rightarrow> leaders_done plan I s' | Inl e \<Rightarrow> A (Inl e) \<and> leaders_done plan UNIV s')"

lemma settledD:
  assumes "settled A X limits plan I r s s'"
  shows "running_with A X (el_max_inflight limits) (el_query_scope limits) s'" "slots_kept s s'"
    "r = Inr x \<Longrightarrow> leaders_done plan I s'" "r = Inl e \<Longrightarrow> A (Inl e)" "r = Inl e \<Longrightarrow> leaders_done plan UNIV s'"
  using assms by (auto simp: settled_def split: sum.splits)

lemma settled_failed:
  assumes "running_with A X (el_max_inflight limits) (el_query_scope limits) s'" "slots_kept s s'" "A (Inl error)"
  shows "settled A X limits plan I (Inl error) s (fail_leaders plan error s')"
proof -
  have "slots_kept s (fail_leaders plan error s')"
    unfolding fail_leaders_def by (rule slots_kept_trans [OF assms(2) slots_kept_fail])
  then show ?thesis
    using running_fail [OF assms(1,3)] assms(3) fail_leaders_done [of plan UNIV error s']
    by (simp add: settled_def fail_leaders_def)
qed

section \<open>One batch\<close>

lemma publish_results_running:
  "publish_results clock host_ops provider policy groups plan m results out (s, w) = (out', s', w') \<Longrightarrow>
   running_with A X n scope s \<Longrightarrow> (\<And>v. A (Inr v)) \<Longrightarrow>
   running_with A X n scope s' \<and> slots_kept s s' \<and> leaders_done plan (fst ` set results) s'"
proof (induction results arbitrary: out s w)
  case (Cons iv results)
  obtain i v where iv: "iv = (i, v)" by fastforce
  obtain s1 w1 where store: "store_result clock host_ops provider policy (map_of (bp_cache_keys plan) i)
      (groups ! i) m v (s, w) = (s1, w1)" by fastforce
  let ?e = "the (map_of (bp_leaders plan) i)"
  let ?s2 = "complete (Inr v) ?e s1"
  have core: "same_core scope s s1" by (rule store_result_core [OF store same_core_refl])
  have run2: "running_with A X n scope ?s2"
    using Cons.prems(2,3) same_core_running [OF core] by (intro running_complete) simp_all
  have kept: "slots_kept s ?s2" using slots_kept_trans [OF same_core_kept [OF core] slots_kept_complete] .
  have rest: "publish_results clock host_ops provider policy groups plan m results
      (out @ map (\<lambda>target. (target, v)) (jg_targets (groups ! i))) (?s2, w1) = (out', s', w')"
    using Cons.prems(1) by (simp add: iv store Let_def)
  have IH: "running_with A X n scope s' \<and> slots_kept ?s2 s' \<and> leaders_done plan (fst ` set results) s'"
    by (rule Cons.IH [OF rest run2 Cons.prems(3)])
  have "leaders_done plan {i} ?s2"
    by (auto simp: leaders_done_def complete_slots)
  then have "leaders_done plan {i} s'" using IH leaders_done_kept by blast
  then show ?case
    using IH kept slots_kept_trans by (auto simp: iv leaders_done_def)
qed simp

lemma check_batch_response_ok:
  assumes "covers_batch (requests_for_groups groups indices None) response"
  shows "\<exists>results. check_batch_response (requests_for_groups groups indices None) indices response = Inr results"
proof -
  let ?rqs = "requests_for_groups groups indices None"
  have collect: "\<exists>results. collect_answers (answer_map response) pairs = Inr results" if "set (map snd pairs) \<subseteq> set ?rqs" for pairs
    using that
  proof (induction pairs)
    case (Cons p pairs)
    obtain i rq where p: "p = (i, rq)" by fastforce
    then obtain v where v: "answer_map response (rq_request_key rq) = Some v" "valid_answer (rq_kind rq) (rq_choices rq) v"
      using covers_batch_lookup [OF assms, of rq] Cons.prems by auto
    obtain results where "collect_answers (answer_map response) pairs = Inr results" using Cons by auto
    then show ?case using v by (auto simp: p result_bind_Inr)
  qed simp
  have "set (map snd (zip indices ?rqs)) \<subseteq> set ?rqs" by (auto dest: set_zip_rightD)
  from collect [OF this] show ?thesis using assms by (auto simp: check_batch_response_def result_bind_Inr)
qed

lemma attempt_batch_returns:
  fixes groups indices
  defines "rqs \<equiv> requests_for_groups groups indices None"
  assumes run: "query_running (el_query_scope limits) s" "ps_active (cr_inflight s) < el_max_inflight limits"
    and ok: "(\<forall>e. A (Inl e)) \<or> (\<forall>w. \<exists>response w'. p_judge_many provider rqs w = (Inr response, w') \<and> covers_batch rqs response)"
  shows "\<exists>r log s' w'. attempt_batch clock host_ops provider limits rqs indices (s, w) = Some (r, log, s', w')
    \<and> same_core (el_query_scope limits) s s'
    \<and> (case r of Inl e \<Rightarrow> A (Inl e) | Inr (results, m) \<Rightarrow> map fst results = indices)"
proof -
  let ?scope = "el_query_scope limits"
  let ?s1 = "s\<lparr>cr_inflight := take_permit (cr_inflight s)\<rparr>"
  let ?s2 = "record_provider_attempt ?scope (usize_of (length rqs)) (p_makes_external_request provider) ?s1"
  obtain t1 w1 where t1: "clock w = (t1, w1)" by fastforce
  obtain outcome w2 where outcome: "p_judge_many provider rqs w1 = (outcome, w2)" by fastforce
  obtain t2 w3 where t2: "clock w2 = (t2, w3)" by fastforce
  have core2: "same_core ?scope ?s1 ?s2" by (rule same_core_records(2) [OF same_core_refl])
  note acquired = acquire_ready [OF run]
  show ?thesis
  proof (cases outcome)
    case (Inl e)
    then have "A (Inl e)" using ok outcome by (metis Inl_Inr_False prod.inject)
    then show ?thesis
      using Inl acquired t1 outcome t2 permit_returned [OF core2 run(2)]
      by (simp add: attempt_batch_def host_ops_def Let_def)
  next
    case (Inr response)
    let ?s3 = "record_provider_response ?scope (br_metadata response) (t2 - t1) (p_makes_external_request provider) ?s2"
    have core3: "same_core ?scope ?s1 ?s3" by (rule same_core_records(4) [OF core2])
    let ?r = "result_bind (check_batch_response rqs indices response) (\<lambda>results.
        Inr (results, pm_effective_model (br_metadata response)))"
    have "case ?r of Inl e \<Rightarrow> A (Inl e) | Inr (results, m) \<Rightarrow> map fst results = indices"
    proof (cases "check_batch_response rqs indices response")
      case (Inl e)
      then have "\<not> covers_batch rqs response" using check_batch_response_ok unfolding rqs_def by fastforce
      then have "A (Inl e)" using ok outcome Inr \<open>outcome = Inr response\<close> by (metis prod.inject sum.inject(2))
      then show ?thesis using Inl by simp
    next
      case results: (Inr results)
      then have "collect_answers (answer_map response) (zip indices rqs) = Inr results"
        by (auto simp: check_batch_response_def result_bind_Inr)
      from collect_answers_Inr [OF this] show ?thesis using results by (simp add: rqs_def)
    qed
    then show ?thesis
      using Inr acquired t1 outcome t2 permit_returned [OF core3 run(2)]
      by (simp add: attempt_batch_def host_ops_def Let_def)
  qed
qed

lemma dispatch_returns:
  assumes run: "running_with A X (el_max_inflight limits) (el_query_scope limits) s"
    and ok: "batch_acceptable A groups provider mx limits policy"
    and adm: "admissible_batch groups provider mx limits (requests_for_groups groups indices None)"
  shows "\<exists>r s' w'. dispatch_or_fail clock host_ops provider limits policy groups plan indices out (s, w) = Some (r, s', w')
    \<and> settled A X limits plan (set indices) r s s'"
proof -
  let ?rqs = "requests_for_groups groups indices None" and ?scope = "el_query_scope limits" and ?n = "el_max_inflight limits"
  have "(\<forall>e. A (Inl e)) \<or> (\<forall>w. \<exists>response w'. p_judge_many provider ?rqs w = (Inr response, w') \<and> covers_batch ?rqs response)"
    using ok adm unfolding batch_acceptable_def serves_batches_def by blast
  then obtain r log s1 w1 where att: "attempt_batch clock host_ops provider limits ?rqs indices (s, w) = Some (r, log, s1, w1)"
    and core: "same_core ?scope s s1" and r: "case r of Inl e \<Rightarrow> A (Inl e) | Inr (results, m) \<Rightarrow> map fst results = indices"
    using attempt_batch_returns [of limits s A provider groups indices clock w] run unfolding running_with_def by blast
  let ?s2 = "account_failure host_ops provider limits (is_err r) log s1"
  have core2: "same_core ?scope s ?s2" by (rule account_failure_core [OF core])
  then have run2: "running_with A X ?n ?scope ?s2" "slots_kept s ?s2"
    using run same_core_running same_core_kept by blast+
  show ?thesis
  proof (cases r)
    case (Inl e)
    let ?s3 = "fail_entries e (map (\<lambda>index. the (map_of (bp_leaders plan) index)) indices) ?s2"
    have e: "A (Inl e)" using r Inl by simp
    have "settled A X limits plan (set indices) (Inl e) s (fail_leaders plan e ?s3)"
      by (rule settled_failed [OF running_fail [OF run2(1) e] slots_kept_trans [OF run2(2) slots_kept_fail] e])
    then show ?thesis using att Inl by (simp add: dispatch_or_fail_def dispatch_def Let_def)
  next
    case (Inr x)
    obtain results m where x: "x = (results, m)" by fastforce
    obtain out' s3 w3 where pub: "publish_results clock host_ops provider policy groups plan m results out (?s2, w1) = (out', s3, w3)"
      using prod_cases3 by blast
    have "running_with A X ?n ?scope s3 \<and> slots_kept ?s2 s3 \<and> leaders_done plan (fst ` set results) s3"
      by (rule publish_results_running [OF pub run2(1)]) (use ok in \<open>simp add: batch_acceptable_def\<close>)
    moreover have "fst ` set results = set indices" using r Inr x by (auto simp flip: set_map)
    ultimately have "settled A X limits plan (set indices) (Inr out') s s3"
      using run2(2) slots_kept_trans by (auto simp: settled_def)
    then show ?thesis using att Inr x pub by (simp add: dispatch_or_fail_def dispatch_def Let_def)
  qed
qed

section \<open>Partitions\<close>

lemma settled_then:
  assumes "settled A X limits plan I (Inr out) s s1" "settled A X limits plan J r s1 s2"
  shows "settled A X limits plan (I \<union> J) r s s2"
proof -
  have "leaders_done plan I s2"
    using leaders_done_kept [OF settledD(2) [OF assms(2)] settledD(3) [OF assms(1)]] by simp
  then show ?thesis
    using assms slots_kept_trans by (auto simp: settled_def split: sum.splits)
qed

lemma settled_refl:
  "running_with A X (el_max_inflight limits) (el_query_scope limits) s \<Longrightarrow> settled A X limits plan {} (Inr out) s s"
  by (simp add: settled_def)

lemma single_fits:
  assumes "batch_acceptable A groups provider mx limits policy" "i < length groups" "0 < mx"
  shows "(\<forall>e. A (Inl e)) \<or> within_limits groups provider mx limits [i]"
proof -
  have one: "1 \<le> unat mx" using assms(3) by (simp add: word_less_nat_alt)
  have rqs: "requests_for_groups groups [i] None = [(jg_request (groups ! i))\<lparr>rq_request_key := ''r0''\<rparr>]"
    by (simp add: requests_for_groups_def) code_simp
  have "groups ! i \<in> set groups" using assms(2) by simp
  then show ?thesis
    using assms(1) one by (auto simp: batch_acceptable_def serves_batches_def within_limits_def rqs)
qed

lemma run_partition_returns:
  assumes ok: "batch_acceptable A groups provider mx limits policy" and mx: "0 < mx"
    and ctx: "one_context groups all_is" and leaders: "set all_is \<subseteq> fst ` set (bp_leaders plan)"
  shows "running_with A X (el_max_inflight limits) (el_query_scope limits) s \<Longrightarrow>
    set indices \<subseteq> set all_is \<Longrightarrow> set current \<subseteq> set all_is \<Longrightarrow> within_limits groups provider mx limits current \<Longrightarrow>
    \<exists>r s' w'. run_partition clock host_ops provider mx limits policy groups plan indices current out (s, w) = Some (r, s', w')
      \<and> settled A X limits plan (set current \<union> set indices) r s s'"
proof (induction indices arbitrary: current out s w)
  case Nil
  show ?case
  proof (cases "current = []")
    case True
    then show ?thesis using settled_refl [OF Nil.prems(1)] by simp
  next
    case False
    then show ?thesis
      using dispatch_returns [OF Nil.prems(1) ok admissible_current [OF ctx Nil.prems(3) False Nil.prems(4)]] by simp
  qed
next
  case (Cons i indices)
  let ?fits = "within_limits groups provider mx limits"
  have i: "i < length groups" and leader: "map_of (bp_leaders plan) i \<noteq> None"
    and rest: "set indices \<subseteq> set all_is" "set (current @ [i]) \<subseteq> set all_is" "set [i] \<subseteq> set all_is"
    using Cons.prems(2,3) ctx leaders by (auto simp: one_context_def map_of_eq_None_iff)
  have alone: "A (Inl e)" if "\<not> ?fits [i]" for e using single_fits [OF ok i mx] that by blast
  note step = run_partition_Cons [of clock host_ops provider mx limits policy groups plan i indices current out s w]
  consider (fits) "?fits (current @ [i])" | (none) "\<not> ?fits (current @ [i])" "current = []"
    | (full) "\<not> ?fits (current @ [i])" "current \<noteq> []" by blast
  then show ?case
  proof cases
    case fits
    then show ?thesis
      using Cons.IH [OF Cons.prems(1) rest(1,2) fits, of out w] step leader by (auto simp: insert_commute)
  next
    case none
    then show ?thesis
      using step leader settled_failed [OF Cons.prems(1) slots_kept_refl alone] by (auto simp: Let_def)
  next
    case full
    obtain r1 s1 w1 where d: "dispatch_or_fail clock host_ops provider limits policy groups plan current out (s, w) = Some (r1, s1, w1)"
      and s1: "settled A X limits plan (set current) r1 s s1"
      using dispatch_returns [OF Cons.prems(1) ok admissible_current [OF ctx Cons.prems(3) full(2) Cons.prems(4)]] by blast
    note step1 = step [unfolded if_not_P [OF full(1)] if_not_P [OF full(2)] if_not_P [OF leader] d]
    show ?thesis
    proof (cases r1)
      case (Inl e)
      then show ?thesis using step1 s1 by (auto simp: settled_def)
    next
      case (Inr out1)
      note s1 = s1 [unfolded Inr]
      show ?thesis
      proof (cases "?fits [i]")
        case True
        then show ?thesis
          using Cons.IH [OF settledD(1) [OF s1] rest(1,3) True, of out1 w1] settled_then [OF s1] step1 Inr by fastforce
      next
        case False
        then show ?thesis
          using step1 Inr settled_failed [OF settledD(1,2) [OF s1] alone [OF False]] by (auto simp: Let_def)
      qed
    qed
  qed
qed

lemma run_partitions_returns:
  assumes ok: "batch_acceptable A groups provider mx limits policy" and mx: "0 < mx"
  shows "running_with A X (el_max_inflight limits) (el_query_scope limits) s \<Longrightarrow>
    contexts_ok groups ps \<Longrightarrow> set (concat ps) \<subseteq> fst ` set (bp_leaders plan) \<Longrightarrow>
    \<exists>r s' w'. run_partitions clock host_ops provider mx limits policy groups plan ps out (s, w) = Some (r, s', w')
      \<and> settled A X limits plan (set (concat ps)) r s s'"
proof (induction ps arbitrary: out s w)
  case Nil
  then show ?case using settled_refl by simp
next
  case (Cons p ps)
  have ctx: "one_context groups p" "contexts_ok groups ps" and sub: "set p \<subseteq> fst ` set (bp_leaders plan)"
    "set (concat ps) \<subseteq> fst ` set (bp_leaders plan)"
    using Cons.prems(2,3) by (auto simp: contexts_ok_def)
  obtain r1 s1 w1 where one: "run_partition clock host_ops provider mx limits policy groups plan p [] out (s, w) = Some (r1, s1, w1)"
    and s1: "settled A X limits plan (set p) r1 s s1"
    using run_partition_returns [OF ok mx ctx(1) sub(1) Cons.prems(1), of p "[]" clock out w]
    by (auto simp: within_limits_def)
  show ?case
  proof (cases r1)
    case (Inl e)
    then have "settled A X limits plan (set (concat (p # ps))) r1 s s1" using s1 by (simp add: settled_def)
    then show ?thesis using one Inl by simp
  next
    case (Inr out1)
    obtain r s' w' where two: "run_partitions clock host_ops provider mx limits policy groups plan ps out1 (s1, w1) = Some (r, s', w')"
      "settled A X limits plan (set (concat ps)) r s1 s'"
      using Cons.IH [OF settledD(1) [OF s1] ctx(2) sub(2), of out1 w1] by blast
    then show ?thesis using settled_then [OF s1 [unfolded Inr] two(2)] one Inr by simp
  qed
qed

lemma await_followers_returns:
  "(\<And>i e c. (i, e, c) \<in> set fs \<Longrightarrow> \<exists>r. qh_slots s e = Some r \<and> A r) \<Longrightarrow>
   \<exists>r. await_followers host_ops groups fs out s = Some (r, s) \<and> (\<forall>e. r = Inl e \<longrightarrow> A (Inl e))"
proof (induction fs arbitrary: out)
  case (Cons f fs)
  obtain i e c where f: "f = (i, e, c)" using prod_cases3 by blast
  obtain r where r: "qh_slots s e = Some r" "A r" using Cons.prems [of i e c] f by auto
  show ?case
  proof (cases r)
    case (Inl x)
    then show ?thesis using r by (simp add: f)
  next
    case (Inr v)
    have "\<exists>r. await_followers host_ops groups fs (out @ map (\<lambda>target. (target, v)) (jg_targets (groups ! i))) s = Some (r, s)
        \<and> (\<forall>e. r = Inl e \<longrightarrow> A (Inl e))"
      by (rule Cons.IH) (use Cons.prems in auto)
    then show ?thesis using r Inr by (simp add: f)
  qed
qed simp

section \<open>Planning\<close>

definition idle :: "usize \<Rightarrow> u64 \<Rightarrow> connection_runtime \<Rightarrow> bool" where
  "idle n scope s \<longleftrightarrow> query_running scope s \<and> ps_active (cr_inflight s) < n"

lemma running_idle: "running_with A X n scope s \<Longrightarrow> idle n scope s"
  by (simp add: running_with_def idle_def)

lemma ready_idle: "ready_for A n scope s \<Longrightarrow> idle n scope s"
  by (simp add: ready_for_def idle_def)

text \<open>No condition on results: what is left of the soundness lemmas is how the heap grows.\<close>

interpretation anything: host_judgments "\<lambda>_ _. True"
  by unfold_locales simp

text \<open>The invariant of the planning loop after the indices \<open>prev\<close>.\<close>

definition pending_leaders :: "batch_plan \<Rightarrow> entry_ref set" where
  "pending_leaders plan = snd ` set (bp_leaders plan)"

definition planned ::
  "(judgment_result result \<Rightarrow> bool) \<Rightarrow> execution_limits \<Rightarrow> judgment_group list \<Rightarrow> nat list \<Rightarrow> batch_plan
   \<Rightarrow> connection_runtime \<Rightarrow> bool" where
  "planned A limits groups prev plan s \<longleftrightarrow>
     running_with A (pending_leaders plan) (el_max_inflight limits) (el_query_scope limits) s
     \<and> (\<forall>(i, e, c) \<in> set (bp_followers plan). e \<in> pending_leaders plan \<or> (\<exists>r. qh_slots s e = Some r \<and> A r))
     \<and> distinct (map fst (bp_leaders plan)) \<and> fst ` set (bp_leaders plan) \<subseteq> set prev
     \<and> contexts_ok groups (bp_partitions plan)"

lemma planned_step:
  assumes plan: "planned A limits groups prev plan s" and refs: "plan_refs_ok groups plan s" and grows: "heap_grows s s'"
    and run: "running_with A (pending_leaders plan) (el_max_inflight limits) (el_query_scope limits) s'"
  shows "planned A limits groups (prev @ [i]) plan s'"
proof -
  have "e \<in> pending_leaders plan \<or> (\<exists>r. qh_slots s' e = Some r \<and> A r)" if f: "(j, e, c) \<in> set (bp_followers plan)" for j e c
  proof -
    have "e < qh_next_entry s" using refs f by (auto simp: plan_refs_ok_def allocated_for_def)
    then show ?thesis using plan f grows by (fastforce simp: planned_def heap_grows_def)
  qed
  then show ?thesis using plan run by (auto simp: planned_def)
qed

lemma planned_leader:
  assumes plan: "planned A limits groups prev plan s" and refs: "plan_refs_ok groups plan s" and grows: "heap_grows s s'"
    and i: "i < length groups" "i \<notin> set prev"
    and run: "running_with A (insert e (pending_leaders plan)) (el_max_inflight limits) (el_query_scope limits) s'"
  shows "planned A limits groups (prev @ [i]) (add_leader groups i e ck plan) s'"
proof -
  have "e' \<in> insert e (pending_leaders plan) \<or> (\<exists>r. qh_slots s' e' = Some r \<and> A r)"
    if f: "(j, e', c) \<in> set (bp_followers plan)" for j e' c
  proof -
    have "e' < qh_next_entry s" using refs f by (auto simp: plan_refs_ok_def allocated_for_def)
    then show ?thesis using plan f grows by (fastforce simp: planned_def heap_grows_def)
  qed
  moreover have "pending_leaders (add_leader groups i e ck plan) = insert e (pending_leaders plan)"
    by (simp add: pending_leaders_def add_leader_def)
  ultimately show ?thesis
    using plan i run contexts_ok_add [of groups "bp_partitions plan" i]
    by (auto simp: planned_def add_leader_def)
qed

lemma planned_follower:
  assumes "planned A limits groups prev plan s"
    and "e \<in> pending_leaders plan \<or> (\<exists>r. qh_slots s e = Some r \<and> A r)"
  shows "planned A limits groups prev (plan\<lparr>bp_followers := bp_followers plan @ [(i, e, c)]\<rparr>) s"
  using assms by (auto simp: planned_def pending_leaders_def)

lemma planned_output: "planned A limits groups prev (plan\<lparr>bp_output := out\<rparr>) s = planned A limits groups prev plan s"
  by (simp add: planned_def pending_leaders_def)

lemma plannable_refused:
  assumes "batch_acceptable A groups provider mx limits policy" "\<not> plannable provider policy groups"
  shows "A r"
  using assms by (cases r) (auto simp: batch_acceptable_def)

lemma plan_group_returns:
  assumes run: "plan_group clock host_ops provider limits policy groups i plan (s, w) = (r, s', w')"
    and s: "host_inv (\<lambda>_ _. True) s" and inv: "anything.plan_inv groups prev plan s"
    and plan: "planned A limits groups prev plan s" and i: "i < length groups" "i \<notin> set prev"
    and ok: "batch_acceptable A groups provider mx limits policy"
  shows "case r of
      Inl e \<Rightarrow> A (Inl e) \<and> \<not> plannable provider policy groups \<and> idle (el_max_inflight limits) (el_query_scope limits) s'
    | Inr plan' \<Rightarrow> planned A limits groups (prev @ [i]) plan' s'"
proof -
  let ?g = "groups ! i" and ?scope = "el_query_scope limits"
  let ?ck = "case policy of None \<Rightarrow> None | Some _ \<Rightarrow> cache_identity_for ?g provider"
  have grows: "heap_grows s s'" using anything.plan_group_sound [OF run s inv i(1)] by blast
  have refs: "plan_refs_ok groups plan s" using inv by (simp add: anything.plan_inv_def)
  have runs: "running_with A (pending_leaders plan) (el_max_inflight limits) ?scope s" using plan by (simp add: planned_def)
  note kept = planned_step [OF plan refs grows]
  note run' = run [unfolded plan_group_claims Let_def]
  show ?thesis
  proof (cases "supports (p_capabilities provider) (rq_kind (jg_request ?g)) \<noteq> Verified
      \<or> too_many_choices provider (jg_request ?g)")
    case True
    then have "\<not> plannable provider policy groups" using i(1) by (force simp: plannable_def)
    then show ?thesis
      using True run' plannable_refused [OF ok] running_idle [OF runs] by (auto split: if_splits)
  next
    case False
    obtain c s1 w1 where c: "claim_phase clock host_ops ?scope policy ?ck (jg_identity ?g) (s, w) = (c, s1, w1)"
      using prod_cases3 by blast
    have refused: "\<forall>p e. policy = Some p \<longrightarrow> policy_validate p = Inl e \<longrightarrow> \<not> plannable provider policy groups"
      by (simp add: plannable_def del: policy_validate_iff)
    then have invalid: "\<forall>p e. policy = Some p \<longrightarrow> policy_validate p = Inl e \<longrightarrow> A (Inl e)"
      using plannable_refused [OF ok] by blast
    have fine: "\<forall>v. A (Inr v)" using ok by (simp add: batch_acceptable_def)
    note claimed = claim_phase_running [OF runs c fine invalid]
    have s': "s' = s1" using run' False c by (auto split: claim.splits)
    show ?thesis
    proof (cases c)
      case (Claim_Failed e)
      then show ?thesis
        using claimed run' False c s' refused invalid running_idle
        by (auto simp del: policy_validate_iff)
    next
      case (Claim_Follows e f)
      then show ?thesis using claimed run' False c s' planned_follower [OF kept] by auto
    next
      case (Claim_Hit v)
      then show ?thesis using claimed run' False c s' kept by (auto simp: planned_output)
    next
      case (Claim_Leads e)
      then show ?thesis using claimed run' False c s' planned_leader [OF plan refs grows i] by auto
    qed
  qed
qed

lemma plan_groups_returns:
  "plan_groups clock host_ops provider limits policy groups indices plan (s, w) = (r, s', w') \<Longrightarrow>
   host_inv (\<lambda>_ _. True) s \<Longrightarrow> anything.plan_inv groups prev plan s \<Longrightarrow> planned A limits groups prev plan s \<Longrightarrow>
   distinct (prev @ indices) \<Longrightarrow> set indices \<subseteq> {..<length groups} \<Longrightarrow>
   batch_acceptable A groups provider mx limits policy \<Longrightarrow>
   case r of
     Inl e \<Rightarrow> A (Inl e) \<and> \<not> plannable provider policy groups \<and> idle (el_max_inflight limits) (el_query_scope limits) s'
   | Inr plan' \<Rightarrow> planned A limits groups (prev @ indices) plan' s'"
proof (induction indices arbitrary: prev plan s w)
  case (Cons i indices)
  obtain r1 s1 w1 where one: "plan_group clock host_ops provider limits policy groups i plan (s, w) = (r1, s1, w1)"
    using prod_cases3 by blast
  have i: "i < length groups" "i \<notin> set prev" using Cons.prems(5,6) by auto
  note step = plan_group_returns [OF one Cons.prems(2-4) i Cons.prems(7)]
  note sound = anything.plan_group_sound [OF one Cons.prems(2,3) i(1)]
  show ?case
  proof (cases r1)
    case (Inl e)
    then have "r = Inl e" "s1 = s'" using Cons.prems(1) one by auto
    then show ?thesis using Inl step by simp
  next
    case (Inr plan1)
    have "plan_groups clock host_ops provider limits policy groups indices plan1 (s1, w1) = (r, s', w')"
      using Cons.prems(1) one Inr by simp
    from Cons.IH [OF this, of "prev @ [i]"] show ?thesis
      using sound step Inr Cons.prems(5-7) by (cases r) simp_all
  qed
qed auto

section \<open>The whole function\<close>

text \<open>When every entry it planned has its outcome, a phase leaves no entry pending.\<close>

lemma settled_all:
  assumes run: "settled A (pending_leaders plan) limits plan I r s s'" and plan: "distinct (map fst (bp_leaders plan))"
    "fst ` set (bp_leaders plan) \<subseteq> I"
  shows "ready_for A (el_max_inflight limits) (el_query_scope limits) s'"
    "e \<in> pending_leaders plan \<Longrightarrow> \<exists>r. qh_slots s' e = Some r \<and> A r"
proof -
  have all: "leaders_done plan I s'"
    using settledD(3,5) [OF run] by (cases r) (auto simp: leaders_done_def)
  have filled: "qh_slots s' e \<noteq> None" if e: "e \<in> pending_leaders plan" for e
  proof -
    obtain i where "(i, e) \<in> set (bp_leaders plan)" using e by (force simp: pending_leaders_def)
    moreover from this have "map_of (bp_leaders plan) i = Some e" using plan(1) by simp
    ultimately show ?thesis using all plan(2) by (force simp: leaders_done_def)
  qed
  then show "ready_for A (el_max_inflight limits) (el_query_scope limits) s'"
    by (rule running_settled [OF settledD(1) [OF run]])
  show "\<exists>r. qh_slots s' e = Some r \<and> A r" if "e \<in> pending_leaders plan"
    using filled [OF that] that settledD(1) [OF run] by (auto simp: running_with_def)
qed

lemma execute_batch_groups_returns:
  assumes ready: "ready_for A (el_max_inflight limits) (el_query_scope limits) s" and s: "host_inv (\<lambda>_ _. True) s"
    and ok: "batch_acceptable A groups provider (batch_limit (p_capabilities provider) mx) limits policy"
    and possible: "(\<forall>e. A (Inl e)) \<or> batches_possible provider mx limits"
  shows "\<exists>r s' w'. execute_batch_groups groups clock provider host_ops mx limits policy (s, w) = Some (r, s', w')
    \<and> idle (el_max_inflight limits) (el_query_scope limits) s' \<and> (\<forall>e. r = Inl e \<longrightarrow> A (Inl e))
    \<and> ((\<exists>out. r = Inr out) \<or> plannable provider policy groups
        \<longrightarrow> ready_for A (el_max_inflight limits) (el_query_scope limits) s')"
proof (cases "batches_possible provider mx limits")
  case False
  then have "\<exists>e. execute_batch_groups groups clock provider host_ops mx limits policy (s, w) = Some (Inl e, s, w)"
    by (auto simp: execute_batch_groups_def batches_possible_def Let_def)
  then show ?thesis using ready_idle [OF ready] ready possible False by auto
next
  case True
  let ?mx = "batch_limit (p_capabilities provider) mx" and ?n = "el_max_inflight limits"
  let ?scope = "el_query_scope limits"
  note start = execute_batch_groups_possible [OF True]
  have mx: "0 < ?mx" using True by (simp add: batches_possible_def word_gt_0)
  obtain pr s1 w1 where pl: "plan_groups clock host_ops provider limits policy groups [0..<length groups] empty_plan (s, w)
      = (pr, s1, w1)" using prod_cases3 by blast
  have inv0: "anything.plan_inv groups [] empty_plan s"
    by (simp add: anything.plan_inv_def plan_refs_ok_def anything.keys_ok_def empty_plan_def plan_indices_def exI [of _ "[]"])
  have planned0: "planned A limits groups [] empty_plan s"
    using ready by (simp add: planned_def empty_plan_def pending_leaders_def running_ready contexts_ok_def)
  have plan: "case pr of Inl e \<Rightarrow> A (Inl e) \<and> \<not> plannable provider policy groups \<and> idle ?n ?scope s1
    | Inr plan' \<Rightarrow> planned A limits groups [0..<length groups] plan' s1"
    by (rule plan_groups_returns [OF pl s inv0 planned0 _ _ ok, unfolded append_Nil]) auto
  show ?thesis
  proof (cases pr)
    case (Inl e)
    then show ?thesis using True pl plan by (simp add: start)
  next
    case (Inr plan1)
    have planned: "planned A limits groups [0..<length groups] plan1 s1" using plan Inr by simp
    have "anything.plan_inv groups [0..<length groups] plan1 s1"
      using anything.plan_groups_sound [OF pl s inv0] Inr by simp
    then have cover: "set (concat (bp_partitions plan1)) = fst ` set (bp_leaders plan1)"
      by (simp add: anything.plan_inv_def plan_refs_ok_def)
    let ?X = "pending_leaders plan1"
    obtain r2 s2 w2 where rp: "run_partitions clock host_ops provider ?mx limits policy groups plan1
        (bp_partitions plan1) (bp_output plan1) (s1, w1) = Some (r2, s2, w2)"
      and settled: "settled A ?X limits plan1 (set (concat (bp_partitions plan1))) r2 s1 s2"
      using run_partitions_returns [OF ok mx, of ?X s1 "bp_partitions plan1" plan1 clock "bp_output plan1" w1]
        planned cover by (auto simp: planned_def)
    have distinct: "distinct (map fst (bp_leaders plan1))" using planned by (simp add: planned_def)
    note done2 = settled_all [OF settled distinct equalityD2 [OF cover]]
    show ?thesis
    proof (cases r2)
      case (Inl e)
      then show ?thesis
        using True pl Inr rp done2(1) ready_idle settledD(4) [OF settled]
        by (simp add: start \<open>pr = Inr plan1\<close>)
    next
      case out2: (Inr out2)
      have "\<exists>r. qh_slots s2 e = Some r \<and> A r" if f: "(i, e, c) \<in> set (bp_followers plan1)" for i e c
      proof -
        have "e \<in> ?X \<or> (\<exists>r. qh_slots s1 e = Some r \<and> A r)" using planned f by (auto simp: planned_def)
        then show ?thesis using done2(2) settledD(2) [OF settled] by (auto simp: slots_kept_def)
      qed
      then obtain r where "await_followers host_ops groups (bp_followers plan1) out2 s2 = Some (r, s2)"
        "\<forall>e. r = Inl e \<longrightarrow> A (Inl e)"
        using await_followers_returns [of "bp_followers plan1" s2 A groups out2] by blast
      then show ?thesis
        using True pl Inr rp out2 done2(1) ready_idle
        by (simp add: start \<open>pr = Inr plan1\<close>)
    qed
  qed
qed

end
