(* ===== verification/Functions_Progress.thy ===== *)
theory Functions_Progress
  imports Functions_Soundness Batch_Progress Config
begin

text \<open>
  When the SQL functions return, and when they return without an error: the evaluators of
  \<open>src/functions/mod.rs\<close> on a connection that is ready in the sense of \<open>Host_Progress\<close>. With
  \<open>strict\<close> every entry the query has completed so far is a success, and the lemmas conclude that the
  call succeeds when every row can be judged; without it they conclude only that the call returns.
\<close>

section \<open>Conditions\<close>

definition expected :: "bool \<Rightarrow> judgment_result result \<Rightarrow> bool" where
  "expected strict r \<longleftrightarrow> (strict \<longrightarrow> succeeded r)"

lemma expected_simps [simp]: "expected False = (\<lambda>_. True)" "expected True = succeeded"
  "expected strict (Inr v)" "expected strict (Inl e) \<longleftrightarrow> \<not> strict"
  by (auto simp: expected_def)

text \<open>A request the provider serves under these settings, and a chunk all of whose rows it can serve.\<close>

definition judgeable :: "'w provider \<Rightarrow> runtime_config \<Rightarrow> judgment_request \<Rightarrow> bool" where
  "judgeable provider config rq \<longleftrightarrow>
     supports (p_capabilities provider) (rq_kind rq) = Verified \<and> \<not> choices_exceed (p_capabilities provider) rq
     \<and> p_estimate_request_bytes provider [rq] \<le> rc_max_request_bytes config \<and> answers provider rq"

definition row_judgeable ::
  "text_codec \<Rightarrow> function_kind \<Rightarrow> data_chunk \<Rightarrow> 'w execution_state \<Rightarrow> runtime_config \<Rightarrow> nat \<Rightarrow> bool" where
  "row_judgeable codec kind input state config row \<longleftrightarrow>
     (case read_request codec kind input row of
        Inl _ \<Rightarrow> False
      | Inr None \<Rightarrow> True
      | Inr (Some rq) \<Rightarrow>
          (case es_provider state of Inl _ \<Rightarrow> False | Inr provider \<Rightarrow> judgeable provider config rq))"

text \<open>
  With batching, the provider must also serve every batch the settings allow: requests of distinct keys that
  ask the same question about rows of this chunk, within the judgment and the byte limit.
\<close>

definition row_request :: "text_codec \<Rightarrow> function_kind \<Rightarrow> data_chunk \<Rightarrow> nat \<Rightarrow> judgment_request \<Rightarrow> bool" where
  "row_request codec kind input n rq \<longleftrightarrow>
     (\<exists>row < n. \<exists>key. \<exists>rq0. read_request codec kind input row = Inr (Some rq0) \<and> rq = rq0\<lparr>rq_request_key := key\<rparr>)"

definition asks_alike :: "judgment_request \<Rightarrow> judgment_request \<Rightarrow> bool" where
  "asks_alike a b \<longleftrightarrow> rq_kind a = rq_kind b \<and> rq_criterion a = rq_criterion b \<and> rq_question a = rq_question b
     \<and> rq_choices a = rq_choices b \<and> cs_version (rq_state a) = cs_version (rq_state b)"

definition serves_chunk ::
  "text_codec \<Rightarrow> function_kind \<Rightarrow> data_chunk \<Rightarrow> nat \<Rightarrow> 'w provider \<Rightarrow> runtime_config \<Rightarrow> bool" where
  "serves_chunk codec kind input n provider config \<longleftrightarrow>
     (let limit = batch_limit (p_capabilities provider) (rc_batch_max_judgments config)
      in pc_multi_state_batch (p_capabilities provider) = Verified \<and> limit \<noteq> 0
         \<and> (\<forall>rq. row_request codec kind input n rq \<and> rq_request_key rq = ''r0'' \<longrightarrow>
              p_estimate_request_bytes provider [rq] \<le> rc_max_request_bytes config)
         \<and> (\<forall>rqs w. rqs \<noteq> [] \<and> length rqs \<le> unat limit \<and> distinct (map rq_request_key rqs)
              \<and> (\<forall>rq \<in> set rqs. row_request codec kind input n rq) \<and> (\<forall>a \<in> set rqs. \<forall>b \<in> set rqs. asks_alike a b)
              \<and> p_estimate_request_bytes provider rqs \<le> rc_max_request_bytes config \<longrightarrow>
              (\<exists>response w'. p_judge_many provider rqs w = (Inr response, w') \<and> covers_batch rqs response)))"

section \<open>One row at a time\<close>

lemma same_core_rows:
  assumes "same_core scope s s'"
  shows "same_core scope s (with_runtime c (record_row_input scope') s')"
    "same_core scope s (with_runtime c (record_row_result scope' b) s')"
    "same_core scope s (record_optimized_rows scope' i n v u s')"
  using assms by (simp_all add: with_runtime_def record_row_input_def record_row_result_def
      record_optimized_rows_def same_core_counts)

lemma same_core_credential: "same_core scope s (snd (credential_scope scope' credential s))"
  by (auto simp: same_core_def credential_scope_def take_scope_def query_running_def active_scope_def Let_def
      split: option.splits prod.splits)

lemma judge_row_ready:
  assumes "query_running scope s" "ps_active (cr_inflight s) < n"
    and "judge_row clock True scope provider request (s\<lparr>cr_inflight := take_permit (cr_inflight s)\<rparr>, w) = (r, s', w')"
  shows "same_core scope s s'"
proof -
  let ?s1 = "s\<lparr>cr_inflight := take_permit (cr_inflight s)\<rparr>"
  have "\<exists>t. s' = drop_permit t \<and> same_core scope ?s1 t"
    using assms(3)
    by (auto simp: judge_row_def with_runtime_def Let_def same_core_records split: prod.splits sum.splits if_splits)
  then show ?thesis using permit_returned assms(2) by blast
qed

lemma judge_row_answers:
  assumes "answers provider rq" "judge_row clock connected scope provider rq (s, w) = (r, s', w')"
  shows "\<exists>v. r = Inr v"
proof -
  obtain t w1 where t: "clock w = (t, w1)" by fastforce
  obtain response w2 v where call: "p_judge_with_metadata provider rq w1 = (Inr response, w2)"
    and check: "check_single_response rq response = Inr v"
    using assms(1) unfolding answers_def by blast
  have valid: "validate_batch_result [rq] response = Inr ()"
    using check by (simp add: check_single_response_def result_bind_Inr)
  obtain a more where "br_answers response = a # more"
    using check by (auto simp: check_single_response_def result_bind_Inr split: list.splits)
  then show ?thesis
    using assms(2) valid by (auto simp: judge_row_def t call Let_def split: prod.splits)
qed

lemma row_provider_judgeable:
  assumes "es_runtime_config state = Inr config" "rc_mode config = Row"
    and "row_judgeable codec kind input state config row" "read_request codec kind input row = Inr (Some rq)"
  shows "row_provider state rq \<noteq> Inl e"
  using assms by (cases "es_provider state") (auto simp: row_judgeable_def judgeable_def row_provider_def Let_def)

lemma evaluate_row_returns:
  assumes "es_connected state" "es_runtime_config state = Inr config" "ready_for A (rc_max_inflight config) scope s"
  shows "\<exists>r s' w'. evaluate_row clock codec kind state scope input row (s, w) = Some (r, s', w') \<and> same_core scope s s'
    \<and> (rc_mode config = Row \<and> row_judgeable codec kind input state config row \<longrightarrow> (\<exists>v. r = Inr v))"
proof (cases "\<exists>rq config' provider. read_request codec kind input row = Inr (Some rq)
    \<and> row_provider state rq = Inr (config', provider)")
  case True
  then obtain rq config' provider where rq: "read_request codec kind input row = Inr (Some rq)"
    "row_provider state rq = Inr (config', provider)" by blast
  then have p: "config' = config" "es_provider state = Inr provider"
    using assms(2) by (auto simp: row_provider_def Let_def split: if_splits sum.splits)
  have running: "query_running scope s" "ps_active (cr_inflight s) < rc_max_inflight config"
    using assms(3) by (simp_all add: ready_for_def)
  obtain r s' w' where j: "judge_row clock True scope provider rq
      (s\<lparr>cr_inflight := take_permit (cr_inflight s)\<rparr>, w) = (r, s', w')" using prod_cases3 by blast
  have "\<exists>v. r = Inr v" if "row_judgeable codec kind input state config row"
    using that rq(1) p(2) judge_row_answers [OF _ j] by (simp add: row_judgeable_def judgeable_def)
  moreover have "evaluate_row clock codec kind state scope input row (s, w) = Some (r, s', w')"
    using acquire_ready [OF running] assms(1) rq j p(1) by (simp add: evaluate_row_def)
  ultimately show ?thesis using judge_row_ready [OF running j] by blast
next
  case no_call: False
  show ?thesis
  proof (cases "read_request codec kind input row")
    case (Inl e)
    then show ?thesis by (simp add: evaluate_row_def row_judgeable_def)
  next
    case (Inr rq)
    show ?thesis
    proof (cases rq)
      case None
      then show ?thesis using Inr by (simp add: evaluate_row_def)
    next
      case (Some request)
      then obtain e where "row_provider state request = Inl e" using no_call Inr by (cases "row_provider state request") auto
      then show ?thesis
        using row_provider_judgeable [OF assms(2)] Inr Some by (auto simp: evaluate_row_def)
    qed
  qed
qed

lemma run_rows_returns:
  assumes "es_connected state" "es_runtime_config state = Inr config"
  shows "ready_for A (rc_max_inflight config) scope s \<Longrightarrow>
    \<exists>r out' s' w'. run_rows clock codec kind state scope input rows out (s, w) = Some (r, out', s', w')
      \<and> ready_for A (rc_max_inflight config) scope s'
      \<and> (rc_mode config = Row \<and> (\<forall>row \<in> set rows. row_judgeable codec kind input state config row) \<longrightarrow> r = Inr ())"
proof (induction rows arbitrary: out s w)
  case (Cons row rows)
  let ?n = "rc_max_inflight config"
  let ?s1 = "with_runtime (es_connected state) (record_row_input scope) s"
  have ready1: "ready_for A ?n scope ?s1"
    using same_core_ready [OF same_core_rows(1) [OF same_core_refl]] Cons.prems by blast
  from evaluate_row_returns [OF assms ready1] obtain r s2 w2 where
    ev: "evaluate_row clock codec kind state scope input row (?s1, w) = Some (r, s2, w2)"
    and core: "same_core scope ?s1 s2"
    and ok: "rc_mode config = Row \<and> row_judgeable codec kind input state config row \<longrightarrow> (\<exists>v. r = Inr v)" by blast
  have ready: "ready_for A ?n scope s2" using same_core_ready [OF core] ready1 by blast
  have next_ready: "ready_for A ?n scope (with_runtime (es_connected state) (record_row_result scope b) s2)" for b
    using same_core_ready [OF same_core_rows(2) [OF same_core_refl]] ready by blast
  show ?case
  proof (cases r)
    case (Inl e)
    then show ?thesis using ev ready ok by (auto simp: Let_def)
  next
    case (Inr x)
    show ?thesis
    proof (cases x)
      case None
      then show ?thesis using ev Inr Cons.IH [OF next_ready, of "set_output_null out row" True w2] by (simp add: Let_def) blast
    next
      case (Some v)
      then show ?thesis using ev Inr Cons.IH [OF next_ready, of "write_result kind out row v" False w2] by (simp add: Let_def) blast
    qed
  qed
qed simp

section \<open>A whole chunk\<close>

lemma positive_unat: "0 < sint x \<Longrightarrow> 0 < unat x"
  by (cases "x = 0") (auto simp: unat_gt_0)

lemma cache_policy_valid: "settings_ok config \<Longrightarrow> cache_policy_of config = Some p \<Longrightarrow> policy_validate p = Inr ()"
  using positive_unat by (auto simp: settings_ok_def cache_policy_of_def split: if_splits)

lemma group_request:
  assumes "g \<in> set (group_by_identity work)"
  shows "\<exists>item \<in> set work. jg_request g = jw_request item \<and> jg_identity g = jw_identity item"
proof -
  obtain k where k: "k \<in> jw_identity ` set work" "g = group_of work k"
    using assms by (auto simp: group_by_identity_spec group_spec_def)
  then obtain item where item: "find (\<lambda>item. jw_identity item = k) work = Some item"
    by (cases "find (\<lambda>item. jw_identity item = k) work") (auto simp: find_None_iff)
  then have "item \<in> set work" "jw_identity item = k" by (auto simp: find_Some_iff)
  then show ?thesis using item k(2) by (auto simp: group_of_def)
qed

lemma collect_work_all:
  "\<forall>row \<in> set rows. \<exists>rq. read_request codec kind input row = Inr rq \<Longrightarrow>
   \<exists>work' n'. collect_work codec kind input context invocation chunk rows (work, n) = Inr (work', n')"
proof (induction rows arbitrary: work n)
  case (Cons row rows)
  then obtain rq where "read_request codec kind input row = Inr rq" by auto
  then show ?case using Cons by (cases rq) auto
qed simp

abbreviation limits_of :: "runtime_config \<Rightarrow> u64 \<Rightarrow> execution_limits" where
  "limits_of config scope \<equiv> \<lparr>el_query_scope = scope, el_max_inflight = rc_max_inflight config,
     el_max_request_bytes = rc_max_request_bytes config\<rparr>"

text \<open>What \<open>strict\<close> asks of the groups of a chunk: the provider serves each alone, or all of them in batches.\<close>

definition groups_judgeable :: "runtime_config \<Rightarrow> 'w execution_state \<Rightarrow> u64 \<Rightarrow> judgment_group list \<Rightarrow> bool" where
  "groups_judgeable config state scope groups \<longleftrightarrow>
     settings_ok config
     \<and> (\<forall>g \<in> set groups. \<exists>provider. es_provider state = Inr provider \<and> judgeable provider config (jg_request g)
          \<and> \<not> too_many_choices provider (jg_request g))
     \<and> (rc_batch_enabled config \<and> groups \<noteq> [] \<longrightarrow> (\<exists>provider. es_provider state = Inr provider
          \<and> batches_possible provider (rc_batch_max_judgments config) (limits_of config scope)
          \<and> serves_batches groups provider (batch_limit (p_capabilities provider) (rc_batch_max_judgments config))
              (limits_of config scope)))"

lemma run_each_returns:
  assumes "\<not> rc_batch_enabled config" "groups \<noteq> []" "es_provider state = Inr provider"
    and "ready_for (expected strict) (rc_max_inflight config) scope s"
    and "strict \<Longrightarrow> groups_judgeable config state scope groups"
  shows "\<exists>r s' w'. run_groups clock config state scope groups (s, w) = Some (r, s', w')
    \<and> ready_for (expected strict) (rc_max_inflight config) scope s' \<and> (strict \<longrightarrow> \<not> is_err r)"
proof -
  have ok: "\<forall>g \<in> set groups. acceptable (expected strict) provider (limits_of config scope) (cache_policy_of config) g"
    using assms(3,5) cache_policy_valid
    by (cases strict) (fastforce simp: acceptable_def judgeable_def groups_judgeable_def)+
  have positive: "strict \<longrightarrow> rc_max_request_bytes config \<noteq> 0"
    using assms(5) by (auto simp: settings_ok_def groups_judgeable_def)
  obtain r s' w' where each: "execute_each clock host_ops provider (limits_of config scope) (cache_policy_of config) [] groups (s, w)
      = Some (r, s', w')"
    "ready_for (expected strict) (rc_max_inflight config) scope s'" "strict \<longrightarrow> \<not> is_err r"
    using execute_each_returns [OF ok, of "\<lambda>r. strict \<longrightarrow> \<not> is_err r" s clock "[]" w] assms(4)
    by (auto simp: is_err_def)
  then show ?thesis using assms(1-4) positive
    by (auto simp: run_groups_def execute_work_def execute_groups_def is_err_def)
qed

lemma run_batch_returns:
  assumes "rc_batch_enabled config" "groups \<noteq> []" "es_provider state = Inr provider"
    and ready: "ready_for (expected strict) (rc_max_inflight config) scope s" and s: "host_inv (\<lambda>_ _. True) s"
    and strict: "strict \<Longrightarrow> groups_judgeable config state scope groups"
  shows "\<exists>r s' w'. run_groups clock config state scope groups (s, w) = Some (r, s', w')
    \<and> idle (rc_max_inflight config) scope s' \<and> (strict \<longrightarrow> \<not> is_err r)
    \<and> (\<not> is_err r \<longrightarrow> ready_for (expected strict) (rc_max_inflight config) scope s')"
proof -
  let ?limit = "batch_limit (p_capabilities provider) (rc_batch_max_judgments config)"
  have "plannable provider (cache_policy_of config) groups" if strict
    using strict [OF that] assms(3) cache_policy_valid
    by (fastforce simp: plannable_def groups_judgeable_def judgeable_def simp del: policy_validate_iff)
  then have ok: "batch_acceptable (expected strict) groups provider ?limit (limits_of config scope) (cache_policy_of config)"
    using strict assms(1-3) by (cases strict) (auto simp: batch_acceptable_def groups_judgeable_def)
  have possible: "(\<forall>e. expected strict (Inl e)) \<or> batches_possible provider (rc_batch_max_judgments config) (limits_of config scope)"
    using strict assms(1-3) by (cases strict) (auto simp: groups_judgeable_def)
  obtain r s' w' where "execute_batch_groups groups clock provider host_ops (rc_batch_max_judgments config)
      (limits_of config scope) (cache_policy_of config) (s, w) = Some (r, s', w')"
    "idle (rc_max_inflight config) scope s'" "\<forall>e. r = Inl e \<longrightarrow> expected strict (Inl e)"
    "(\<exists>out. r = Inr out) \<longrightarrow> ready_for (expected strict) (rc_max_inflight config) scope s'"
    using execute_batch_groups_returns [OF _ s ok possible, of clock w] ready by auto
  then show ?thesis
    using assms(1-3) by (cases r) (auto simp: run_groups_def execute_work_def is_err_def)
qed

lemma run_groups_returns:
  assumes ready: "ready_for (expected strict) (rc_max_inflight config) scope s"
    and s: "rc_batch_enabled config \<Longrightarrow> host_inv (\<lambda>_ _. True) s"
    and strict: "strict \<Longrightarrow> groups_judgeable config state scope groups"
  shows "\<exists>r s' w'. run_groups clock config state scope groups (s, w) = Some (r, s', w')
    \<and> idle (rc_max_inflight config) scope s' \<and> (strict \<longrightarrow> \<not> is_err r)
    \<and> (rc_batch_enabled config \<and> is_err r \<or> ready_for (expected strict) (rc_max_inflight config) scope s')"
proof (cases "groups = []")
  case True
  then show ?thesis using ready ready_idle by (auto simp: run_groups_def is_err_def)
next
  case False
  show ?thesis
  proof (cases "es_provider state")
    case (Inl e)
    then have "\<not> strict" using strict False by (cases groups) (auto simp: groups_judgeable_def)
    then show ?thesis using Inl False ready ready_idle by (auto simp: run_groups_def)
  next
    case (Inr provider)
    then show ?thesis
      using run_each_returns [OF _ False Inr ready strict, of clock w] run_batch_returns [OF _ False Inr ready s strict, of clock w]
        ready_idle
      by (cases "rc_batch_enabled config") blast+
  qed
qed

lemma host_inv_anything: "host_inv P s \<Longrightarrow> host_inv (\<lambda>_ _. True) s"
proof -
  have "action_ok (\<lambda>_ _. True) a" for a by (cases a) simp_all
  then show "host_inv P s \<Longrightarrow> host_inv (\<lambda>_ _. True) s" by (simp add: host_inv_def)
qed

text \<open>The groups of a chunk whose rows can all be served.\<close>

lemma asks_alike_identity: "same_batch_context (new_identity a ids) (new_identity b ids) = asks_alike a b"
  by (auto simp: same_batch_context_def asks_alike_def new_identity_def)

lemma asks_alike_key: "asks_alike (a\<lparr>rq_request_key := k\<rparr>) (b\<lparr>rq_request_key := l\<rparr>) = asks_alike a b"
  by (simp add: asks_alike_def)

lemma admissible_row_batch:
  assumes groups: "\<And>g. g \<in> set groups \<Longrightarrow>
      (\<exists>row < n. read_request codec kind input row = Inr (Some (jg_request g))) \<and> jg_identity g = new_identity (jg_request g) ids"
    and adm: "admissible_batch groups provider mx limits rqs"
  shows "(\<forall>rq \<in> set rqs. row_request codec kind input n rq) \<and> (\<forall>a \<in> set rqs. \<forall>b \<in> set rqs. asks_alike a b)"
proof -
  obtain indices where indices: "set indices \<subseteq> {..<length groups}" "rqs = requests_for_groups groups indices None"
    "\<forall>i \<in> set indices. \<forall>j \<in> set indices. same_batch_context (jg_identity (groups ! i)) (jg_identity (groups ! j))"
    using adm by (auto simp: admissible_batch_def)
  have member: "\<exists>i key. i \<in> set indices \<and> i < length groups \<and> rq = (jg_request (groups ! i))\<lparr>rq_request_key := key\<rparr>"
    if rq: "rq \<in> set rqs" for rq
  proof -
    obtain a where "a < length indices" "rq = (jg_request (groups ! (indices ! a)))\<lparr>rq_request_key := ''r'' @ nat_to_string a\<rparr>"
      using rq indices(2) by (auto simp: requests_for_groups_def in_set_enumerate_eq)
    then show ?thesis using indices(1) nth_mem by blast
  qed
  have id: "jg_identity (groups ! i) = new_identity (jg_request (groups ! i)) ids" if "i < length groups" for i
    using groups that by simp
  have "row_request codec kind input n rq" if "rq \<in> set rqs" for rq
    using member [OF that] groups unfolding row_request_def by (metis nth_mem)
  moreover have "asks_alike a b" if ab: "a \<in> set rqs" "b \<in> set rqs" for a b
  proof -
    obtain i ka where i: "i \<in> set indices" "i < length groups" "a = (jg_request (groups ! i))\<lparr>rq_request_key := ka\<rparr>"
      using member [OF ab(1)] by blast
    obtain j kb where j: "j \<in> set indices" "j < length groups" "b = (jg_request (groups ! j))\<lparr>rq_request_key := kb\<rparr>"
      using member [OF ab(2)] by blast
    have "same_batch_context (jg_identity (groups ! i)) (jg_identity (groups ! j))" using indices(3) i(1) j(1) by blast
    then show ?thesis using i(3) j(3) by (simp add: id [OF i(2)] id [OF j(2)] asks_alike_identity asks_alike_key)
  qed
  ultimately show ?thesis by blast
qed

lemma chunk_groups_judgeable:
  assumes work: "collect_work codec kind input ids invocation chunk [0..<n] ([], 0) = Inr (work, k)"
    and config: "settings_ok config"
    and rows: "\<forall>row < n. row_judgeable codec kind input state config row"
    and batch: "\<And>provider. rc_batch_enabled config \<Longrightarrow> es_provider state = Inr provider \<Longrightarrow>
      serves_chunk codec kind input n provider config"
  shows "groups_judgeable config state scope (group_by_identity work)"
proof -
  let ?groups = "group_by_identity work"
  have item: "(\<exists>row < n. read_request codec kind input row = Inr (Some (jg_request g)))
      \<and> jg_identity g = new_identity (jg_request g) ids" if "g \<in> set ?groups" for g
    using group_request [OF that] collect_work_Inr [OF work] by (fastforce simp: work_item_def)
  have each: "\<exists>provider. es_provider state = Inr provider \<and> judgeable provider config (jg_request g)
      \<and> \<not> too_many_choices provider (jg_request g)" if g: "g \<in> set ?groups" for g
  proof -
    obtain row where row: "row < n" "read_request codec kind input row = Inr (Some (jg_request g))"
      using item [OF g] by blast
    then obtain provider where p: "es_provider state = Inr provider" "judgeable provider config (jg_request g)"
      using rows by (cases "es_provider state") (auto simp: row_judgeable_def)
    have "rq_kind (jg_request g) = Kind_Choice \<or> rq_choices (jg_request g) = []"
      using read_request_kind [OF row(2)] by (auto simp: well_formed_request_def split: if_splits)
    then have "\<not> too_many_choices provider (jg_request g)"
      using p(2) by (auto simp: judgeable_def choices_exceed_def too_many_choices_def split: option.splits)
    then show ?thesis using p by blast
  qed
  have "batches_possible provider (rc_batch_max_judgments config) (limits_of config scope)
      \<and> serves_batches ?groups provider (batch_limit (p_capabilities provider) (rc_batch_max_judgments config))
          (limits_of config scope)"
    if on: "rc_batch_enabled config" and p: "es_provider state = Inr provider" for provider
  proof
    have serves: "serves_chunk codec kind input n provider config" by (rule batch [OF that])
    show "batches_possible provider (rc_batch_max_judgments config) (limits_of config scope)"
      using serves config by (auto simp: batches_possible_def serves_chunk_def settings_ok_def Let_def)
    have "row_request codec kind input n ((jg_request g)\<lparr>rq_request_key := key\<rparr>)" if "g \<in> set ?groups" for g key
      using item [OF that] by (auto simp: row_request_def)
    moreover have "\<exists>response w'. p_judge_many provider rqs w = (Inr response, w') \<and> covers_batch rqs response"
      if adm: "admissible_batch ?groups provider (batch_limit (p_capabilities provider) (rc_batch_max_judgments config))
        (limits_of config scope) rqs" for rqs w
      using serves admissible_row_batch [OF item adm] adm
      by (simp add: serves_chunk_def Let_def) (auto simp: admissible_batch_def)
    ultimately show "serves_batches ?groups provider (batch_limit (p_capabilities provider) (rc_batch_max_judgments config))
        (limits_of config scope)"
      using serves unfolding serves_batches_def by (simp add: serves_chunk_def Let_def)
  qed
  then show ?thesis
    using each config by (cases "?groups") (fastforce simp: groups_judgeable_def)+
qed

lemma run_optimized_returns:
  assumes "es_runtime_config state = Inr config"
    and ready: "ready_for (expected strict) (rc_max_inflight config) (snd (identity_scopes s)) s"
    and s: "rc_batch_enabled config \<Longrightarrow> host_inv (\<lambda>_ _. True) s"
    and strict: "strict \<Longrightarrow> es_connected state \<and> rc_mode config = Optimized \<and> settings_ok config
      \<and> (\<forall>row < n. row_judgeable codec kind input state config row)"
    and batch: "\<And>provider. strict \<Longrightarrow> rc_batch_enabled config \<Longrightarrow> es_provider state = Inr provider \<Longrightarrow>
      serves_chunk codec kind input n provider config"
  shows "\<exists>r out' counters' s' w'. run_optimized clock codec kind input state n counters out (s, w)
      = Some (r, out', counters', s', w')
    \<and> idle (rc_max_inflight config) (snd (identity_scopes s)) s' \<and> (strict \<longrightarrow> r = Inr ())
    \<and> (rc_batch_enabled config \<and> is_err r
        \<or> ready_for (expected strict) (rc_max_inflight config) (snd (identity_scopes s)) s')"
proof -
  let ?scope = "snd (identity_scopes s)" and ?n = "rc_max_inflight config"
  let ?ready = "ready_for (expected strict) ?n ?scope" and ?inv = "host_inv (\<lambda>_ _. True)"
  have rows: "?ready (record_optimized_rows ?scope i k v u s')" if "?ready s'" for i k v u s'
    using same_core_ready [OF same_core_rows(3) [OF same_core_refl]] that by blast
  have inv_rows: "?inv (record_optimized_rows ?scope i k v u s')" if "?inv s'" for i k v u s'
    using keepsD [OF keeps_records(2) that] by blast
  obtain c s1 where c: "credential_scope ?scope (px_credential (es_context state)) s = (c, s1)" by fastforce
  have s1: "?ready s1" "rc_batch_enabled config \<Longrightarrow> ?inv s1"
    using same_core_ready [OF same_core_credential [of ?scope s ?scope "px_credential (es_context state)"]] c ready
      keepsD [OF keeps_credential s, of ?scope "px_credential (es_context state)"]
    by simp_all
  show ?thesis
  proof (cases c)
    case (Inl e)
    have "active_scope ?scope s \<noteq> None" using ready by (auto simp: ready_for_def query_running_def)
    then have False using c Inl by (auto simp: credential_scope_def Let_def take_scope_def split: if_splits)
    then show ?thesis ..
  next
    case (Inr scope)
    let ?ids = "identity_context_of (es_context state) scope ?scope"
    let ?collect = "collect_work codec kind input ?ids (fc_invocation counters) (fc_chunk counters) [0..<n] ([], 0)"
    show ?thesis
    proof (cases ?collect)
      case (Inl e)
      have "\<exists>rq. read_request codec kind input row = Inr rq" if strict "row < n" for row
        using strict [OF that(1)] that(2)
        by (cases "read_request codec kind input row") (auto simp: row_judgeable_def)
      then have "\<forall>row \<in> set [0..<n]. \<exists>rq. read_request codec kind input row = Inr rq" if strict
        using that by simp
      then have "\<not> strict" using Inl collect_work_all by (metis sum.distinct(1))
      then show ?thesis
        using assms(1) c \<open>c = Inr scope\<close> rows [OF s1(1)] ready Inl ready_idle [OF ready]
          ready_idle [OF rows [OF s1(1)]] by (simp add: run_optimized_def Let_def)
    next
      case collected: (Inr x)
      obtain work k where x: "x = (work, k)" by fastforce
      let ?s3 = "record_optimized_rows ?scope 0 (usize_of k) (usize_of (length work))
          (usize_of (length (group_by_identity work))) (record_optimized_rows ?scope (usize_of n) 0 0 0 s1)"
      have served: "groups_judgeable config state ?scope (group_by_identity work)" if strict
        using chunk_groups_judgeable [OF collected [unfolded x]] strict [OF that] batch [OF that] by blast
      obtain r s4 w4 where g: "run_groups clock config state ?scope (group_by_identity work) (?s3, w) = Some (r, s4, w4)"
        "idle ?n ?scope s4" "strict \<longrightarrow> \<not> is_err r" "rc_batch_enabled config \<and> is_err r \<or> ?ready s4"
        using run_groups_returns [OF rows [OF rows [OF s1(1)]] inv_rows [OF inv_rows [OF s1(2)]] served] by blast
      then show ?thesis using assms(1) c Inr collected x ready strict ready_idle [OF ready]
        by (cases r) (auto simp: run_optimized_def Let_def is_err_def)
    qed
  qed
qed

end
