(* ===== verification/Samples.thy ===== *)
theory Samples
  imports Mock Host_Progress Provider_Calls
begin

text \<open>
  Concrete inputs on which the properties are applied: two rows asking the same question, a fresh
  connection runtime with a running query, the offline provider and a clock that ticks at every reading.
\<close>

definition sample_request :: judgment_request where
  "sample_request =
     (case choice_request (encode_text ''late'') ''urgent?'' [''yes'', ''no''] of
        Inr rq \<Rightarrow> rq | Inl _ \<Rightarrow> undefined)"

definition sample_context :: identity_context where
  "sample_context =
     \<lparr>ic_provider_namespace = ''mock'', ic_endpoint = ''mock'', ic_requested_model = ''mock'',
      ic_effective_model = Some ''mock'', ic_credential_scope = 1, ic_model_binding_scope = 1\<rparr>"

definition sample_work :: "nat \<Rightarrow> judgment_work" where
  "sample_work row =
     \<lparr>jw_identity = new_identity sample_request sample_context, jw_request = sample_request,
      jw_target = \<lparr>tg_function_invocation = 0, tg_data_chunk = 0, tg_row = word_of_nat row\<rparr>\<rparr>"

definition sample_groups :: "judgment_group list" where
  "sample_groups = group_by_identity [sample_work 0, sample_work 3]"

definition sample_runtime :: connection_runtime where
  "sample_runtime = begin_query 0 (default_runtime 1 (\<lambda>_. 0) [])"

definition sample_limits :: execution_limits where
  "sample_limits = \<lparr>el_query_scope = 0, el_max_inflight = 1, el_max_request_bytes = 100000\<rparr>"

definition tick :: "nat \<Rightarrow> instant \<times> nat" where
  "tick w = (w, Suc w)"

lemma sample_groups_identities:
  "\<forall>g \<in> set sample_groups. jg_identity g = new_identity (jg_request g) sample_context"
  by (simp add: sample_groups_def group_by_identity_def sample_work_def)

lemma sample_inv: "host_inv P sample_runtime"
  unfolding sample_runtime_def by (rule keepsD(1) [OF keeps_begin]) (simp add: host_inv_default)

lemma sample_ready: "ready 1 0 sample_runtime"
  by (simp add: ready_for_def query_running_def active_scope_def entries_done_def sample_runtime_def
      begin_query_def default_runtime_def Let_def)

text \<open>Reading an evaluated run.\<close>

lemma run_ok:
  "(case x of Some (Inr out, s, w) \<Rightarrow> P out s w | _ \<Rightarrow> False) \<Longrightarrow>
   \<exists>out s w. x = Some (Inr out, s, w) \<and> P out s w"
proof -
  assume ok: "case x of Some (Inr out, s, w) \<Rightarrow> P out s w | _ \<Rightarrow> False"
  obtain r s w where x: "x = Some (r, s, w)" using ok by (cases x) auto
  then show ?thesis using ok by (cases r) auto
qed

lemma sample_single_run:
  "\<exists>out s' w'. execute_groups sample_groups tick mock_provider host_ops sample_limits None (sample_runtime, 0)
     = Some (Inr out, s', w') \<and> length out = 2"
proof -
  have "case execute_groups sample_groups tick mock_provider host_ops sample_limits None (sample_runtime, 0) of
      Some (Inr out, _, _) \<Rightarrow> length out = 2 | _ \<Rightarrow> False" by code_simp
  then show ?thesis by (rule run_ok)
qed

lemma sample_batch_run:
  "\<exists>out s' w'. execute_batch_groups sample_groups tick mock_provider host_ops 8 sample_limits None (sample_runtime, 0)
     = Some (Inr out, s', w') \<and> length out = 2"
proof -
  have "case execute_batch_groups sample_groups tick mock_provider host_ops 8 sample_limits None (sample_runtime, 0) of
      Some (Inr out, _, _) \<Rightarrow> length out = 2 | _ \<Rightarrow> False" by code_simp
  then show ?thesis by (rule run_ok)
qed

end
