(* ===== verification/Typesafe_Properties.thy ===== *)
theory Typesafe_Properties
  imports Typesafe Samples
begin

text \<open>
  What the HTTP adapter guarantees: the answers it accepts, the errors it can return, the bodies it
  builds, the calls it refuses before contacting the service, and the requests an executor run sends.
\<close>

section \<open>Accepted answers\<close>

text \<open>The typed answer object of the protocol that carries a result.\<close>

definition carries_answer :: "judgment_request \<Rightarrow> json \<Rightarrow> judgment_result \<Rightarrow> bool" where
  "carries_answer request answer r \<longleftrightarrow>
     (case r of
        Noul v \<Rightarrow> rq_kind request = Kind_Noul \<and> json_get answer ''type'' = Some (JString ''noul'')
          \<and> (\<exists>n. json_get answer ''noul'' = Some n \<and> as_f64 n = Some v) \<and> unit_probability v
      | Choice l \<Rightarrow> rq_kind request = Kind_Choice \<and> json_get answer ''type'' = Some (JString ''choice'')
          \<and> json_get answer ''choice'' = Some (JString l) \<and> l \<in> set (rq_choices request))"

lemma as_object_iff: "as_object v = Some m \<longleftrightarrow> v = JObject m"
  by (cases v) auto

lemma as_str_iff: "as_str v = Some s \<longleftrightarrow> v = JString s"
  by (cases v) auto

lemma json_get_as_object: "json_get v k = (case as_object v of None \<Rightarrow> None | Some m \<Rightarrow> map_of m k)"
  by (cases v) auto

lemma typed_answer_value_iff:
  "typed_answer_value answer t f = Inr v \<longleftrightarrow>
     json_get answer ''type'' = Some (JString t) \<and> json_get answer f = Some v"
  by (cases answer) (auto simp: typed_answer_value_def as_str_iff split: option.splits)

lemma parse_answer_iff: "parse_answer request answer = Inr r \<longleftrightarrow> carries_answer request answer r"
  by (cases "rq_kind request"; cases r)
    (auto simp: parse_answer_def carries_answer_def result_bind_Inr typed_answer_value_iff as_str_iff
      split: option.splits)

lemma carries_answer_valid:
  "carries_answer request answer r \<Longrightarrow> valid_answer (rq_kind request) (rq_choices request) r"
  by (auto simp: carries_answer_def valid_answer_def split: judgment_result.splits)

text \<open>The answers read are those of the requests, in the order of the requests.\<close>

definition reads_answers ::
  "(string \<times> json) list \<Rightarrow> judgment_request list \<Rightarrow> provider_answer list \<Rightarrow> bool" where
  "reads_answers m = list_all2 (\<lambda>request a. pa_request_key a = rq_request_key request
     \<and> carries_answer request (the (map_of m (rq_request_key request))) (pa_result a))"

lemma parse_answers_iff: "parse_answers m requests = Inr as \<longleftrightarrow> reads_answers m requests as"
proof (induction requests arbitrary: as)
  case (Cons request requests)
  have *: "(\<exists>r rest. P r \<and> Q rest \<and> as = \<lparr>pa_request_key = k, pa_result = r\<rparr> # rest) \<longleftrightarrow>
      (\<exists>a rest. as = a # rest \<and> pa_request_key a = k \<and> P (pa_result a) \<and> Q rest)" for P Q k
    by (metis (full_types) provider_answer.select_convs provider_answer.surjective unit.exhaust)
  show ?case
    using Cons.IH
    by (auto simp: reads_answers_def result_bind_Inr parse_answer_iff list_all2_Cons1 *)
qed (auto simp: reads_answers_def)

lemma reads_answers_keys:
  "reads_answers m requests as \<Longrightarrow> map pa_request_key as = map rq_request_key requests"
  unfolding reads_answers_def by (induction requests as rule: list_all2_induct) auto

lemma reads_answers_answers:
  assumes "reads_answers m requests as" "distinct (map rq_request_key requests)" "a \<in> set as"
  shows "answers_request requests a"
proof -
  obtain i where i: "i < length as" "as ! i = a" using assms(3) by (auto simp: in_set_conv_nth)
  then have "i < length requests" and k: "pa_request_key a = rq_request_key (requests ! i)"
    and c: "valid_answer (rq_kind (requests ! i)) (rq_choices (requests ! i)) (pa_result a)"
    using assms(1) unfolding reads_answers_def
    by (auto simp: list_all2_conv_all_nth dest: carries_answer_valid)
  then have "find (\<lambda>r. rq_request_key r = pa_request_key a) requests = Some (requests ! i)"
    using find_distinct_key [OF assms(2), of "requests ! i"] by simp
  then show ?thesis using c by (auto simp: answers_request_def)
qed

lemma reads_answers_covers:
  assumes "reads_answers m requests (br_answers response)"
  shows "covers_batch requests response \<longleftrightarrow> distinct (map rq_request_key requests)"
proof -
  have "map pa_request_key (br_answers response) = map rq_request_key requests"
    using assms by (rule reads_answers_keys)
  then show ?thesis
    using reads_answers_answers [OF assms] unfolding covers_batch_def
    by (metis list.set_map)
qed

lemma reads_answers_covers_record:
  "reads_answers m requests as \<Longrightarrow>
   covers_batch requests \<lparr>br_answers = as, br_metadata = md\<rparr> \<longleftrightarrow> distinct (map rq_request_key requests)"
  by (rule reads_answers_covers) simp

definition reads_response ::
  "typesafe_provider \<Rightarrow> judgment_request list \<Rightarrow> json \<Rightarrow> provider_batch_result \<Rightarrow> bool" where
  "reads_response p requests parsed response \<longleftrightarrow>
     distinct (map rq_request_key requests)
     \<and> (\<exists>m. json_get parsed ''answers'' = Some (JObject m) \<and> length m = length requests
          \<and> (\<forall>request \<in> set requests. map_of m (rq_request_key request) \<noteq> None)
          \<and> reads_answers m requests (br_answers response))
     \<and> br_metadata response = response_metadata p parsed"

lemma parse_batch_response_iff:
  "parse_batch_response sv p requests body = Inr response \<longleftrightarrow>
     (\<exists>parsed. sv_from_str sv body = Some parsed \<and> reads_response p requests parsed response)"
  by (cases response)
    (auto simp: parse_batch_response_def reads_response_def as_object_iff result_bind_Inr Let_def
      parse_answers_iff reads_answers_covers_record list_ex_iff split: option.splits)

lemma parsed_covers:
  assumes "parse_batch_response sv p requests body = Inr response"
  shows "covers_batch requests response
    \<and> map pa_request_key (br_answers response) = map rq_request_key requests"
  using assms reads_answers_covers reads_answers_keys
  by (auto simp: parse_batch_response_iff reads_response_def)

section \<open>The exchange\<close>

text \<open>An accepted response was parsed from a body; only its timing was added.\<close>

definition accepted_response ::
  "'w services \<Rightarrow> typesafe_provider \<Rightarrow> judgment_request list \<Rightarrow> provider_batch_result \<Rightarrow> bool" where
  "accepted_response sv p requests response \<longleftrightarrow>
     (\<exists>text r. parse_batch_response sv p requests text = Inr r
        \<and> br_answers response = br_answers r
        \<and> pm_effective_model (br_metadata response) = pm_effective_model (br_metadata r))
     \<and> (1 < length requests \<longrightarrow> pm_effective_model (br_metadata response) = Some VERIFIED_BATCH_EFFECTIVE_MODEL)"

lemma accepted_responseI:
  "parse_batch_response sv p requests text = Inr r \<Longrightarrow> br_answers response = br_answers r \<Longrightarrow>
   pm_effective_model (br_metadata response) = pm_effective_model (br_metadata r) \<Longrightarrow>
   1 < length requests \<longrightarrow> pm_effective_model (br_metadata response) = Some VERIFIED_BATCH_EFFECTIVE_MODEL \<Longrightarrow>
   accepted_response sv p requests response"
  unfolding accepted_response_def by blast

lemma receive_body_Inr:
  "receive_body sv p requests head s t w = (Inr response, w') \<Longrightarrow> accepted_response sv p requests response"
  by (auto simp: receive_body_def Let_def split: if_splits sum.splits prod.splits intro: accepted_responseI)

lemma post_body_Inr:
  "post_body sv p requests body t w = (Inr response, w') \<Longrightarrow> accepted_response sv p requests response"
  by (auto simp: post_body_def Let_def split: option.splits sum.splits prod.splits dest!: receive_body_Inr)

lemma covers_batch_answers:
  "br_answers a = br_answers b \<Longrightarrow> covers_batch requests a = covers_batch requests b"
  by (simp add: covers_batch_def)

lemma accepted_covers:
  assumes "accepted_response sv p requests response"
  shows "covers_batch requests response
    \<and> map pa_request_key (br_answers response) = map rq_request_key requests"
proof -
  obtain body_text r where "parse_batch_response sv p requests body_text = Inr r" "br_answers response = br_answers r"
    using assms unfolding accepted_response_def by blast
  then show ?thesis using parsed_covers covers_batch_answers by metis
qed

lemma post_single_accepted:
  "post_single sv p request w = (Inr response, w') \<Longrightarrow> accepted_response sv p [request] response"
  by (auto simp: post_single_def Let_def split: sum.splits prod.splits dest: post_body_Inr)

lemma judge_many_accepted:
  assumes "typesafe_judge_many sv p requests w = (Inr response, w')"
  shows "accepted_response sv p requests response \<and> (length requests = 1 \<or> tp_multi_state_batch p = Verified
    \<and> pm_effective_model (br_metadata response) = Some VERIFIED_BATCH_EFFECTIVE_MODEL)"
proof (cases "length requests = 1")
  case True
  then obtain rq where "requests = [rq]" by (auto simp: length_Suc_conv)
  then show ?thesis using assms post_single_accepted by (simp add: typesafe_judge_many_def)
next
  case False
  then have v: "tp_multi_state_batch p = Verified"
    using assms by (auto simp: typesafe_judge_many_def split: capability_status.splits)
  then obtain body t w1 where p: "post_body sv p requests body t w1 = (Inr response, w')"
    and b: "build_batch_body p requests = Inr body"
    using assms False by (auto simp: typesafe_judge_many_def split: sum.splits prod.splits)
  have "1 < length requests" using b False by (cases requests) (auto simp: build_batch_body_def)
  then have "pm_effective_model (br_metadata response) = Some VERIFIED_BATCH_EFFECTIVE_MODEL"
    using post_body_Inr [OF p] unfolding accepted_response_def by blast
  then show ?thesis using post_body_Inr [OF p] v by blast
qed

text \<open>C25: Every result the HTTP adapter hands back has been checked: a response to one request or to
  a batch is accepted only when it answers each request exactly once, in the order of the requests and
  with a valid answer, and a batch only when the service reported the one model verified for batches.\<close>

theorem adapter_results_are_checked:
  assumes "typesafe_judge_many sv p requests w = (Inr response, w')"
  shows "covers_batch requests response
    \<and> map pa_request_key (br_answers response) = map rq_request_key requests
    \<and> (length requests = 1 \<or> tp_multi_state_batch p = Verified
         \<and> pm_effective_model (br_metadata response) = Some VERIFIED_BATCH_EFFECTIVE_MODEL)"
  using judge_many_accepted [OF assms] accepted_covers by blast

text \<open>C39: A response body is accepted exactly when it is JSON with an object \<open>answers\<close> whose members
  are the pairwise distinct request keys and nothing else, and each member is an answer object of the
  question's own type carrying a probability in [0,1] or one of the question's labels; then the answers
  are exactly those, in the order of the requests, with the reported model and usage.\<close>

theorem response_parsing_exact:
  "parse_batch_response sv p requests body = Inr response \<longleftrightarrow>
     (\<exists>parsed. sv_from_str sv body = Some parsed \<and> reads_response p requests parsed response)"
  by (rule parse_batch_response_iff)

section \<open>Errors\<close>

text \<open>
  The messages that do not depend on anything the service sent; \<open>redacted\<close> adds the status line
  and the text of a transport failure.
\<close>

definition protocol_messages :: "string list" where
  "protocol_messages =
     [''provider answer is not a typed answer object'',
      ''provider answer type does not match the requested noul question'',
      ''provider answer type does not match the requested choice question'',
      ''provider noul answer is missing the 'noul' field'',
      ''provider choice answer is missing the 'choice' field'',
      ''provider noul answer is not a number'', ''provider choice answer is not a string'',
      ''provider returned a non-finite probability'', ''provider returned a probability outside [0,1]'',
      ''provider returned a label outside the candidate set'',
      ''provider batch contains duplicate request keys'',
      ''provider batch answer count does not match the request count'',
      ''provider batch contains duplicate answer keys'', ''provider batch contains an unknown answer key'',
      ''provider batch answer type does not match the request'',
      ''provider batch answer keys do not match the request keys'',
      ''provider returned a body that is not valid JSON'',
      ''provider response is missing the 'answers' object'',
      ''provider response answers do not match the requested question keys'']"

definition request_messages :: "string list" where
  "request_messages =
     [''choice count exceeds the verified provider limit'',
      ''provider multi-state batch capability is not verified'',
      ''provider does not support cross-state batch requests'',
      ''TypeSafe batch must contain at least one judgment'',
      ''TypeSafe batch question keys must be unique'',
      ''TypeSafe batch judgments must share one compatible question context'',
      ''TypeSafe noul batch is missing its criterion'', ''TypeSafe choice batch is missing its question'']"

definition service_messages :: "string list" where
  "service_messages =
     [''provider request could not be serialized'',
      ''local-jev truncated the state; refusing a result based on partial input'',
      ''provider model does not match the verified multi-state batch model'']"

text \<open>
  What an error may say, spelled out: one of the fixed messages above, an HTTP status outside 200..299 with
  nothing or the adapter's hint \<open>hint\<close> after it, or one of two fixed prefixes with the failure text of the
  transport, a \<open>ureq\<close> error.
\<close>

definition redacted :: "string \<Rightarrow> string set \<Rightarrow> judgment_error \<Rightarrow> bool" where
  "redacted hint transport e \<longleftrightarrow>
     je_kind e = InvalidResponse \<and> je_message e \<in> set protocol_messages
     \<or> je_kind e = Configuration \<and> je_message e \<in> set request_messages
     \<or> je_kind e = Provider
        \<and> (je_message e \<in> set service_messages
           \<or> (\<exists>status. (status < 200 \<or> 300 \<le> status)
                \<and> (je_message e = ''provider returned HTTP '' @ nat_to_string status
                   \<or> je_message e = ''provider returned HTTP '' @ nat_to_string status @ '' ('' @ hint @ '').''))
           \<or> (\<exists>text \<in> transport. je_message e = ''provider request failed: '' @ text
                \<or> je_message e = ''provider response could not be read: '' @ text))"

text \<open>The failure texts of the transport, and a transport whose outcome does not depend on the credential.\<close>

definition transport_texts :: "'w services \<Rightarrow> string set" where
  "transport_texts sv =
     {text. (\<exists>t rq w. fst (sv_send sv t rq w) = Inl text) \<or> (\<exists>n w. fst (sv_read_body sv n w) = Inl text)}"

definition credential_blind :: "'w services \<Rightarrow> bool" where
  "credential_blind sv \<longleftrightarrow> (\<forall>t rq a w. sv_send sv t (rq\<lparr>hr_authorization := a\<rparr>) w = sv_send sv t rq w)"

lemma protocol_messages_in [simp]:
  "''provider answer is not a typed answer object'' \<in> set protocol_messages"
  "''provider answer type does not match the requested noul question'' \<in> set protocol_messages"
  "''provider answer type does not match the requested choice question'' \<in> set protocol_messages"
  "''provider noul answer is missing the 'noul' field'' \<in> set protocol_messages"
  "''provider choice answer is missing the 'choice' field'' \<in> set protocol_messages"
  "''provider noul answer is not a number'' \<in> set protocol_messages"
  "''provider choice answer is not a string'' \<in> set protocol_messages"
  "''provider returned a non-finite probability'' \<in> set protocol_messages"
  "''provider returned a probability outside [0,1]'' \<in> set protocol_messages"
  "''provider returned a label outside the candidate set'' \<in> set protocol_messages"
  "''provider batch contains duplicate request keys'' \<in> set protocol_messages"
  "''provider batch answer count does not match the request count'' \<in> set protocol_messages"
  "''provider batch contains duplicate answer keys'' \<in> set protocol_messages"
  "''provider batch contains an unknown answer key'' \<in> set protocol_messages"
  "''provider batch answer type does not match the request'' \<in> set protocol_messages"
  "''provider batch answer keys do not match the request keys'' \<in> set protocol_messages"
  "''provider returned a body that is not valid JSON'' \<in> set protocol_messages"
  "''provider response is missing the 'answers' object'' \<in> set protocol_messages"
  "''provider response answers do not match the requested question keys'' \<in> set protocol_messages"
  by (simp_all add: protocol_messages_def)

lemma parse_answer_error: "parse_answer request answer = Inl e \<Longrightarrow> e \<in> invalid_response ` set protocol_messages"
  by (cases "rq_kind request")
    (auto simp: parse_answer_def typed_answer_value_def validate_probability_def validate_label_def
      result_bind_Inl split: option.splits if_splits)

lemma parse_answers_error: "parse_answers m requests = Inl e \<Longrightarrow> e \<in> invalid_response ` set protocol_messages"
  by (induction requests) (auto simp: result_bind_Inl dest: parse_answer_error)

lemma collect_expected_error:
  "collect_expected ks requests = Inl e \<Longrightarrow> e \<in> invalid_response ` set protocol_messages"
  by (induction ks requests rule: collect_expected.induct) (auto split: if_splits)

lemma validate_answer_error: "validate_answer request r = Inl e \<Longrightarrow> e \<in> invalid_response ` set protocol_messages"
  by (cases "rq_kind request"; cases r)
    (auto simp: validate_answer_def validate_probability_def validate_label_def result_bind_Inl
      split: if_splits)

lemma check_answers_error:
  "check_answers requests seen as = Inl e \<Longrightarrow> e \<in> invalid_response ` set protocol_messages"
proof (induction requests seen as rule: check_answers.induct)
  case (2 requests seen answer answers)
  then show ?case
    by (auto simp: result_bind_Inl split: if_splits option.splits dest: validate_answer_error)
qed simp

lemma validate_batch_error:
  "validate_batch_result requests response = Inl e \<Longrightarrow> e \<in> invalid_response ` set protocol_messages"
  by (auto simp: validate_batch_result_def result_bind_Inl split: if_splits
      dest: collect_expected_error check_answers_error)

lemma parse_batch_error:
  "parse_batch_response sv p requests body = Inl e \<Longrightarrow> e \<in> invalid_response ` set protocol_messages"
  by (auto simp: parse_batch_response_def result_bind_Inl Let_def split: if_splits option.splits
      dest: parse_answers_error validate_batch_error)

lemma request_messages_in [simp]:
  "''choice count exceeds the verified provider limit'' \<in> set request_messages"
  "''provider multi-state batch capability is not verified'' \<in> set request_messages"
  "''provider does not support cross-state batch requests'' \<in> set request_messages"
  "''TypeSafe batch must contain at least one judgment'' \<in> set request_messages"
  "''TypeSafe batch question keys must be unique'' \<in> set request_messages"
  "''TypeSafe batch judgments must share one compatible question context'' \<in> set request_messages"
  "''TypeSafe noul batch is missing its criterion'' \<in> set request_messages"
  "''TypeSafe choice batch is missing its question'' \<in> set request_messages"
  by (simp_all add: request_messages_def)

lemma service_messages_in [simp]:
  "''provider request could not be serialized'' \<in> set service_messages"
  "''local-jev truncated the state; refusing a result based on partial input'' \<in> set service_messages"
  "''provider model does not match the verified multi-state batch model'' \<in> set service_messages"
  by (simp_all add: service_messages_def)

lemma redactedI:
  "e \<in> invalid_response ` set protocol_messages \<Longrightarrow> redacted hint transport e"
  "e \<in> configuration ` set request_messages \<Longrightarrow> redacted hint transport e"
  "e \<in> provider_error ` set service_messages \<Longrightarrow> redacted hint transport e"
  "text \<in> transport \<Longrightarrow> redacted hint transport (send_error text)"
  "text \<in> transport \<Longrightarrow> redacted hint transport (read_error text)"
  by (auto simp: redacted_def invalid_response_def configuration_def provider_error_def send_error_def read_error_def)

lemma redacted_status: "\<not> (200 \<le> status \<and> status < 300) \<Longrightarrow> redacted (tp_auth_hint p) transport (status_error p status)"
  by (auto simp: redacted_def status_error_def provider_error_def word_le_nat_alt word_less_nat_alt
      intro!: exI [of _ "unat status"])

lemma transport_textsI:
  "sv_send sv t rq w = (Inl text, w') \<Longrightarrow> text \<in> transport_texts sv"
  "sv_read_body sv n w = (Inl text, w') \<Longrightarrow> text \<in> transport_texts sv"
  unfolding transport_texts_def by (metis (mono_tags, lifting) fst_conv mem_Collect_eq)+

lemma check_request_error:
  "check_request_capabilities p request = Inl e \<Longrightarrow> e \<in> configuration ` set request_messages"
  by (auto simp: check_request_capabilities_def split: if_splits)

lemma check_batch_error:
  "check_batch p first ks requests = Inl e \<Longrightarrow> e \<in> configuration ` set request_messages"
  by (induction ks requests rule: check_batch.induct)
    (auto simp: result_bind_Inl split: if_splits dest: check_request_error)

lemma batch_questions_error:
  "batch_questions i requests = Inl e \<Longrightarrow> e \<in> configuration ` set request_messages"
  by (induction i requests rule: batch_questions.induct)
    (auto simp: result_bind_Inl batch_question_def split: question_kind.splits option.splits)

lemma build_batch_error:
  "build_batch_body p requests = Inl e \<Longrightarrow> e \<in> configuration ` set request_messages"
  by (auto simp: build_batch_body_def batch_state_def result_bind_Inl Let_def
      simp del: check_batch.simps batch_questions.simps
      split: list.splits question_kind.splits option.splits dest: check_batch_error batch_questions_error)

lemma receive_body_error:
  "receive_body sv p requests head s t w = (Inl e, w') \<Longrightarrow> redacted (tp_auth_hint p) (transport_texts sv) e"
  by (auto simp: receive_body_def Let_def split: if_splits sum.splits prod.splits
      intro: redactedI redacted_status transport_textsI dest: parse_batch_error)

lemma post_body_error: "post_body sv p requests body t w = (Inl e, w') \<Longrightarrow> redacted (tp_auth_hint p) (transport_texts sv) e"
  by (auto simp: post_body_def Let_def split: option.splits sum.splits prod.splits
      intro: redactedI redacted_status transport_textsI dest: receive_body_error)

lemma post_single_error: "post_single sv p request w = (Inl e, w') \<Longrightarrow> redacted (tp_auth_hint p) (transport_texts sv) e"
  by (auto simp: post_single_def Let_def split: sum.splits prod.splits
      intro: redactedI redacted_status transport_textsI dest: post_body_error check_request_error)

text \<open>The credential goes nowhere but into the header of the request.\<close>

lemma receive_body_credential [simp]: "receive_body sv (p\<lparr>tp_credential := c\<rparr>) = receive_body sv p"
  by (intro ext) (simp add: receive_body_def status_error_def parse_batch_response_def response_metadata_def split: option.split sum.split prod.split)

lemma build_credential [simp]:
  "check_request_capabilities (p\<lparr>tp_credential := c\<rparr>) = check_request_capabilities p"
  "request_body (p\<lparr>tp_credential := c\<rparr>) = request_body p"
  by (intro ext, simp add: check_request_capabilities_def request_body_def)+

lemma build_body_credential [simp]: "build_body (p\<lparr>tp_credential := c\<rparr>) = build_body p"
  by (intro ext) (simp add: build_body_def Let_def split: question_kind.split)

lemma check_batch_credential [simp]: "check_batch (p\<lparr>tp_credential := c\<rparr>) first ks requests = check_batch p first ks requests"
  by (induction ks requests rule: check_batch.induct) simp_all

lemma build_batch_credential [simp]: "build_batch_body (p\<lparr>tp_credential := c\<rparr>) = build_batch_body p"
  by (intro ext) (simp add: build_batch_body_def request_body_def del: check_batch.simps split: list.split)

lemma post_body_credential:
  assumes "credential_blind sv"
  shows "post_body sv (p\<lparr>tp_credential := c\<rparr>) = post_body sv p"
proof -
  have send: "sv_send sv t (http_request_for (p\<lparr>tp_credential := c\<rparr>) body) w = sv_send sv t (http_request_for p body) w" for t body w
  proof -
    have "http_request_for (p\<lparr>tp_credential := c\<rparr>) body
        = (http_request_for p body)\<lparr>hr_authorization := map_option (\<lambda>v. ''Bearer '' @ v) c\<rparr>"
      by (simp add: http_request_for_def)
    then show ?thesis using assms unfolding credential_blind_def by metis
  qed
  then show ?thesis by (intro ext) (simp add: post_body_def Let_def split: option.split sum.split prod.split)
qed

lemma judge_many_credential:
  assumes "credential_blind sv"
  shows "typesafe_judge_many sv (p\<lparr>tp_credential := c\<rparr>) requests w = typesafe_judge_many sv p requests w"
  by (simp add: typesafe_judge_many_def post_single_def post_body_credential [OF assms] Let_def split_beta split: sum.split capability_status.split)

text \<open>C26: Errors carry no credential and nothing of what the service sent except its status. Every error
  of a call, single or batched, is one of a fixed list of messages, or a status outside 200..299 with at
  most the adapter's fixed hint, or a fixed prefix with the transport's own failure text: a response body
  only ever decides which fixed message is returned. And it does not depend on the credential: with a
  transport whose outcome does not, the same call with any other credential, or none, fails with the same
  error, so that no error can tell one credential from another.\<close>

theorem adapter_errors_are_redacted:
  assumes "typesafe_judge_many sv p requests w = (Inl e, w')"
  shows "redacted (tp_auth_hint p) (transport_texts sv) e
    \<and> (credential_blind sv \<longrightarrow> (\<forall>c. typesafe_judge_many sv (p\<lparr>tp_credential := c\<rparr>) requests w = (Inl e, w')))"
proof -
  have "redacted (tp_auth_hint p) (transport_texts sv) e"
    using assms
    by (auto simp: typesafe_judge_many_def split: if_splits capability_status.splits sum.splits prod.splits
        intro: redactedI dest: post_body_error post_single_error build_batch_error)
  then show ?thesis using assms judge_many_credential by metis
qed

section \<open>Calls refused before they are made\<close>

text \<open>C40: A call the service is not verified for never leaves the process: a batch at an adapter
  without verified batching (the local service always, the cloud one for an unverified model), and a
  choice with more labels than the service's limit, are configuration errors and the outside world is
  left as it was.\<close>

theorem unverified_calls_are_not_made:
  assumes "tp_multi_state_batch p \<noteq> Verified \<and> length requests \<noteq> 1
    \<or> (\<exists>request maximum. requests = [request] \<and> rq_kind request = Kind_Choice
         \<and> tp_max_choices p = Some maximum \<and> unat maximum < length (rq_choices request))"
  shows "\<exists>m. typesafe_judge_many sv p requests w = (Inl (configuration m), w)"
  using assms
  by (cases "tp_multi_state_batch p")
    (auto simp: typesafe_judge_many_def post_single_def check_request_capabilities_def)

section \<open>Pinned models\<close>

fun join_dots :: "string list \<Rightarrow> string" where
  "join_dots [] = []"
| "join_dots [w] = w"
| "join_dots (w # ws) = w @ CHR ''.'' # join_dots ws"

definition digits :: "string \<Rightarrow> bool" where
  "digits w \<longleftrightarrow> w \<noteq> [] \<and> (\<forall>c \<in> set w. is_ascii_digit c)"

definition pinned_model :: "string \<Rightarrow> bool" where
  "pinned_model m \<longleftrightarrow> (\<exists>ws. 2 \<le> length ws \<and> (\<forall>w \<in> set ws. digits w) \<and> m = ''jev-'' @ join_dots ws)"

lemma split_on_nonempty [simp]: "split_on d s \<noteq> []"
  by (induction s) (auto split: list.splits)

lemma join_split: "join_dots (split_on (CHR ''.'') s) = s"
proof (induction s)
  case (Cons c s)
  then show ?case by (cases "split_on (CHR ''.'') s" rule: join_dots.cases) auto
qed simp

lemma split_on_word: "d \<notin> set w \<Longrightarrow> split_on d w = [w]"
  by (induction w) auto

lemma split_on_append: "d \<notin> set w \<Longrightarrow> split_on d (w @ d # s) = w # split_on d s"
  by (induction w) auto

lemma digits_no_dot: "digits w \<Longrightarrow> CHR ''.'' \<notin> set w"
  by (auto simp: digits_def is_ascii_digit_def byte_of_def)

lemma split_join:
  "ws \<noteq> [] \<Longrightarrow> \<forall>w \<in> set ws. digits w \<Longrightarrow> split_on (CHR ''.'') (join_dots ws) = ws"
  by (induction ws rule: join_dots.induct) (auto simp: split_on_word split_on_append digits_no_dot)

lemma trim_ascii:
  assumes "\<not> ws1 (byte_of a)" "\<not> ws1 (byte_of z)" "byte_of a < 0x80" "byte_of z < 0x80"
  shows "trim (a # s @ [z]) = a # s @ [z]"
proof -
  have start: "trim_start (a # t) = a # t" for t
    using assms(1,3) by (auto simp: ws2_def ws3_def split: list.split)
  have "trim_start_rev (z # t) = z # t" for t
    using assms(2,4) by (auto simp: ws2_def ws3_def split: list.split)
  then show ?thesis by (simp only: trim_def start) simp
qed

lemma join_dots_last:
  "2 \<le> length ws \<Longrightarrow> \<forall>w \<in> set ws. digits w \<Longrightarrow> \<exists>t z. join_dots ws = t @ [z] \<and> is_ascii_digit z"
proof (induction ws rule: join_dots.induct)
  case (3 w v ws)
  show ?case
  proof (cases ws)
    case Nil
    then obtain t z where "v = t @ [z]" using 3(3) by (cases v rule: rev_cases) (auto simp: digits_def)
    then show ?thesis using Nil 3(3) by (auto simp: digits_def intro!: exI [of _ "w @ CHR ''.'' # t"])
  next
    case (Cons u us)
    then obtain t z where "join_dots (v # ws) = t @ [z]" "is_ascii_digit z" using 3 by auto
    then show ?thesis by (auto intro!: exI [of _ "w @ CHR ''.'' # t"])
  qed
qed simp_all

lemma pinned_trim:
  assumes "2 \<le> length ws" "\<forall>w \<in> set ws. digits w"
  shows "trim (''jev-'' @ join_dots ws) = ''jev-'' @ join_dots ws"
proof -
  obtain t z where "join_dots ws = t @ [z]" and z: "is_ascii_digit z" using join_dots_last assms by blast
  then have eq: "''jev-'' @ join_dots ws = CHR ''j'' # (''ev-'' @ t) @ [z]" by simp
  show ?thesis
    unfolding eq by (rule trim_ascii) (use z in \<open>auto simp: ws1_def is_ascii_digit_def byte_of_def\<close>)
qed

text \<open>Only pinned models are cacheable. The adapter gives a requested model a cache identity, the
  model itself, exactly when it is the cloud adapter and the model is \<open>jev-\<close> followed by two or more
  groups of digits separated by dots; aliases such as \<open>jev-latest\<close> and models of the local service
  never get one.\<close>

theorem cache_identity_only_for_pinned_models:
  "typesafe_cache_model_identity p m = Some i \<longleftrightarrow> tp_cacheable_model_aliases p \<and> i = m \<and> pinned_model m"
proof (intro iffI)
  assume "typesafe_cache_model_identity p m = Some i"
  then obtain v where v: "tp_cacheable_model_aliases p" "i = m" "m = ''jev-'' @ v"
    and c: "2 \<le> length (split_on (CHR ''.'') v)" "\<forall>w \<in> set (split_on (CHR ''.'') v). digits w"
    by (auto simp: typesafe_cache_model_identity_def Let_def strip_prefix_Some list_ex_iff digits_def list_all_iff
        simp del: strip_prefix.simps split: if_splits option.splits)
  then show "tp_cacheable_model_aliases p \<and> i = m \<and> pinned_model m"
    unfolding pinned_model_def by (intro conjI exI [of _ "split_on (CHR ''.'') v"]) (simp_all add: join_split)
next
  assume a: "tp_cacheable_model_aliases p \<and> i = m \<and> pinned_model m"
  then obtain ws where ws: "2 \<le> length ws" "\<forall>w \<in> set ws. digits w" "m = ''jev-'' @ join_dots ws"
    unfolding pinned_model_def by blast
  have "strip_prefix ''jev-'' m = Some (join_dots ws)" using ws(3) by (simp only: strip_prefix_Some)
  moreover have "split_on (CHR ''.'') (join_dots ws) = ws" using ws(1,2) by (intro split_join) auto
  moreover have "trim m = m" using pinned_trim ws by simp
  ultimately show "typesafe_cache_model_identity p m = Some i"
    using a ws(1,2) by (auto simp: typesafe_cache_model_identity_def list_ex_iff list_all_iff digits_def)
qed

section \<open>Request bodies\<close>

text \<open>What a body asks: each row's state in order, and under each request's key the question of its
  kind about that very row.\<close>

definition question_of :: "nat \<Rightarrow> judgment_request \<Rightarrow> json" where
  "question_of row_index request =
     (case rq_kind request of
        Kind_Noul \<Rightarrow> question_object [] ''noul'' (noul_instructions row_index)
      | Kind_Choice \<Rightarrow> question_object [(''criteria'', criteria_object (rq_choices request))] ''choice''
          (choice_instructions (case rq_question request of None \<Rightarrow> [] | Some q \<Rightarrow> q) row_index))"

definition body_asks :: "typesafe_provider \<Rightarrow> judgment_request list \<Rightarrow> json \<Rightarrow> bool" where
  "body_asks p requests body \<longleftrightarrow>
     (\<exists>state questions.
        json_get body ''model'' = Some (JString (tp_model p))
        \<and> json_get body ''state'' = Some (JObject state)
        \<and> json_get body ''questions'' = Some (JObject questions)
        \<and> map_of state ''rows'' = Some (JArray (map state_row requests))
        \<and> fst ` set questions = rq_request_key ` set requests
        \<and> (\<forall>i < length requests. map_of questions (rq_request_key (requests ! i)) = Some (question_of i (requests ! i))
             \<and> (rq_kind (requests ! i) = Kind_Noul \<longrightarrow>
                  map_of state ''condition'' = map_option JString (rq_criterion (requests ! i)))))"

definition batchable :: "typesafe_provider \<Rightarrow> judgment_request list \<Rightarrow> bool" where
  "batchable p requests \<longleftrightarrow> requests \<noteq> [] \<and> (length requests = 1
     \<or> (distinct (map rq_request_key requests)
        \<and> (\<forall>rq \<in> set requests. check_request_capabilities p rq = Inr ()
             \<and> rq_kind rq = rq_kind (hd requests) \<and> rq_criterion rq = rq_criterion (hd requests)
             \<and> rq_question rq = rq_question (hd requests) \<and> rq_choices rq = rq_choices (hd requests))))"

lemma check_batch_iff:
  "check_batch p first ks requests = Inr () \<longleftrightarrow>
     distinct (map rq_request_key requests) \<and> set (map rq_request_key requests) \<inter> set ks = {}
     \<and> (\<forall>rq \<in> set requests. check_request_capabilities p rq = Inr ()
          \<and> rq_kind rq = rq_kind first \<and> rq_criterion rq = rq_criterion first
          \<and> rq_question rq = rq_question first \<and> rq_choices rq = rq_choices first)"
  by (induction ks requests rule: check_batch.induct) (auto simp: result_bind_Inr)

lemma well_formed_parts:
  "well_formed_request rq \<Longrightarrow> rq_kind rq = Kind_Noul \<Longrightarrow> \<exists>c. rq_criterion rq = Some c"
  "well_formed_request rq \<Longrightarrow> rq_kind rq = Kind_Choice \<Longrightarrow> \<exists>q. rq_question rq = Some q"
  by (auto simp: well_formed_request_def split: option.splits)

lemma batch_question_of:
  "well_formed_request rq \<Longrightarrow> batch_question i rq = Inr (question_of i rq)"
  by (cases "rq_kind rq") (auto simp: batch_question_def question_of_def dest: well_formed_parts)

lemma batch_questions_of:
  "\<forall>rq \<in> set requests. well_formed_request rq \<Longrightarrow>
   batch_questions i requests
     = Inr (map (\<lambda>j. (rq_request_key (requests ! j), question_of (i + j) (requests ! j))) [0..<length requests])"
proof (induction requests arbitrary: i)
  case (Cons rq requests)
  have "map (\<lambda>j. (rq_request_key ((rq # requests) ! j), question_of (i + j) ((rq # requests) ! j)))
      [0..<length (rq # requests)]
    = (rq_request_key rq, question_of i rq)
      # map (\<lambda>j. (rq_request_key (requests ! j), question_of (Suc i + j) (requests ! j))) [0..<length requests]"
    by (simp add: upt_rec [of 0] map_Suc_upt [symmetric] comp_def del: upt_Suc)
  then show ?case using Cons by (simp add: batch_question_of)
qed simp

lemma batch_state_of:
  "well_formed_request first \<Longrightarrow>
   batch_state first requests = Inr ((''rows'', JArray (map state_row requests))
     # (case rq_kind first of
          Kind_Noul \<Rightarrow> [(''condition'', JString (case rq_criterion first of None \<Rightarrow> [] | Some c \<Rightarrow> c))]
        | Kind_Choice \<Rightarrow> []))"
  by (cases "rq_kind first") (auto simp: batch_state_def dest: well_formed_parts)

text \<open>The one form both builders produce for well-formed requests.\<close>

definition batch_document :: "typesafe_provider \<Rightarrow> judgment_request list \<Rightarrow> json" where
  "batch_document p requests = request_body p
     ((''rows'', JArray (map state_row requests))
       # (case rq_kind (hd requests) of
            Kind_Noul \<Rightarrow> [(''condition'', JString (case rq_criterion (hd requests) of None \<Rightarrow> [] | Some c \<Rightarrow> c))]
          | Kind_Choice \<Rightarrow> []))
     (map (\<lambda>j. (rq_request_key (requests ! j), question_of j (requests ! j))) [0..<length requests])"

lemma build_body_document: "build_body p rq = batch_document p [rq]"
  by (cases "rq_kind rq") (simp_all add: build_body_def batch_document_def question_of_def)

lemma build_batch_body_iff:
  assumes "\<forall>rq \<in> set requests. well_formed_request rq"
  shows "build_batch_body p requests = Inr body \<longleftrightarrow> batchable p requests \<and> body = batch_document p requests"
proof (cases requests)
  case (Cons first rest)
  show ?thesis
  proof (cases rest)
    case Nil
    then show ?thesis using Cons by (auto simp: build_batch_body_def batchable_def build_body_document)
  next
    case (Cons second more)
    then have l: "requests = first # second # more" using \<open>requests = first # rest\<close> by simp
    have f: "well_formed_request first" "hd requests = first" using assms l by simp_all
    have "build_batch_body p requests = result_bind (check_batch p first [] requests) (\<lambda>_.
        result_bind (batch_state first requests) (\<lambda>state.
        result_bind (batch_questions 0 requests) (\<lambda>questions. Inr (request_body p state questions))))"
      by (simp add: l build_batch_body_def del: check_batch.simps batch_questions.simps)
    then have "build_batch_body p requests = Inr body \<longleftrightarrow>
        check_batch p first [] requests = Inr () \<and> body = batch_document p requests"
      using batch_state_of [OF f(1), of requests] batch_questions_of [OF assms, of 0]
      by (simp only: result_bind_simps batch_document_def f(2))
        (auto simp: result_bind_Inr)
    then show ?thesis by (simp add: check_batch_iff batchable_def f(2)) (auto simp: l)
  qed
qed (simp add: build_batch_body_def batchable_def)

lemma map_of_rev_distinct: "distinct (map fst kvs) \<Longrightarrow> map_of (rev kvs) = map_of kvs"
  by (subst map_of_inject_set) (simp_all add: rev_map [symmetric])

lemma document_questions:
  fixes requests :: "judgment_request list" and f :: "nat \<Rightarrow> json"
  assumes "distinct (map rq_request_key requests)"
  defines "kvs \<equiv> map (\<lambda>j. (rq_request_key (requests ! j), f j)) [0..<length requests]"
  shows "i < length requests \<Longrightarrow> map_of (omap_of_list kvs) (rq_request_key (requests ! i)) = Some (f i)"
    and "fst ` set (omap_of_list kvs) = rq_request_key ` set requests"
proof -
  have keys: "map fst kvs = map rq_request_key requests"
    unfolding kvs_def by (rule nth_equalityI) simp_all
  then have m: "map_of (omap_of_list kvs) = map_of kvs"
    using assms(1) by (simp add: map_of_rev_distinct)
  show "map_of (omap_of_list kvs) (rq_request_key (requests ! i)) = Some (f i)" if "i < length requests"
    unfolding m using that keys assms(1) by (intro map_of_is_SomeI) (auto simp: kvs_def)
  have "fst ` set (omap_of_list kvs) = dom (map_of kvs)" by (metis dom_map_of_conv_image_fst m)
  also have "\<dots> = rq_request_key ` set requests"
    by (metis dom_map_of_conv_image_fst keys list.set_map)
  finally show "fst ` set (omap_of_list kvs) = rq_request_key ` set requests" .
qed

lemma batch_document_asks:
  assumes "\<forall>rq \<in> set requests. well_formed_request rq" and b: "batchable p requests"
  shows "body_asks p requests (batch_document p requests)"
proof -
  have d: "distinct (map rq_request_key requests)" and ne: "requests \<noteq> []"
    using b by (auto simp: batchable_def length_Suc_conv)
  have same: "rq_kind rq = rq_kind (hd requests) \<and> rq_criterion rq = rq_criterion (hd requests)"
    if "rq \<in> set requests" for rq
    using b that by (cases requests) (auto simp: batchable_def)
  have hd: "well_formed_request (hd requests)" using assms(1) ne by simp
  have c: "rq_kind (hd requests) = Kind_Noul \<Longrightarrow>
      JString (case rq_criterion (hd requests) of None \<Rightarrow> [] | Some c \<Rightarrow> c)
        = the (map_option JString (rq_criterion (hd requests))) \<and> rq_criterion (hd requests) \<noteq> None"
    using well_formed_parts(1) [OF hd] by auto
  show ?thesis
    unfolding body_asks_def batch_document_def request_body_def
    using document_questions [OF d, where f = "\<lambda>j. question_of j (requests ! j)"] same [OF nth_mem] c
    by (cases "rq_kind (hd requests)") (auto simp: nth_mem)
qed

text \<open>C27: Batch bodies are built exactly for compatible requests, and ask the right question about the
  right row. For well-formed requests the builder succeeds exactly when there is one, or when their
  keys are distinct, each is within the service's label limit and all ask the same question; and then
  the body holds every row's state in order and, under each request's key and no other, the question
  of its kind about that row, with the caller's criterion.\<close>

theorem batch_body_asks_each_row:
  assumes "\<forall>rq \<in> set requests. well_formed_request rq"
  shows "((\<exists>body. build_batch_body p requests = Inr body) \<longleftrightarrow> batchable p requests)
    \<and> (\<forall>body. build_batch_body p requests = Inr body \<longrightarrow> body_asks p requests body)"
  using build_batch_body_iff [OF assms] batch_document_asks [OF assms] by simp

section \<open>What an executor run sends\<close>

definition allowed_request :: "typesafe_provider \<Rightarrow> usize \<Rightarrow> http_request \<Rightarrow> bool" where
  "allowed_request p limit rq \<longleftrightarrow>
     length (hr_body rq) \<le> unat limit \<and> hr_url rq = tp_api_url p
     \<and> hr_authorization rq = map_option (\<lambda>credential. ''Bearer '' @ credential) (tp_credential p)"

text \<open>A condition on the outside world that the clock, reading a body and every allowed request keep.\<close>

definition world_kept :: "'w services \<Rightarrow> typesafe_provider \<Rightarrow> usize \<Rightarrow> ('w \<Rightarrow> bool) \<Rightarrow> bool" where
  "world_kept sv p limit J \<longleftrightarrow>
     (\<forall>w. J w \<longrightarrow> J (snd (sv_now sv w)))
     \<and> (\<forall>n w. J w \<longrightarrow> J (snd (sv_read_body sv n w)))
     \<and> (\<forall>t rq w. J w \<longrightarrow> allowed_request p limit rq \<longrightarrow> J (snd (sv_send sv t rq w)))"

lemma world_keptD:
  assumes "world_kept sv p limit J" "J w"
  shows "sv_now sv w = (t, w') \<Longrightarrow> J w'" "sv_read_body sv n w = (r, w') \<Longrightarrow> J w'"
    "allowed_request p limit rq \<Longrightarrow> sv_send sv d rq w = (out, w') \<Longrightarrow> J w'"
  using assms unfolding world_kept_def by (metis snd_conv)+

lemma receive_body_world:
  assumes "world_kept sv p limit J" "J w"
  shows "receive_body sv p requests head s t w = (r, w') \<Longrightarrow> J w'"
  using assms
  by (auto simp: receive_body_def Let_def split: if_splits sum.splits prod.splits dest: world_keptD)

definition body_fits :: "'w services \<Rightarrow> usize \<Rightarrow> json \<Rightarrow> bool" where
  "body_fits sv limit body \<longleftrightarrow> (\<forall>bytes. sv_to_vec sv body = Some bytes \<longrightarrow> length bytes \<le> unat limit)"

lemma post_body_world:
  assumes kept: "world_kept sv p limit J" and "J w" and fits: "body_fits sv limit body"
    and run: "post_body sv p requests body t0 w = (r, w')"
  shows "J w'"
proof (cases "sv_to_vec sv body")
  case (Some bytes)
  obtain t1 w1 where t1: "sv_now sv w = (t1, w1)" by fastforce
  obtain t2 w2 where t2: "sv_now sv w1 = (t2, w2)" by fastforce
  obtain out w3 where out: "sv_send sv (tp_timeout_ms p) (http_request_for p bytes) w2 = (out, w3)" by fastforce
  have "allowed_request p limit (http_request_for p bytes)"
    using fits Some by (simp add: allowed_request_def http_request_for_def body_fits_def)
  then have "J w3" using world_keptD [OF kept] assms(2) t1 t2 out by blast
  then show ?thesis
    using run receive_body_world [OF kept]
    by (auto simp: post_body_def Some t1 t2 out split: sum.splits)
qed (use assms in \<open>simp add: post_body_def\<close>)

text \<open>A printed body is a \<open>Vec\<close>, whose length is less than \<open>2 ^ 64\<close>.\<close>

definition bounded_printer :: "'w services \<Rightarrow> bool" where
  "bounded_printer sv \<longleftrightarrow> (\<forall>v. case sv_to_vec sv v of None \<Rightarrow> True | Some bytes \<Rightarrow> length bytes < 2 ^ 64)"

lemma estimate_fits:
  assumes "bounded_printer sv" "build_batch_body p requests = Inr body"
    "estimate_request_bytes sv p requests \<le> limit"
  shows "body_fits sv limit body"
  unfolding body_fits_def
proof (intro allI impI)
  fix bytes assume "sv_to_vec sv body = Some bytes"
  moreover from this have "length bytes < 2 ^ 64"
    using assms(1) unfolding bounded_printer_def by (metis option.simps(5))
  ultimately show "length bytes \<le> unat limit"
    using assms(2,3) by (simp add: estimate_request_bytes_def word_le_nat_alt unat_usize_of)
qed

lemma post_single_world:
  assumes "world_kept sv p limit J" "bounded_printer sv" "J w"
    "estimate_request_bytes sv p [request] \<le> limit"
  shows "J (snd (post_single sv p request w))"
proof -
  have fits: "body_fits sv limit (build_body p request)"
    using assms(2,4) by (intro estimate_fits) (simp_all add: build_batch_body_def)
  obtain t w1 where t: "sv_now sv w = (t, w1)" by fastforce
  obtain r w2 where p: "post_body sv p [request] (build_body p request) t w1 = (r, w2)" by fastforce
  have "J w2" using post_body_world [OF assms(1) world_keptD(1) [OF assms(1,3) t] fits p] .
  then show ?thesis using assms(3) t p by (auto simp: post_single_def split: sum.splits)
qed

lemma judge_many_world:
  assumes "world_kept sv p limit J" "bounded_printer sv" "J w"
    "estimate_request_bytes sv p requests \<le> limit"
  shows "J (snd (typesafe_judge_many sv p requests w))"
proof (cases "length requests = 1")
  case True
  then obtain rq where "requests = [rq]" by (auto simp: length_Suc_conv)
  then show ?thesis using post_single_world [OF assms(1-3)] assms(4) by (simp add: typesafe_judge_many_def)
next
  case False
  obtain t w1 where t: "sv_now sv w = (t, w1)" by fastforce
  have J1: "J w1" using world_keptD(1) [OF assms(1,3) t] .
  have "J (snd (post_body sv p requests body t w1))" if "build_batch_body p requests = Inr body" for body
    using post_body_world [OF assms(1) J1 estimate_fits [OF assms(2) that assms(4)]]
    by (metis prod.collapse)
  then show ?thesis using False assms(3) J1
    by (auto simp: typesafe_judge_many_def t split: capability_status.splits sum.splits)
qed

text \<open>C8: Requests leave the process only within the configured size, to the configured address and
  with the configured credential. Whatever holds of the outside world and is kept by the clock, by
  reading a response and by sending a request whose body is within \<open>max_request_bytes\<close>, to the
  adapter's URL, with exactly its credential, still holds after the executor has run groups over the
  HTTP adapter, one by one or batched: the adapter's estimate is the size of the body it sends.\<close>

theorem sent_requests_are_within_limits:
  assumes run: "execute_groups groups (sv_now sv) (typesafe_as_provider sv p) rt limits policy (s, w) = Some (r, s', w')
      \<or> execute_batch_groups groups (sv_now sv) (typesafe_as_provider sv p) rt mx limits policy (s, w) = Some (r, s', w')"
    and kept: "world_kept sv p (el_max_request_bytes limits) J"
    and "bounded_printer sv" and "J w"
  shows "J w'"
proof -
  have clock: "stable_clock (sv_now sv) J" using kept by (simp add: stable_clock_def world_kept_def)
  have single: "J (snd (p_judge_with_metadata (typesafe_as_provider sv p) rq w))"
    if "J w" "p_estimate_request_bytes (typesafe_as_provider sv p) [rq] \<le> el_max_request_bytes limits" for rq w
    using post_single_world [OF kept assms(3) that(1)] that(2) by (simp add: typesafe_as_provider_def)
  have batch: "J (snd (p_judge_many (typesafe_as_provider sv p) rqs w))"
    if "J w" "p_estimate_request_bytes (typesafe_as_provider sv p) rqs \<le> el_max_request_bytes limits" for rqs w
    using judge_many_world [OF kept assms(3) that(1)] that(2) by (simp add: typesafe_as_provider_def)
  from run show ?thesis
  proof
    assume run: "execute_groups groups (sv_now sv) (typesafe_as_provider sv p) rt limits policy (s, w) = Some (r, s', w')"
    show ?thesis
    proof (cases "el_max_request_bytes limits = 0")
      case False
      then have each: "execute_each (sv_now sv) rt (typesafe_as_provider sv p) limits policy [] groups (s, w)
          = Some (r, s', w')" using run by (simp add: execute_groups_def)
      show ?thesis
        by (rule execute_each_world [OF each clock assms(4)]) (auto simp: admissible_single_def intro: single)
    qed (use run assms(4) in \<open>simp add: execute_groups_def\<close>)
  next
    assume run: "execute_batch_groups groups (sv_now sv) (typesafe_as_provider sv p) rt mx limits policy (s, w) = Some (r, s', w')"
    show ?thesis
      by (rule execute_batch_groups_world [OF run clock assms(4)]) (auto simp: admissible_batch_def intro: batch)
  qed
qed

section \<open>Concrete inputs\<close>

definition sample_document :: json where
  "sample_document = json_object
     [(''model'', JString ''jev-1.13.0''),
      (''answers'', json_object
        [(''r0'', json_object [(''type'', JString ''choice''), (''choice'', JString ''yes'')])])]"

text \<open>A service that logs every request and always answers with the same document.\<close>

definition sample_services :: "(nat \<times> http_request list) services" where
  "sample_services =
     \<lparr>sv_now = (\<lambda>(t, log). (t, (Suc t, log))),
      sv_from_str = (\<lambda>_. Some sample_document),
      sv_to_vec = (\<lambda>_. Some ''{}''),
      sv_send = (\<lambda>_ rq (t, log). (Inr \<lparr>hs_status = 200, hs_header = (\<lambda>_. None)\<rparr>, (t, log @ [rq]))),
      sv_read_body = (\<lambda>_ w. (Inr '''', w))\<rparr>"

definition sample_adapter :: typesafe_provider where
  "sample_adapter = new_typesafe ''https://a'' ''jev-latest'' 1000 1000 ''key''"

definition sample_local :: typesafe_provider where
  "sample_local = new_localjev ''http://l'' ''nli'' 1000 1000 None"

theorem adapter_results_witness:
  "\<exists>response w'. typesafe_judge_many sample_services sample_adapter [sample_request] (0, []) = (Inr response, w')
     \<and> covers_batch [sample_request] response"
proof -
  have "case typesafe_judge_many sample_services sample_adapter [sample_request] (0, []) of
      (Inr _, _) \<Rightarrow> True | _ \<Rightarrow> False" by code_simp
  then obtain response w' where run:
    "typesafe_judge_many sample_services sample_adapter [sample_request] (0, []) = (Inr response, w')"
    by (auto split: prod.splits sum.splits)
  then show ?thesis using adapter_results_are_checked [OF run] by blast
qed

text \<open>A service that refuses every credential with status 401.\<close>

definition refusing_services :: "(nat \<times> http_request list) services" where
  "refusing_services = sample_services
     \<lparr>sv_send := (\<lambda>_ rq (t, log). (Inr \<lparr>hs_status = 401, hs_header = (\<lambda>_. None)\<rparr>, (t, log)))\<rparr>"

theorem adapter_errors_witness:
  "\<exists>e w'. typesafe_judge_many refusing_services sample_local [sample_request] (0, []) = (Inl e, w')
     \<and> redacted (tp_auth_hint sample_local) (transport_texts refusing_services) e
     \<and> typesafe_judge_many refusing_services (sample_local\<lparr>tp_credential := Some ''secret''\<rparr>) [sample_request] (0, []) = (Inl e, w')"
proof -
  have "case typesafe_judge_many refusing_services sample_local [sample_request] (0, []) of
      (Inl _, _) \<Rightarrow> True | _ \<Rightarrow> False" by code_simp
  then obtain e w' where run: "typesafe_judge_many refusing_services sample_local [sample_request] (0, []) = (Inl e, w')"
    by (auto split: prod.splits sum.splits)
  have "credential_blind refusing_services"
    by (simp add: credential_blind_def refusing_services_def)
  then show ?thesis using run adapter_errors_are_redacted [OF run] by blast
qed

definition sample_pair :: "judgment_request list" where
  "sample_pair = [sample_request, sample_request\<lparr>rq_request_key := ''r1''\<rparr>]"

theorem unverified_calls_witness:
  "\<exists>m. typesafe_judge_many sample_services sample_local sample_pair (0, []) = (Inl (configuration m), (0, []))"
  by (rule unverified_calls_are_not_made) (simp add: sample_local_def new_localjev_def sample_pair_def)

theorem batch_body_witness: "\<exists>body. build_batch_body sample_adapter sample_pair = Inr body
    \<and> body_asks sample_adapter sample_pair body"
proof -
  have w: "\<forall>rq \<in> set sample_pair. well_formed_request rq" and b: "batchable sample_adapter sample_pair"
    by code_simp+
  then show ?thesis using batch_body_asks_each_row [OF w] by blast
qed

theorem sent_requests_witness:
  "\<exists>r s' w'. execute_groups sample_groups (sv_now sample_services) (typesafe_as_provider sample_services sample_adapter)
       host_ops sample_limits None (sample_runtime, (0, [])) = Some (r, s', w')
     \<and> length (snd w') = 1 \<and> (\<forall>rq \<in> set (snd w'). length (hr_body rq) \<le> 100000 \<and> hr_url rq = ''https://a'')"
proof -
  have "case execute_groups sample_groups (sv_now sample_services) (typesafe_as_provider sample_services sample_adapter)
      host_ops sample_limits None (sample_runtime, (0, [])) of
      Some (Inr _, _, w) \<Rightarrow> length (snd w) = 1 | _ \<Rightarrow> False" by code_simp
  from run_ok [OF this] obtain out s' w' where run: "execute_groups sample_groups (sv_now sample_services)
      (typesafe_as_provider sample_services sample_adapter)
      host_ops sample_limits None (sample_runtime, (0, [])) = Some (Inr out, s', w')" and l: "length (snd w') = 1"
    by blast
  let ?J = "\<lambda>w. \<forall>rq \<in> set (snd w). length (hr_body rq) \<le> 100000 \<and> hr_url rq = ''https://a''"
  have kept: "world_kept sample_services sample_adapter (el_max_request_bytes sample_limits) ?J"
    by (auto simp: world_kept_def allowed_request_def sample_services_def sample_adapter_def
        new_typesafe_def sample_limits_def)
  have "?J w'"
    by (rule sent_requests_are_within_limits [OF disjI1 [OF run] kept])
      (auto simp: bounded_printer_def sample_services_def)
  then show ?thesis using run l by blast
qed

end
