(* ===== verification/Config_Properties.thy ===== *)
theory Config_Properties
  imports Config Typesafe_Properties
begin

text \<open>
  What reading the settings guarantees: which settings are accepted, and which credential a provider
  can carry.
\<close>

text \<open>C35: Settings are accepted exactly when they make sense, and are then the configured ones. Reading
  the settings of an execution succeeds with \<open>c\<close> exactly when every limit is a positive integer, the
  mode is \<open>row\<close> or \<open>optimized\<close>, batching and caching are off in row mode, and each setting is the
  session's option, or its documented default when the option is unset.\<close>

theorem settings_read_exactly:
  "read_runtime_config (Some cx) = Inr c \<longleftrightarrow>
     settings_ok c
     \<and> unwrap_or (read_option_string cx OPTION_EXECUTION_MODE) ''row''
         = (case rc_mode c of Row \<Rightarrow> ''row'' | Optimized \<Rightarrow> ''optimized'')
     \<and> rc_batch_enabled c = unwrap_or (read_option_bool cx OPTION_BATCH_ENABLED) False
     \<and> rc_batch_max_judgments c = unwrap_or (read_option_int64 cx OPTION_BATCH_MAX_JUDGMENTS) 16
     \<and> rc_max_request_bytes c = unwrap_or (read_option_int64 cx OPTION_MAX_REQUEST_BYTES) 262144
     \<and> rc_max_inflight c = unwrap_or (read_option_int64 cx OPTION_MAX_INFLIGHT) 4
     \<and> rc_cache_enabled c = unwrap_or (read_option_bool cx OPTION_CACHE_ENABLED) False
     \<and> rc_cache_max_entries c = unwrap_or (read_option_int64 cx OPTION_CACHE_MAX_ENTRIES) 10000
     \<and> rc_cache_max_bytes c = unwrap_or (read_option_int64 cx OPTION_CACHE_MAX_BYTES) 67108864
     \<and> rc_cache_ttl_ms c = unwrap_or (read_option_int64 cx OPTION_CACHE_TTL_MS) 60000
     \<and> rc_profile_enabled c = unwrap_or (read_option_bool cx OPTION_PROFILE_ENABLED) False"
  (is "_ \<longleftrightarrow> ?R c")
proof
  assume "read_runtime_config (Some cx) = Inr c"
  then show "?R c"
    by (auto simp: read_runtime_config_def result_bind_Inr from_values_iff settings_ok_def)
      (metis runtime_config.select_convs)+
next
  assume R: "?R c"
  then show "read_runtime_config (Some cx) = Inr c"
    unfolding read_runtime_config_def option.case result_bind_Inr from_values_iff
    by (intro exI [of _ "c\<lparr>rc_profile_enabled := False\<rparr>"]) (auto simp: settings_ok_def)
qed

text \<open>C36: Credentials stay with their service. Whatever the environment and the session hold, the
  provider an execution gets is the offline one; or the cloud adapter for the session's address, whose
  credential is \<open>DUCKJEU_API_KEY\<close> or, when that is unset or blank, \<open>TYPESAFE_API_KEY\<close>; or the local
  adapter, which can only ever carry \<open>DUCKJEU_LOCAL_JEV_API_KEY\<close>. Blank values are never used and a
  cloud provider without a credential is refused.\<close>

theorem credentials_stay_with_their_service:
  assumes "read_provider_context env context = Inr ctx" and "provider_for sv ctx = Inr provider"
  shows "px_provider ctx = Provider_Mock \<and> provider = mock_provider
    \<or> px_provider ctx = Provider_Typesafe
        \<and> (\<exists>p v. provider = typesafe_as_provider sv p \<and> tp_api_url p = px_api_url ctx \<and> tp_credential p = Some v
             \<and> (present env CREDENTIAL_ENV_OVERRIDE v
                \<or> absent env CREDENTIAL_ENV_OVERRIDE \<and> present env CREDENTIAL_ENV v))
    \<or> px_provider ctx = Provider_SelfHosted
        \<and> (\<exists>p. provider = local_jev_provider sv p \<and> tp_api_url p = px_api_url ctx
             \<and> (case tp_credential p of
                  None \<Rightarrow> absent env ''DUCKJEU_LOCAL_JEV_API_KEY''
                | Some v \<Rightarrow> present env ''DUCKJEU_LOCAL_JEV_API_KEY'' v))"
proof (cases "px_provider ctx")
  case Provider_Mock
  then show ?thesis using assms(2) by (simp add: provider_for_def)
next
  case Provider_Typesafe
  have "px_credential ctx = credential_from_env env"
    using assms(1) Provider_Typesafe
    by (auto simp: read_provider_context_def Let_def result_bind_Inr split: option.splits sum.splits)
  then show ?thesis using assms(2) Provider_Typesafe credential_from_env_iff [of env]
    by (auto simp: provider_for_def new_typesafe_def split: option.splits if_splits)
next
  case Provider_SelfHosted
  have "px_credential ctx = local_jev_credential_from_env env"
    using assms(1) Provider_SelfHosted
    by (auto simp: read_provider_context_def Let_def result_bind_Inr split: option.splits sum.splits)
  then show ?thesis using assms(2) Provider_SelfHosted
    by (auto simp: provider_for_def new_localjev_def local_jev_credential_from_env_def present_def absent_def
        split: option.splits if_splits intro!: exI [of _ "new_localjev _ _ _ _ _"])
qed

definition sample_options :: "(string \<times> string) list \<Rightarrow> client_context" where
  "sample_options os = (\<lambda>name. case map_of os name of None \<Rightarrow> None
     | Some v \<Rightarrow> Some \<lparr>cv_varchar = Some v, cv_int64 = 0, cv_bool = False\<rparr>)"

definition sample_environment :: environment where
  "sample_environment = (\<lambda>key. if key = ''TYPESAFE_API_KEY'' then Some ''cloud-key'' else None)"


theorem credentials_witness:
  "\<exists>ctx provider p. read_provider_context sample_environment (Some (sample_options [(''duckjeu_provider'', ''SelfHosted'')])) = Inr ctx
     \<and> provider_for sample_services ctx = Inr provider
     \<and> provider = local_jev_provider sample_services p \<and> tp_credential p = None"
proof -
  let ?read = "read_provider_context sample_environment (Some (sample_options [(''duckjeu_provider'', ''SelfHosted'')]))"
  have "case ?read of Inr ctx \<Rightarrow> px_provider ctx = Provider_SelfHosted | Inl _ \<Rightarrow> False" by code_simp
  then obtain ctx where ctx: "?read = Inr ctx" "px_provider ctx = Provider_SelfHosted" by (auto split: sum.splits)
  then obtain provider where "provider_for sample_services ctx = Inr provider" by (simp add: provider_for_def)
  with credentials_stay_with_their_service [OF ctx(1) this] ctx show ?thesis
    by (force simp: present_def sample_environment_def split: option.splits)
qed

text \<open>A session in which DuckDB answers with the registered default wherever no value is set.\<close>

definition with_defaults :: "client_context \<Rightarrow> client_context" where
  "with_defaults cx = (\<lambda>name. case cx name of None \<Rightarrow> map_of registered_options name | Some v \<Rightarrow> Some v)"

lemma read_with_defaults:
  "read_option_int64 (with_defaults cx) name = (case map_of registered_options name of
     None \<Rightarrow> read_option_int64 cx name | Some d \<Rightarrow> Some (unwrap_or (read_option_int64 cx name) (cv_int64 d)))"
  "read_option_bool (with_defaults cx) name = (case map_of registered_options name of
     None \<Rightarrow> read_option_bool cx name | Some d \<Rightarrow> Some (unwrap_or (read_option_bool cx name) (cv_bool d)))"
  "read_option_string (with_defaults cx) name = (case map_of registered_options name of
     None \<Rightarrow> read_option_string cx name
   | Some d \<Rightarrow> if cx name = None then map_option utf8_lossy (cv_varchar d) else read_option_string cx name)"
  by (auto simp: read_option_int64_def read_option_bool_def read_option_string_def with_defaults_def unwrap_or_def
      split: option.split)

lemma unwrap_or_Some [simp]: "unwrap_or (Some x) d = x"
  by (simp add: unwrap_or_def)

lemma positive_or_default: "0 < sint d \<Longrightarrow> positive_or m d (Some (unwrap_or x d)) = positive_or m d x"
  by (simp add: positive_or_def unwrap_or_def split: option.split)

text \<open>C37: The registered defaults and the fallbacks of the readers agree, option by option. In every
  session, whatever options it sets and whichever provider and mode they select, the execution settings
  and the provider context, credentials included, are the same whether DuckDB answers a lookup of an
  unset option with the registered default or with no value at all. Where nothing is set they select the
  offline provider in row mode.\<close>

theorem registered_defaults_agree:
  "read_runtime_config (Some (with_defaults cx)) = read_runtime_config (Some cx)
   \<and> read_provider_context env (Some (with_defaults cx)) = read_provider_context env (Some cx)
   \<and> (\<exists>c ctx. read_runtime_config (Some (with_defaults (\<lambda>_. None))) = Inr c \<and> rc_mode c = Row
        \<and> read_provider_context env (Some (with_defaults (\<lambda>_. None))) = Inr ctx
        \<and> px_provider ctx = Provider_Mock)"
proof -
  define m where "m = map_of registered_options"
  have "distinct (map fst registered_options)" by code_simp
  then have opts: "list_all (\<lambda>(k, v). m k = Some v) registered_options"
    by (auto simp: m_def list_all_iff)
  note look = opts [unfolded registered_options_def, simplified]
  have ascii: "utf8_lossy ''mock'' = ''mock''" "utf8_lossy ''row'' = ''row''" "utf8_lossy [] = []"
    "utf8_lossy DEFAULT_API_URL = DEFAULT_API_URL" "utf8_lossy DEFAULT_LOCAL_JEV_API_URL = DEFAULT_LOCAL_JEV_API_URL"
    by (rule utf8_lossy_ascii; simp add: byte_of_def DEFAULT_API_URL_def DEFAULT_LOCAL_JEV_API_URL_def)+
  note reads = read_with_defaults [folded m_def]
  have unset: "read_option_string cx name = None" "read_option_int64 cx name = None" "read_option_bool cx name = None"
    if "cx name = None" for cx name
    using that by (simp_all add: read_option_string_def read_option_int64_def read_option_bool_def)
  have config: "read_runtime_config (Some (with_defaults cx)) = read_runtime_config (Some cx)" for cx
    by (cases "cx OPTION_EXECUTION_MODE")
      (simp_all add: read_runtime_config_def reads look unset ascii varchar_option_def bigint_option_def boolean_option_def
        unwrap_or_def [of None])
  have provider: "unwrap_or (read_option_string (with_defaults cx) OPTION_PROVIDER) (kind_as_str Provider_Mock)
      = unwrap_or (read_option_string cx OPTION_PROVIDER) (kind_as_str Provider_Mock)"
    and url: "effective_api_url kind (read_option_string (with_defaults cx) OPTION_API_URL)
        (read_option_string (with_defaults cx) OPTION_LOCAL_JEV_API_URL)
      = effective_api_url kind (read_option_string cx OPTION_API_URL) (read_option_string cx OPTION_LOCAL_JEV_API_URL)"
    and model: "effective_model kind (read_option_string (with_defaults cx) OPTION_MODEL)
      = effective_model kind (read_option_string cx OPTION_MODEL)" for cx kind
    by (simp_all add: reads look unset ascii varchar_option_def kind_as_str_def unwrap_or_def [of None]
        effective_api_url_def effective_model_def split: provider_kind.split option.split)
  have limits: "positive_or m1 DEFAULT_TIMEOUT_MS (read_option_int64 (with_defaults cx) OPTION_TIMEOUT_MS)
      = positive_or m1 DEFAULT_TIMEOUT_MS (read_option_int64 cx OPTION_TIMEOUT_MS)"
    "positive_or m2 DEFAULT_MAX_RESPONSE_BYTES (read_option_int64 (with_defaults cx) OPTION_MAX_RESPONSE_BYTES)
      = positive_or m2 DEFAULT_MAX_RESPONSE_BYTES (read_option_int64 cx OPTION_MAX_RESPONSE_BYTES)" for cx m1 m2
    by (simp_all add: reads look bigint_option_def positive_or_default DEFAULT_TIMEOUT_MS_def DEFAULT_MAX_RESPONSE_BYTES_def)
  have same_context: "read_provider_context env (Some (with_defaults cx)) = read_provider_context env (Some cx)" for cx
    by (simp only: read_provider_context_def option.case provider url model limits)
  obtain c where c: "from_values ''row'' False 16 262144 4 False 10000 67108864 60000 = Inr c"
  proof (cases "from_values ''row'' False 16 262144 4 False 10000 67108864 60000")
    case (Inl e)
    moreover have "from_values ''row'' False 16 262144 4 False 10000 67108864 60000 \<noteq> Inl e" by code_simp
    ultimately show ?thesis by simp
  qed
  then have "rc_mode c = Row" by (auto simp: from_values_iff split: execution_mode.splits)
  moreover have "parse_kind ''mock'' = Inr Provider_Mock" by code_simp
  ultimately show ?thesis
    unfolding config same_context using c
    by (simp add: read_runtime_config_def read_provider_context_def unset unwrap_or_def positive_or_def
        kind_as_str_def Let_def)
qed

end
