(* ===== verification/Functions_Properties.thy ===== *)
theory Functions_Properties
  imports Functions_Progress Config_Properties
begin

text \<open>
  What a SQL function call guarantees: the rows it publishes, what a failed chunk publishes, that the
  two execution modes agree, and when the provider is not contacted at all.
\<close>

section \<open>Instances\<close>

interpretation checked: host_requests valid_for_identity valid_for_request
  by unfold_locales (simp_all add: valid_for_identity_def valid_for_request_def new_identity_def)

lemma mock_answer_valid: "mock_judge_result rq = Inr r \<Longrightarrow> valid_answer (rq_kind rq) (rq_choices rq) r"
  by (cases "rq_kind rq")
    (auto simp: mock_judge_result_def Let_def result_bind_Inr valid_answer_def)

interpretation mocked: host_requests mock_answers_identity mock_answers_request
  by (unfold_locales, simp)
    (simp_all add: mock_answers_identity_def mock_answers_request_def mock_judge_identity mock_answer_valid)

lemma mock_many_covers:
  assumes "distinct (map rq_request_key rqs)"
    and "\<And>rq. rq \<in> set rqs \<Longrightarrow> \<exists>r. mock_judge_result rq = Inr r \<and> valid_answer (rq_kind rq) (rq_choices rq) r"
  shows "\<exists>response. mock_judge_many rqs = Inr response \<and> covers_batch rqs response"
proof -
  have "\<exists>as. mock_answers rqs' = Inr as" if "set rqs' \<subseteq> set rqs" for rqs'
    using that
  proof (induction rqs')
    case (Cons rq rqs')
    then show ?case using assms(2) [of rq] by (auto simp: result_bind_Inr)
  qed simp
  then obtain as where as: "mock_answers rqs = Inr as" by blast
  note answers = mock_answers_Inr [OF as, THEN conjunct1] mock_answers_Inr [OF as, THEN conjunct2]
  have "answers_request rqs a" if a: "a \<in> set as" for a
  proof -
    obtain rq where rq: "rq \<in> set rqs" "rq_request_key rq = pa_request_key a" "mock_judge_result rq = Inr (pa_result a)"
      using answers(2) a by blast
    have "find (\<lambda>rq. rq_request_key rq = pa_request_key a) rqs = Some rq"
      using find_distinct_key [OF assms(1) rq(1)] rq(2) by simp
    then show ?thesis using rq(1,3) assms(2) [OF rq(1)] by (auto simp: answers_request_def)
  qed
  then have "covers_batch rqs \<lparr>br_answers = as, br_metadata = mock_metadata\<rparr>"
    using answers(1) assms(1) by (simp add: covers_batch_def flip: set_map)
  then show ?thesis using as by (simp add: mock_judge_many_def result_bind_Inr Let_def)
qed

section \<open>Properties\<close>

definition optimized_state :: "'w execution_state \<Rightarrow> bool" where
  "optimized_state state \<longleftrightarrow>
     (case es_runtime_config state of Inl _ \<Rightarrow> False | Inr config \<Rightarrow> rc_mode config = Optimized)"

lemma run_cases:
  assumes "run clock codec kind (Some state) input counters out (s, w) = Some (err, out', counters', s', w')"
  obtains (rows) r where "\<not> optimized_state state"
      "run_rows clock codec kind state (snd (identity_scopes s)) input [0..<unat (dc_size input)] out (s, w)
         = Some (r, out', s', w')" "err = (case r of Inl e \<Rightarrow> Some (set_error (je_message e)) | Inr _ \<Rightarrow> None)"
  | (chunk) r where "optimized_state state"
      "run_optimized clock codec kind input state (unat (dc_size input)) counters out (s, w)
         = Some (r, out', counters', s', w')" "err = (case r of Inl e \<Rightarrow> Some (set_error (je_message e)) | Inr _ \<Rightarrow> None)"
  using assms by (auto simp: run_def optimized_state_def Let_def split: option.splits if_splits)

lemma no_error: "None = (case r of Inl e \<Rightarrow> Some (f e) | Inr _ \<Rightarrow> None) \<Longrightarrow> r = Inr ()"
  by (cases r) auto

text \<open>C3: A SQL call publishes only valid results, each at its own row. When a call in either mode
  returns without an error, whatever the provider answered and whatever other threads did meanwhile,
  every row of the chunk holds NULL if one of its arguments is NULL and otherwise the value of a result
  that is valid for the request read from that very row; no other row is touched.\<close>

theorem published_rows_are_valid:
  assumes run: "run clock codec kind (Some state) input counters out (s, w) = Some (None, out', counters', s', w')"
    and s: "host_inv valid_for_identity s"
  shows "rows_hold valid_for_request codec kind input [0..<unat (dc_size input)] out out'"
  using run
proof (cases rule: run_cases)
  case (rows r)
  then show ?thesis
    using checked.run_rows_sound [OF rows(2) s every_provider_sound] no_error [OF rows(3)] by simp
next
  case (chunk r)
  then show ?thesis
    using checked.run_optimized_sound [OF chunk(2) s every_provider_sound unat_less_64] no_error [OF chunk(3)] by simp
qed

text \<open>C10: A failed chunk publishes nothing in optimized mode: when the call reports an error, because an
  argument is invalid, the provider failed or one of its answers was refused, the output vector is as it
  was before the call.\<close>

theorem failed_chunk_publishes_nothing:
  assumes run: "run clock codec kind (Some state) input counters out (s, w) = Some (Some e, out', counters', s', w')"
    and s: "host_inv valid_for_identity s" and "optimized_state state"
  shows "out' = out"
  using run
proof (cases rule: run_cases)
  case (chunk r)
  then show ?thesis
    using checked.run_optimized_sound [OF chunk(2) s every_provider_sound unat_less_64]
    by (cases r) auto
qed (use assms(3) in simp)

lemma rows_hold_unique:
  assumes "rows_hold Q codec kind input rows out out1" "rows_hold Q codec kind input rows out out2"
    and "\<And>rq r r'. Q rq r \<Longrightarrow> Q rq r' \<Longrightarrow> r = r'"
  shows "out1 = out2"
proof
  fix row
  show "out1 row = out2 row"
    using assms(1,2) [unfolded rows_hold_def, THEN spec, of row] assms(3)
    by (auto simp: row_holds_def split: if_splits) (metis assms(3))
qed

text \<open>C4: The two modes agree. With the offline provider, a call in row mode and a call in optimized
  mode, with or without batching and caching, over runtimes in any state that other threads may share,
  publish the same value at every row when both return without an error.\<close>

theorem modes_agree:
  assumes "run clock codec kind (Some by_row) input counters out (s, w) = Some (None, out1, counters1, s1, w1)"
    and "run clock' codec kind (Some by_chunk) input counters' out (t, v) = Some (None, out2, counters2, t1, v1)"
    and "es_provider by_row = Inr mock_provider" "es_provider by_chunk = Inr mock_provider"
    and "host_inv mock_answers_identity s" "host_inv mock_answers_identity t"
  shows "out1 = out2"
proof -
  have held: "rows_hold mock_answers_request codec kind input [0..<unat (dc_size input)] out out'"
    if run: "run clock codec kind (Some state) input counters out (s, w) = Some (None, out', counters', s', w')"
      and p: "es_provider state = Inr mock_provider" and s: "host_inv mock_answers_identity s"
    for clock :: "'x \<Rightarrow> nat \<times> 'x" and state counters s w out' counters' s' w'
  proof -
    have sound: "\<And>p. es_provider state = Inr p \<Longrightarrow> sound_provider mock_answers_request p"
      using p mock_sound by simp
    from run show ?thesis
    proof (cases rule: run_cases)
      case (rows r)
      then show ?thesis using mocked.run_rows_sound [OF rows(2) s sound] no_error [OF rows(3)] by simp
    next
      case (chunk r)
      then show ?thesis
        using mocked.run_optimized_sound [OF chunk(2) s sound unat_less_64] no_error [OF chunk(3)] by simp
    qed
  qed
  show ?thesis
    using held [OF assms(1,3,5)] held [OF assms(2,4,6)] by (rule rows_hold_unique) (simp add: mock_answers_request_def)
qed

section \<open>When the provider is not contacted\<close>

lemma collect_work_invalid:
  assumes "row \<in> set rows" "read_request codec kind input row = Inl e"
  shows "\<exists>e. collect_work codec kind input context invocation chunk rows (work, n) = Inl e"
proof (rule ccontr)
  assume "\<not> ?thesis"
  then obtain work' n' where "collect_work codec kind input context invocation chunk rows (work, n) = Inr (work', n')"
    by (metis old.sum.exhaust surj_pair)
  from collect_work_Inr [OF this] show False using assms by fastforce
qed

lemma collect_work_nulls:
  "\<forall>row \<in> set rows. read_request codec kind input row = Inr None \<Longrightarrow>
   collect_work codec kind input context invocation chunk rows (work, n) = Inr (work, n + length rows)"
  by (induction rows arbitrary: n) auto

lemma run_rows_nulls:
  "\<forall>row \<in> set rows. read_request codec kind input row = Inr None \<Longrightarrow>
   \<exists>out' s'. run_rows clock codec kind state scope input rows out (s, w) = Some (Inr (), out', s', w)"
  by (induction rows arbitrary: out s) (auto simp: evaluate_row_def Let_def)

lemma run_groups_none: "run_groups clock config state scope (group_by_identity []) (s, w) = Some (Inr [], s, w)"
  by (simp add: run_groups_def group_by_identity_def)

definition all_null :: "text_codec \<Rightarrow> function_kind \<Rightarrow> data_chunk \<Rightarrow> bool" where
  "all_null codec kind input \<longleftrightarrow> (\<forall>row < unat (dc_size input). read_request codec kind input row = Inr None)"

definition some_invalid :: "text_codec \<Rightarrow> function_kind \<Rightarrow> data_chunk \<Rightarrow> bool" where
  "some_invalid codec kind input \<longleftrightarrow> (\<exists>row < unat (dc_size input). \<exists>e. read_request codec kind input row = Inl e)"

lemma run_optimized_quiet:
  assumes "optimized_state state" "all_null codec kind input \<or> some_invalid codec kind input"
  shows "\<exists>r out' counters' s'. run_optimized clock codec kind input state (unat (dc_size input)) counters out (s, w)
        = Some (r, out', counters', s', w) \<and> (r = Inr () \<longrightarrow> all_null codec kind input)"
proof -
  let ?n = "unat (dc_size input)"
  obtain config where config: "es_runtime_config state = Inr config" "rc_mode config = Optimized"
    using assms(1) by (auto simp: optimized_state_def split: sum.splits)
  show ?thesis
  proof (cases "some_invalid codec kind input")
    case True
    then have "\<exists>e. collect_work codec kind input c i k [0..<?n] ([], 0) = Inl e" for c i k
      using collect_work_invalid [of _ "[0..<?n]"] by (auto simp: some_invalid_def)
    then show ?thesis
      by (auto simp: run_optimized_def config Let_def split: sum.split prod.split) (metis sum.simps(4))+
  next
    case False
    then have null: "all_null codec kind input" using assms(2) by blast
    then have "collect_work codec kind input c i k [0..<?n] ([], 0) = Inr ([], ?n)" for c i k
      by (subst collect_work_nulls) (simp_all add: all_null_def)
    then show ?thesis using null
      by (simp add: run_optimized_def config Let_def run_groups_none split: sum.split prod.split)
  qed
qed

text \<open>C11: The provider is contacted only for rows that need it and only once all input is known to be
  good. A call on a chunk in which every row has a NULL argument, in either mode, and a call in
  optimized mode on a chunk in which any row is invalid, return without contacting the provider: the
  outside world is as it was before, and the invalid chunk is reported as an error.\<close>

theorem calls_only_when_needed:
  assumes "all_null codec kind input \<or> optimized_state state \<and> some_invalid codec kind input"
  shows "\<exists>err out' counters' s'.
      run clock codec kind (Some state) input counters out (s, w) = Some (err, out', counters', s', w)
      \<and> (err = None \<longrightarrow> all_null codec kind input)"
proof (cases "optimized_state state")
  case True
  then have "all_null codec kind input \<or> some_invalid codec kind input" using assms by blast
  from run_optimized_quiet [OF True this] obtain r out' counters' s' where
    "run_optimized clock codec kind input state (unat (dc_size input)) counters out (s, w) = Some (r, out', counters', s', w)"
    "r = Inr () \<longrightarrow> all_null codec kind input" by blast
  then show ?thesis using True by (cases r) (auto simp: run_def optimized_state_def)
next
  case False
  let ?n = "unat (dc_size input)"
  have null: "all_null codec kind input" using assms False by blast
  obtain out' s' where "run_rows clock codec kind state (snd (identity_scopes s)) input [0..<?n] out (s, w)
      = Some (Inr (), out', s', w)"
    using run_rows_nulls [of "[0..<?n]" codec kind input] null unfolding all_null_def
    by (metis atLeastLessThan_iff set_upt)
  then show ?thesis using False null by (simp add: run_def optimized_state_def Let_def)
qed

section \<open>Calls return, and succeed\<close>

text \<open>C12: SQL calls do not hang. On a connection whose query is running, with a free request slot and
  no unfinished entry, a call in row mode or in optimized mode, with or without batching, returns,
  whatever the provider does and whatever the input is. It leaves the query running with its slot free on
  every path; without batching, and with batching when it reports no error, it also leaves no unfinished
  entry, so that the next call returns too.\<close>

theorem calls_return:
  assumes "es_connected state" "es_runtime_config state = Inr config"
    and "ready (rc_max_inflight config) (snd (identity_scopes s)) s" "host_inv valid_for_identity s"
  shows "\<exists>err out' counters' s' w'.
      run clock codec kind (Some state) input counters out (s, w) = Some (err, out', counters', s', w')
      \<and> idle (rc_max_inflight config) (snd (identity_scopes s)) s'
      \<and> (err = None \<or> \<not> rc_batch_enabled config \<longrightarrow> ready (rc_max_inflight config) (snd (identity_scopes s)) s')"
proof (cases "rc_mode config = Optimized")
  case True
  obtain r out' counters' s' w' where "run_optimized clock codec kind input state (unat (dc_size input)) counters out (s, w)
      = Some (r, out', counters', s', w')" "idle (rc_max_inflight config) (snd (identity_scopes s)) s'"
    "rc_batch_enabled config \<and> is_err r \<or> ready (rc_max_inflight config) (snd (identity_scopes s)) s'"
    using run_optimized_returns [of state config False s, unfolded expected_simps] assms(2,3)
      host_inv_anything [OF assms(4)] by blast
  then show ?thesis using True assms(2) by (cases r) (auto simp: run_def is_err_def)
next
  case False
  obtain r out' s' w' where "run_rows clock codec kind state (snd (identity_scopes s)) input
      [0..<unat (dc_size input)] out (s, w) = Some (r, out', s', w')"
    "ready (rc_max_inflight config) (snd (identity_scopes s)) s'"
    using run_rows_returns [OF assms(1-3)] by blast
  then show ?thesis using False assms(2) ready_idle by (simp add: run_def Let_def)
qed

lemma run_succeeds:
  assumes "es_connected state" "es_runtime_config state = Inr config" "settings_ok config"
    and ready: "ready_for succeeded (rc_max_inflight config) (snd (identity_scopes s)) s" and s: "host_inv valid_for_identity s"
    and rows: "\<forall>row < unat (dc_size input). row_judgeable codec kind input state config row"
    and batch: "\<forall>provider. rc_batch_enabled config \<and> es_provider state = Inr provider \<longrightarrow>
      serves_chunk codec kind input (unat (dc_size input)) provider config"
  shows "\<exists>out' counters' s' w'.
      run clock codec kind (Some state) input counters out (s, w) = Some (None, out', counters', s', w')
      \<and> ready_for succeeded (rc_max_inflight config) (snd (identity_scopes s)) s'"
proof (cases "rc_mode config = Optimized")
  case True
  obtain r out' counters' s' w' where "run_optimized clock codec kind input state (unat (dc_size input)) counters out (s, w)
      = Some (r, out', counters', s', w')" "r = Inr ()"
    "rc_batch_enabled config \<and> is_err r \<or> ready_for succeeded (rc_max_inflight config) (snd (identity_scopes s)) s'"
    using run_optimized_returns [of state config True s "unat (dc_size input)" codec kind input clock counters out w,
        unfolded expected_simps] host_inv_anything [OF s] assms True by blast
  then show ?thesis using True assms(2) by (simp add: run_def is_err_def)
next
  case False
  then have "rc_mode config = Row" by (cases "rc_mode config") simp_all
  then obtain out' s' w' where "run_rows clock codec kind state (snd (identity_scopes s)) input
      [0..<unat (dc_size input)] out (s, w) = Some (Inr (), out', s', w')"
    "ready_for succeeded (rc_max_inflight config) (snd (identity_scopes s)) s'"
    using run_rows_returns [OF assms(1,2) ready, of clock codec kind input "[0..<unat (dc_size input)]" out w] rows by auto
  then show ?thesis using False assms(2) by (simp add: run_def Let_def)
qed

text \<open>C9: Calls succeed whenever they can. On a connection whose query is running, with a free request
  slot and every entry of the query finished successfully, a call in row mode or in optimized mode
  returns without an error if every row either has a NULL argument or is a valid request that the
  provider is verified for, that fits the byte limit and that the provider answers with an acceptable
  response; and it leaves the connection so that the next call succeeds likewise. With batching the
  provider must in addition answer every batch of those rows that the limits allow.\<close>

theorem calls_succeed:
  assumes "es_connected state" "es_runtime_config state = Inr config" "settings_ok config"
    and "ready_for succeeded (rc_max_inflight config) (snd (identity_scopes s)) s" "host_inv valid_for_identity s"
    and "\<forall>row < unat (dc_size input). row_judgeable codec kind input state config row"
    and "\<forall>provider. rc_batch_enabled config \<and> es_provider state = Inr provider \<longrightarrow>
      serves_chunk codec kind input (unat (dc_size input)) provider config"
  shows "\<exists>out' counters' s' w'.
      run clock codec kind (Some state) input counters out (s, w) = Some (None, out', counters', s', w')
      \<and> ready_for succeeded (rc_max_inflight config) (snd (identity_scopes s)) s'"
  using assms by (rule run_succeeds)

section \<open>Concrete calls\<close>

text \<open>A chunk of two rows for \<open>jev_choice\<close>, the second with a NULL state; optimized mode has batching on.\<close>

definition text_type :: logical_type where
  "text_type = Logical_Type T_VARCHAR 0 0 T_VARCHAR []"

definition text_vector :: "(nat \<Rightarrow> bool) option \<Rightarrow> (nat \<Rightarrow> string) \<Rightarrow> vector" where
  "text_vector validity strings = Vector text_type validity (Some (\<lambda>_. 0)) (\<lambda>row. Some (strings row)) []"

definition labels_vector :: vector where
  "labels_vector = Vector (Logical_Type T_LIST 0 0 T_LIST []) None
     (Some (\<lambda>a. if a mod 16 = 8 then 2 else 0)) (\<lambda>_. None)
     [text_vector None (\<lambda>row. if row = 0 then ''yes'' else ''no'')]"

definition sample_chunk :: "string \<Rightarrow> data_chunk" where
  "sample_chunk question =
     \<lparr>dc_vectors = [text_vector (Some (\<lambda>row. row \<noteq> 1)) (\<lambda>_. ''late''),
                    text_vector None (\<lambda>_. question), labels_vector],
      dc_size = 2\<rparr>"

definition sample_config :: "execution_mode \<Rightarrow> runtime_config" where
  "sample_config mode =
     \<lparr>rc_mode = mode, rc_batch_enabled = (mode = Optimized), rc_batch_max_judgments = 16, rc_max_request_bytes = 262144,
      rc_max_inflight = 4, rc_cache_enabled = False, rc_cache_max_entries = 10000,
      rc_cache_max_bytes = 67108864, rc_cache_ttl_ms = 60000, rc_profile_enabled = False\<rparr>"

definition sample_state :: "execution_mode \<Rightarrow> nat execution_state" where
  "sample_state mode =
     \<lparr>es_context = default_context, es_provider = Inr mock_provider, es_connected = True,
      es_runtime_config = Inr (sample_config mode)\<rparr>"

definition sample_counters :: function_counters where
  "sample_counters = \<lparr>fc_invocation = 1, fc_chunk = 1\<rparr>"

lemma sample_row: "read_request reference_codec Fn_Choice (sample_chunk ''urgent?'') 0 = Inr (Some sample_request)"
  by code_simp

lemma sample_null_row: "read_request codec Fn_Choice (sample_chunk q) (Suc 0) = Inr None"
  by (simp add: read_request_def sample_chunk_def text_vector_def is_null_def)

lemma sample_blank_row: "\<exists>e. read_request reference_codec Fn_Choice (sample_chunk []) 0 = Inl e"
proof -
  have "case read_request reference_codec Fn_Choice (sample_chunk []) 0 of Inl _ \<Rightarrow> True | _ \<Rightarrow> False"
    by code_simp
  then show ?thesis by (simp split: sum.splits)
qed

lemma mock_answers_sample: "answers mock_provider sample_request"
proof -
  have "case mock_judge_with_metadata sample_request of
      Inr response \<Rightarrow> \<not> is_err (check_single_response sample_request response) | _ \<Rightarrow> False"
    by code_simp
  then show ?thesis
    by (auto simp: answers_def mock_provider_def is_err_def split: sum.splits)
qed

lemma sample_judgeable: "judgeable mock_provider (sample_config mode) sample_request"
proof -
  have "supports mock_capabilities (rq_kind sample_request) = Verified" "\<not> choices_exceed mock_capabilities sample_request"
    "default_estimate_request_bytes [sample_request] \<le> 262144"
    by code_simp+
  then show ?thesis
    using mock_answers_sample by (simp add: judgeable_def sample_config_def mock_provider_def)
qed

lemma sample_rows_judgeable:
  "\<forall>row < unat (dc_size (sample_chunk ''urgent?'')).
     row_judgeable reference_codec Fn_Choice (sample_chunk ''urgent?'') (sample_state mode) (sample_config mode) row"
proof (intro allI impI)
  fix row assume "row < unat (dc_size (sample_chunk ''urgent?''))"
  then have "row = 0 \<or> row = Suc 0" by (auto simp: sample_chunk_def)
  then show "row_judgeable reference_codec Fn_Choice (sample_chunk ''urgent?'') (sample_state mode) (sample_config mode) row"
    by (elim disjE) (simp_all add: row_judgeable_def sample_row sample_null_row sample_judgeable sample_state_def)
qed

lemma sample_serves:
  "serves_chunk reference_codec Fn_Choice (sample_chunk ''urgent?'') (unat (dc_size (sample_chunk ''urgent?'')))
     mock_provider (sample_config mode)"
proof -
  have asked: "\<exists>key. rq = sample_request\<lparr>rq_request_key := key\<rparr>"
    if asked: "row_request reference_codec Fn_Choice (sample_chunk ''urgent?'') (unat (dc_size (sample_chunk ''urgent?''))) rq"
    for rq
  proof -
    obtain row key rq0 where row: "row < unat (dc_size (sample_chunk ''urgent?''))"
      "read_request reference_codec Fn_Choice (sample_chunk ''urgent?'') row = Inr (Some rq0)"
      "rq = rq0\<lparr>rq_request_key := key\<rparr>" using asked unfolding row_request_def by blast
    moreover from row(1) have "row = 0 \<or> row = Suc 0" by (auto simp: sample_chunk_def)
    ultimately show ?thesis by (auto simp: sample_row sample_null_row)
  qed
  have "default_estimate_request_bytes [sample_request\<lparr>rq_request_key := ''r0''\<rparr>] \<le> 262144" by code_simp
  then have size: "default_estimate_request_bytes [rq] \<le> 262144"
    if "row_request reference_codec Fn_Choice (sample_chunk ''urgent?'') (unat (dc_size (sample_chunk ''urgent?''))) rq"
      "rq_request_key rq = ''r0''" for rq using asked [OF that(1)] that(2) by auto
  have "\<exists>r. mock_judge_result sample_request = Inr r \<and> valid_answer (rq_kind sample_request) (rq_choices sample_request) r"
  proof (rule mock_judge_valid)
    show "length (rq_choices sample_request) < 2 ^ 64" by code_simp
  qed (use read_request_kind [OF sample_row] in \<open>auto simp: well_formed_request_def\<close>)
  then have many: "\<exists>response. mock_judge_many rqs = Inr response \<and> covers_batch rqs response"
    if "\<And>rq. rq \<in> set rqs \<Longrightarrow> \<exists>key. rq = sample_request\<lparr>rq_request_key := key\<rparr>" "distinct (map rq_request_key rqs)" for rqs
    using that by (intro mock_many_covers) fastforce+
  show ?thesis
    using asked size many
    by (auto simp: serves_chunk_def mock_provider_def mock_capabilities_def batch_limit_def sample_config_def Let_def)
qed

lemma sample_ready_4: "ready_for A 4 (snd (identity_scopes sample_runtime)) sample_runtime"
  by (simp add: ready_for_def query_running_def active_scope_def entries_done_def sample_runtime_def
      begin_query_def default_runtime_def identity_scopes_def Let_def)

lemma sample_state_fields:
  "es_connected (sample_state mode)" "es_runtime_config (sample_state mode) = Inr (sample_config mode)"
  "settings_ok (sample_config mode)"
  "rc_max_inflight (sample_config mode) = 4" "es_provider (sample_state mode) = Inr mock_provider"
  "optimized_state (sample_state mode) \<longleftrightarrow> mode = Optimized"
  by (simp_all add: sample_state_def sample_config_def settings_ok_def optimized_state_def)

abbreviation sample_call :: "execution_mode \<Rightarrow> string \<Rightarrow> _" where
  "sample_call mode question \<equiv> run tick reference_codec Fn_Choice (Some (sample_state mode)) (sample_chunk question)
     sample_counters (\<lambda>_. None) (sample_runtime, 0)"

lemma sample_batches:
  "\<forall>provider. rc_batch_enabled (sample_config mode) \<and> es_provider (sample_state mode) = Inr provider \<longrightarrow>
     serves_chunk reference_codec Fn_Choice (sample_chunk ''urgent?'') (unat (dc_size (sample_chunk ''urgent?'')))
       provider (sample_config mode)"
  by (simp add: sample_state_fields sample_serves)

lemma sample_call_ok: "\<exists>out' counters' s' w'. sample_call mode ''urgent?'' = Some (None, out', counters', s', w')"
  using run_succeeds [OF sample_state_fields(1-3) _ sample_inv sample_rows_judgeable sample_batches]
    sample_ready_4 [of succeeded] unfolding sample_state_fields by blast

lemma sample_some_invalid: "some_invalid reference_codec Fn_Choice (sample_chunk [])"
  using sample_blank_row by (auto simp: some_invalid_def sample_chunk_def intro: exI [of _ 0])

lemma sample_call_fails:
  "\<exists>e out' counters' s'. sample_call Optimized [] = Some (Some e, out', counters', s', 0)"
proof -
  have "\<not> all_null reference_codec Fn_Choice (sample_chunk [])"
    using sample_some_invalid by (auto simp: some_invalid_def all_null_def)
  moreover obtain r out' counters' s' where run: "run_optimized tick reference_codec Fn_Choice (sample_chunk [])
      (sample_state Optimized) (unat (dc_size (sample_chunk []))) sample_counters (\<lambda>_. None) (sample_runtime, 0)
        = Some (r, out', counters', s', 0)" "r = Inr () \<longrightarrow> all_null reference_codec Fn_Choice (sample_chunk [])"
    using run_optimized_quiet [OF _ disjI2 [OF sample_some_invalid], of "sample_state Optimized" tick sample_counters
        "\<lambda>_. None" sample_runtime 0] sample_state_fields(6) by blast
  ultimately obtain e where "r = Inl e" by (cases r) auto
  then show ?thesis using run(1) by (simp add: run_def sample_state_fields sample_config_def)
qed

theorem published_rows_witness:
  "\<exists>out'. (\<exists>counters' s' w'. sample_call Row ''urgent?'' = Some (None, out', counters', s', w'))
     \<and> rows_hold valid_for_request reference_codec Fn_Choice (sample_chunk ''urgent?'') [0..<2] (\<lambda>_. None) out'"
proof -
  obtain out' counters' s' w' where run: "sample_call Row ''urgent?'' = Some (None, out', counters', s', w')"
    using sample_call_ok by blast
  from published_rows_are_valid [OF run sample_inv] run show ?thesis by (auto simp: sample_chunk_def)
qed

theorem failed_chunk_witness:
  "\<exists>e counters' s' w'. sample_call Optimized [] = Some (Some e, \<lambda>_. None, counters', s', w')"
proof -
  obtain e out' counters' s' w' where run: "sample_call Optimized [] = Some (Some e, out', counters', s', w')"
    using sample_call_fails by blast
  from failed_chunk_publishes_nothing [OF run sample_inv] run show ?thesis by (auto simp: sample_state_fields)
qed

theorem modes_agree_witness:
  "\<exists>out' c1 s1 w1 c2 s2 w2. sample_call Row ''urgent?'' = Some (None, out', c1, s1, w1)
     \<and> sample_call Optimized ''urgent?'' = Some (None, out', c2, s2, w2)"
proof -
  obtain out1 c1 s1 w1 where row: "sample_call Row ''urgent?'' = Some (None, out1, c1, s1, w1)"
    using sample_call_ok by blast
  obtain out2 c2 s2 w2 where chunk: "sample_call Optimized ''urgent?'' = Some (None, out2, c2, s2, w2)"
    using sample_call_ok by blast
  from modes_agree [OF row chunk sample_state_fields(5) sample_state_fields(5) sample_inv sample_inv]
  show ?thesis using row chunk by blast
qed

theorem calls_only_when_needed_witness:
  "\<exists>err out' counters' s'. sample_call Optimized [] = Some (err, out', counters', s', 0)"
  using calls_only_when_needed [OF disjI2 [OF conjI [OF _ sample_some_invalid]], of "sample_state Optimized" tick
      sample_counters "\<lambda>_. None" sample_runtime 0] sample_state_fields(6) by blast

theorem calls_return_witness:
  "\<exists>err out' counters' s' w'. sample_call Optimized [] = Some (err, out', counters', s', w')"
  using calls_return [OF sample_state_fields(1,2), where s = sample_runtime] sample_ready_4 [of "\<lambda>_. True"] sample_inv
  unfolding sample_state_fields by blast

theorem calls_succeed_witness:
  "\<exists>out' counters' s' w'. sample_call Optimized ''urgent?'' = Some (None, out', counters', s', w')"
  using calls_succeed [OF sample_state_fields(1-3) _ sample_inv sample_rows_judgeable sample_batches]
    sample_ready_4 [of succeeded] unfolding sample_state_fields by blast

section \<open>A difference between the modes in accounting\<close>

text \<open>
  A response that was received and then fails validation: the executor counts the request as failed, row
  mode does not. The HTTP adapter validates before it answers, so only another provider can show it.
\<close>

definition failed_requests :: "connection_runtime \<Rightarrow> (u64 \<times> u64) option" where
  "failed_requests s = map_option (\<lambda>q. (qc_external_requests (aq_counts q), qc_failed_requests (aq_counts q))) (cr_active_query s)"

definition empty_provider :: "'w provider" where
  "empty_provider = mock_provider\<lparr>p_makes_external_request := True,
     p_judge_with_metadata := (\<lambda>_ w. (Inr \<lparr>br_answers = [], br_metadata = default_metadata\<rparr>, w))\<rparr>"

lemma row_mode_does_not_count_invalid_responses:
  "(\<exists>e s1 w1. execute_groups [hd sample_groups] tick empty_provider host_ops sample_limits None (sample_runtime, 0)
       = Some (Inl e, s1, w1) \<and> failed_requests s1 = Some (1, 1))
   \<and> (\<exists>e s2 w2. judge_row tick True (el_query_scope sample_limits) empty_provider sample_request (sample_runtime, 0)
       = (Inl e, s2, w2) \<and> failed_requests s2 = Some (1, 0))"
proof
  have "case execute_groups [hd sample_groups] tick empty_provider host_ops sample_limits None (sample_runtime, 0) of
      Some (Inl e, s1, w1) \<Rightarrow> failed_requests s1 = Some (1, 1) | _ \<Rightarrow> False" by code_simp
  then show "\<exists>e s1 w1. execute_groups [hd sample_groups] tick empty_provider host_ops sample_limits None
      (sample_runtime, 0) = Some (Inl e, s1, w1) \<and> failed_requests s1 = Some (1, 1)"
    by (auto split: option.splits prod.splits sum.splits)
next
  have "case judge_row tick True (el_query_scope sample_limits) empty_provider sample_request (sample_runtime, 0) of
      (Inl e, s2, w2) \<Rightarrow> failed_requests s2 = Some (1, 0) | _ \<Rightarrow> False" by code_simp
  then show "\<exists>e s2 w2. judge_row tick True (el_query_scope sample_limits) empty_provider sample_request
      (sample_runtime, 0) = (Inl e, s2, w2) \<and> failed_requests s2 = Some (1, 0)"
    by (auto split: prod.splits sum.splits)
qed

end
