(* ===== verification/Host_Properties.thy ===== *)
theory Host_Properties
  imports Samples
begin

text \<open>
  What the connection runtime guarantees about credential scopes: a changed credential gets a scope of
  its own whatever other threads do meanwhile; and a run that strands a shared entry.
\<close>

section \<open>Credential scopes\<close>

text \<open>The fields credential scoping depends on, and what one step does to them.\<close>

definition scope_fields :: "connection_runtime \<Rightarrow> u64 \<times> u64 option \<times> u64 \<times> (string \<Rightarrow> u64)" where
  "scope_fields s = (cr_credential_scope s, cr_credential_fingerprint s, cr_next_scope s, cr_credential_hasher s)"

lemma scope_fields_update [simp]: "scope_fields (update_counts scope f s) = scope_fields s"
  by (simp add: scope_fields_def update_counts_def update_query_def split: option.splits)

lemma scope_fields_steps [simp]:
  "scope_fields (begin_query now s) = scope_fields s"
  "scope_fields (end_query i e now s) = scope_fields s"
  "scope_fields (snd (claim_query_entry scope k s)) = scope_fields s"
  "scope_fields (complete r entry s) = scope_fields s"
  "scope_fields (snd (adapter_cache_lookup ck now p s)) = scope_fields s"
  "scope_fields (adapter_cache_insert k v now p s) = scope_fields s"
  "scope_fields (drop_permit s) = scope_fields s"
  "scope_fields (s\<lparr>cr_inflight := ps\<rparr>) = scope_fields s"
  by (simp_all add: begin_query_def end_query_def store_flag_def claim_query_entry_def new_query_entry_def
      complete_def adapter_cache_lookup_def adapter_cache_insert_def drop_permit_def Let_def
      scope_fields_def update_counts_def update_query_def
      split: option.splits prod.splits bool.splits)

text \<open>\<open>c\<close> belongs to the fingerprint \<open>f\<close>: it is still current, with that fingerprint, or it has been replaced for good.\<close>

definition scope_owned :: "u64 \<Rightarrow> u64 option \<Rightarrow> (string \<Rightarrow> u64) \<Rightarrow> nat \<Rightarrow> connection_runtime \<Rightarrow> bool" where
  "scope_owned c f h n s \<longleftrightarrow>
     cr_credential_hasher s = h
     \<and> unat (cr_next_scope s) \<le> n \<and> c < cr_next_scope s \<and> cr_credential_scope s < cr_next_scope s
     \<and> (cr_credential_scope s = c \<and> cr_credential_fingerprint s = f \<or> c < cr_credential_scope s)"

lemma scope_owned_same: "scope_fields s' = scope_fields s \<Longrightarrow> scope_owned c f h n s' = scope_owned c f h n s"
  by (simp add: scope_fields_def scope_owned_def)

lemma scope_owned_mono: "scope_owned c f h n s \<Longrightarrow> n \<le> m \<Longrightarrow> scope_owned c f h m s"
  by (simp add: scope_owned_def)

lemma scope_owned_take:
  assumes "scope_owned c f h n s" "Suc n < 2 ^ 64"
  shows "scope_owned c f h (Suc n) (snd (take_scope s))"
  using assms unat_next [of "cr_next_scope s"]
  by (auto simp: scope_owned_def take_scope_def word_less_nat_alt)

lemma scope_owned_credential:
  assumes "scope_owned c f h n s" "Suc n < 2 ^ 64"
  shows "scope_owned c f h (Suc n) (snd (credential_scope scope credential s))"
proof -
  have "unat (cr_next_scope s + 1) = Suc (unat (cr_next_scope s))"
    using assms by (intro unat_next) (simp add: scope_owned_def)
  then show ?thesis
    using assms by (auto simp: scope_owned_def credential_scope_def take_scope_def Let_def word_less_nat_alt
        split: option.splits)
qed

lemma scope_owned_action:
  assumes "scope_owned c f h n s" "Suc n < 2 ^ 64"
  shows "scope_owned c f h (Suc n) (apply_action s a)"
proof -
  consider (same) "scope_fields (apply_action s a) = scope_fields s"
    | (rotate) q credential where "a = Act_Credential q credential" | (draw) "a = Act_Take_Scope"
    by (cases a) auto
  then show ?thesis
  proof cases
    case same
    then show ?thesis using scope_owned_same [OF same, of c f h "Suc n"] scope_owned_mono [OF assms(1), of "Suc n"] by simp
  next
    case rotate
    then show ?thesis using scope_owned_credential [OF assms] by simp
  next
    case draw
    then show ?thesis using scope_owned_take [OF assms] by simp
  qed
qed

lemma scope_owned_actions:
  "scope_owned c f h n s \<Longrightarrow> n + length actions < 2 ^ 64 \<Longrightarrow>
   scope_owned c f h (n + length actions) (foldl apply_action s actions)"
proof (induction actions arbitrary: s n)
  case (Cons a actions)
  then have "scope_owned c f h (Suc n) (apply_action s a)" by (intro scope_owned_action) simp_all
  from Cons.IH [OF this] Cons.prems(2) show ?case by simp
qed simp

text \<open>C17: Credential scopes follow the 64-bit fingerprints of the credentials. Two executions on a
  connection that resolve credentials with different fingerprints get different credential scopes,
  whatever the threads of the process do in between, changing the credential back and forth included; so
  no judgment of one has the identity of a judgment of the other, and neither can be served the other's
  results. Two executions in succession with the same fingerprint share a scope: that is how a query finds
  the results of the one before, and two credentials whose fingerprints collide share it too. The
  process-wide scope counter must not wrap around in between.\<close>

theorem credential_change_isolates:
  assumes "credential_scope q1 c1 s = (Inr id1, s1)"
    and "credential_scope q2 c2 (foldl apply_action s1 actions) = (Inr id2, s2)"
    and "cr_credential_scope s < cr_next_scope s"
    and "unat (cr_next_scope s) + length actions + 2 < 2 ^ 64"
  shows "if map_option (cr_credential_hasher s) c1 \<noteq> map_option (cr_credential_hasher s) c2
    then id1 \<noteq> id2 \<and> (\<forall>rq1 rq2 ctx1 ctx2. new_identity rq1 (ctx1\<lparr>ic_credential_scope := id1\<rparr>)
      \<noteq> new_identity rq2 (ctx2\<lparr>ic_credential_scope := id2\<rparr>))
    else actions = [] \<longrightarrow> id1 = id2"
proof (cases "map_option (cr_credential_hasher s) c1 = map_option (cr_credential_hasher s) c2")
  case True
  have "id1 = id2" if "actions = []"
    using assms(1,2) True that
    by (auto simp: credential_scope_def take_scope_def Let_def active_scope_def split: option.splits if_splits)
  then show ?thesis using True by simp
next
  case False
  let ?f = "map_option (cr_credential_hasher s) c1" and ?h = "cr_credential_hasher s"
    and ?n = "Suc (unat (cr_next_scope s))" and ?s = "foldl apply_action s1 actions"
  have n: "unat (cr_next_scope s + 1) = ?n" using assms(4) by (intro unat_next) simp
  have "scope_owned id1 ?f ?h ?n s1"
    using assms(1,3) n
    by (auto simp: credential_scope_def take_scope_def scope_owned_def Let_def word_less_nat_alt
        split: option.splits if_splits)
  then have "scope_owned id1 ?f ?h (?n + length actions) ?s"
    using assms(4) by (intro scope_owned_actions) simp_all
  then have "id1 < id2"
    using assms(2) False
    by (auto simp: credential_scope_def take_scope_def scope_owned_def Let_def split: option.splits if_splits)
  then show ?thesis using False by (auto simp: new_identity_def)
qed

theorem credential_change_witness:
  "\<exists>id1 s1 id2 s2. credential_scope 0 None sample_runtime = (Inr id1, s1)
     \<and> credential_scope 0 (Some ''k'') (foldl apply_action s1 [Act_Credential 0 (Some ''j''), Act_Take_Scope, Act_Credential 0 None])
         = (Inr id2, s2) \<and> id1 \<noteq> id2"
proof -
  obtain s1 where first: "credential_scope 0 None sample_runtime = (Inr 1, s1)" and s1: "s1 = sample_runtime"
    by (simp add: credential_scope_def active_scope_def sample_runtime_def begin_query_def default_runtime_def)
  obtain id2 s2 where second: "credential_scope 0 (Some ''k'')
      (foldl apply_action s1 [Act_Credential 0 (Some ''j''), Act_Take_Scope, Act_Credential 0 None]) = (Inr id2, s2)"
    by (simp add: s1 credential_scope_def active_scope_def take_scope_def sample_runtime_def begin_query_def
        default_runtime_def Let_def)
  have "1 \<noteq> id2"
    using credential_change_isolates [OF first second]
    by (simp add: sample_runtime_def begin_query_def default_runtime_def Let_def)
  then show ?thesis using first second by blast
qed

section \<open>An error while planning a batch\<close>

text \<open>
  Two questions about the same state, the second with more labels than the provider takes. The loop that
  plans the batch has claimed an entry for the first question when it refuses the second, and returns
  without an outcome for that entry.
\<close>

definition narrow_provider :: "'w provider" where
  "narrow_provider = mock_provider\<lparr>p_capabilities := mock_capabilities\<lparr>pc_max_choices := Some 2\<rparr>\<rparr>"

definition wide_request :: judgment_request where
  "wide_request =
     (case choice_request (encode_text ''late'') ''urgent?'' [''yes'', ''no'', ''maybe''] of
        Inr rq \<Rightarrow> rq | Inl _ \<Rightarrow> undefined)"

definition stranding_groups :: "judgment_group list" where
  "stranding_groups = map (\<lambda>rq. \<lparr>jg_identity = new_identity rq sample_context, jg_request = rq, jg_targets = []\<rparr>)
     [sample_request, wide_request]"

text \<open>
  Whoever shares that entry then waits for as long as the query is not cancelled: the wait never returns.
\<close>

lemma planning_error_strands_entry:
  "\<exists>e s1 w1 entry s2 flag. execute_batch_groups stranding_groups tick narrow_provider host_ops 8 sample_limits None
       (sample_runtime, 0) = Some (Inl e, s1, w1)
     \<and> claim_query_entry 0 (jg_identity (hd stranding_groups)) s1 = (Inr (entry, False), s2)
     \<and> fst (query_cancellation 0 s2) = Inr flag \<and> wait (\<lambda>s. s) entry flag s2 = None"
proof -
  have "case execute_batch_groups stranding_groups tick narrow_provider host_ops 8 sample_limits None (sample_runtime, 0) of
      Some (Inl e, s1, w1) \<Rightarrow>
        (case claim_query_entry 0 (jg_identity (hd stranding_groups)) s1 of
          (Inr (entry, owns), s2) \<Rightarrow> \<not> owns \<and> qh_slots s2 entry = None
            \<and> (case fst (query_cancellation 0 s2) of Inr flag \<Rightarrow> \<not> qh_flags s2 flag | _ \<Rightarrow> False)
        | _ \<Rightarrow> False)
    | _ \<Rightarrow> False" by code_simp
  then obtain e s1 w1 entry s2 flag where
    "execute_batch_groups stranding_groups tick narrow_provider host_ops 8 sample_limits None (sample_runtime, 0)
       = Some (Inl e, s1, w1)"
    "claim_query_entry 0 (jg_identity (hd stranding_groups)) s1 = (Inr (entry, False), s2)"
    "fst (query_cancellation 0 s2) = Inr flag" and s2: "qh_slots s2 entry = None" "\<not> qh_flags s2 flag"
    by (auto split: option.splits prod.splits sum.splits)
  moreover have "wait (\<lambda>s. s) entry flag s2 = None"
  proof (rule ccontr)
    assume "wait (\<lambda>s. s) entry flag s2 \<noteq> None"
    then obtain y where "wait (\<lambda>s. s) entry flag s2 = Some y" by blast
    moreover have "((\<lambda>s. s) ^^ n) s2 = s2" for n by (induction n) simp_all
    ultimately show False using wait_steps [of "\<lambda>s. s" entry flag s2 y] s2 by (auto simp: wait_outcome_def)
  qed
  ultimately show ?thesis by blast
qed

end
