(* ===== verification/Accounting.thy ===== *)
theory Accounting
  imports Batch_Progress Samples
begin

text \<open>
  Usage and cost, \<open>src/metrics/mod.rs\<close> over the counters of \<open>src/host/mod.rs\<close>: the executors account
  for every call they make of the provider, whatever comes of it, so that what the profile reports covers
  everything a query sent. The accounting is followed through both executors of optimized mode, with the
  other threads' steps in between; row mode makes its calls itself and does not count a response that fails
  validation as a failed request (\<open>row_mode_does_not_count_invalid_responses\<close>).
\<close>

section \<open>Accounting for what was sent\<close>

text \<open>
  A call of the service as the outside world sees it: the requests sent and what came of them. For the
  profile it was answered, with a response that validates; refused, with one that does not; or unanswered.
\<close>

type_synonym call = "judgment_request list \<times> provider_batch_result result"

datatype sent_request = Answered provider_metadata | Refused provider_metadata | Unanswered

definition sent_of :: "call \<Rightarrow> sent_request" where
  "sent_of = (\<lambda>(requests, outcome). case outcome of
     Inl _ \<Rightarrow> Unanswered
   | Inr response \<Rightarrow> if validate_batch_result requests response = Inr () then Answered (br_metadata response)
                     else Refused (br_metadata response))"

definition reported_usage :: "provider_metadata \<Rightarrow> (u64 \<times> u64) option" where
  "reported_usage m =
     (case pm_usage m of
        None \<Rightarrow> None
      | Some u \<Rightarrow> (case (pu_input_tokens u, pu_output_tokens u) of (Some i, Some j) \<Rightarrow> Some (i, j) | _ \<Rightarrow> None))"

fun usage_of :: "sent_request \<Rightarrow> (u64 \<times> u64) option" where
  "usage_of (Answered m) = reported_usage m"
| "usage_of (Refused m) = reported_usage m"
| "usage_of Unanswered = None"

fun is_answered :: "sent_request \<Rightarrow> bool" where
  "is_answered (Answered m) \<longleftrightarrow> True"
| "is_answered _ \<longleftrightarrow> False"

text \<open>The counters that matter for usage and cost.\<close>

definition usage_fields :: "query_counts \<Rightarrow> u64 \<times> u64 \<times> u64 \<times> u64 \<times> u64 option \<times> u64 option" where
  "usage_fields c = (qc_external_requests c, qc_failed_requests c, qc_usage_response_count c,
     qc_usage_missing_count c, qc_input_tokens c, qc_output_tokens c)"

definition add_tokens :: "u64 option \<Rightarrow> u64 \<Rightarrow> u64 option" where
  "add_tokens tokens n = Some (sat_add (case tokens of None \<Rightarrow> 0 | Some t \<Rightarrow> t) n)"

fun note_sent :: "u64 \<times> u64 \<times> u64 \<times> u64 \<times> u64 option \<times> u64 option \<Rightarrow> sent_request
    \<Rightarrow> u64 \<times> u64 \<times> u64 \<times> u64 \<times> u64 option \<times> u64 option" where
  "note_sent (ext, failed, resp, missing, i, j) r =
     (sat_add ext 1, (if is_answered r then failed else sat_add failed 1),
      (case r of Unanswered \<Rightarrow> resp | _ \<Rightarrow> sat_add resp 1),
      (if usage_of r = None then sat_add missing 1 else missing),
      (case usage_of r of None \<Rightarrow> i | Some (a, b) \<Rightarrow> add_tokens i a),
      (case usage_of r of None \<Rightarrow> j | Some (a, b) \<Rightarrow> add_tokens j b))"

lemma usage_fields_attempt:
  "usage_fields (count_attempt n True c) = (case usage_fields c of (ext, rest) \<Rightarrow> (sat_add ext 1, rest))"
  by (simp add: count_attempt_def usage_fields_def Let_def)

lemma usage_fields_neutral [simp]:
  "usage_fields (count_inference m c) = usage_fields c" "usage_fields (count_reported_model m c) = usage_fields c"
  by (simp_all add: count_inference_def count_reported_model_def usage_fields_def split: option.split)

lemma usage_fields_response:
  "usage_fields (count_usage m c)
     = (case usage_fields c of (ext, failed, resp, missing, i, j) \<Rightarrow>
          (ext, failed, sat_add resp 1, (if reported_usage m = None then sat_add missing 1 else missing),
           (case reported_usage m of None \<Rightarrow> i | Some (a, b) \<Rightarrow> add_tokens i a),
           (case reported_usage m of None \<Rightarrow> j | Some (a, b) \<Rightarrow> add_tokens j b)))"
proof (cases "reported_usage m")
  case None
  then show ?thesis
    by (auto simp: count_usage_def usage_fields_def reported_usage_def Let_def split: option.splits)
next
  case (Some u)
  then obtain x where "pm_usage m = Some x" "pu_input_tokens x = Some (fst u)" "pu_output_tokens x = Some (snd u)"
    by (auto simp: reported_usage_def split: option.splits)
  then show ?thesis
    using Some by (simp add: count_usage_def usage_fields_def add_tokens_def Let_def split_beta)
qed

lemma usage_fields_timing: "usage_fields (count_response_timing m d c) = usage_fields c"
  by (simp add: count_response_timing_def count_roundtrip_def usage_fields_def Let_def split: option.split)

definition query_usage :: "u64 \<Rightarrow> connection_runtime \<Rightarrow> (u64 \<times> u64 \<times> u64 \<times> u64 \<times> u64 option \<times> u64 option) option" where
  "query_usage scope s = map_option (\<lambda>q. usage_fields (aq_counts q)) (active_scope scope s)"

lemma query_usage_update:
  "query_usage scope (update_counts scope f s) = map_option (\<lambda>q. usage_fields (f (aq_counts q))) (active_scope scope s)"
  by (simp add: query_usage_def update_counts_def update_query_def active_scope_def split: option.split)

lemma query_usage_records:
  "query_usage scope (record_provider_attempt scope n True s)
     = map_option (\<lambda>(ext, rest). (sat_add ext 1, rest)) (query_usage scope s)"
  "query_usage scope (record_failed_request scope s)
     = map_option (\<lambda>(ext, failed, rest). (ext, sat_add failed 1, rest)) (query_usage scope s)"
  "query_usage scope (record_provider_failure scope d True s)
     = map_option (\<lambda>(ext, failed, resp, missing, rest). (ext, failed, resp, sat_add missing 1, rest)) (query_usage scope s)"
  "query_usage scope (record_provider_response scope m d True s)
     = map_option (\<lambda>(ext, failed, resp, missing, i, j).
         (ext, failed, sat_add resp 1, (if reported_usage m = None then sat_add missing 1 else missing),
           (case reported_usage m of None \<Rightarrow> i | Some (a, b) \<Rightarrow> add_tokens i a),
           (case reported_usage m of None \<Rightarrow> j | Some (a, b) \<Rightarrow> add_tokens j b))) (query_usage scope s)"
proof -
  show "query_usage scope (record_provider_attempt scope n True s)
     = map_option (\<lambda>(ext, rest). (sat_add ext 1, rest)) (query_usage scope s)"
    by (simp add: record_provider_attempt_def query_usage_update usage_fields_attempt)
      (simp add: query_usage_def option.map_comp comp_def)
  show "query_usage scope (record_failed_request scope s)
     = map_option (\<lambda>(ext, failed, rest). (ext, sat_add failed 1, rest)) (query_usage scope s)"
    by (simp add: record_failed_request_def query_usage_update)
      (simp add: query_usage_def usage_fields_def option.map_comp comp_def)
  show "query_usage scope (record_provider_failure scope d True s)
     = map_option (\<lambda>(ext, failed, resp, missing, rest). (ext, failed, resp, sat_add missing 1, rest)) (query_usage scope s)"
    by (cases "active_scope scope s") (simp_all add: record_provider_failure_def query_usage_update Let_def,
        simp_all add: query_usage_def usage_fields_def count_roundtrip_def)
  show "query_usage scope (record_provider_response scope m d True s)
     = map_option (\<lambda>(ext, failed, resp, missing, i, j).
         (ext, failed, sat_add resp 1, (if reported_usage m = None then sat_add missing 1 else missing),
           (case reported_usage m of None \<Rightarrow> i | Some (a, b) \<Rightarrow> add_tokens i a),
           (case reported_usage m of None \<Rightarrow> j | Some (a, b) \<Rightarrow> add_tokens j b))) (query_usage scope s)"
    by (cases "active_scope scope s")
      (simp_all add: record_provider_response_def query_usage_update usage_fields_response usage_fields_timing,
        simp_all add: query_usage_def)
qed

definition token_total :: "((u64 \<times> u64) \<Rightarrow> u64) \<Rightarrow> sent_request list \<Rightarrow> nat" where
  "token_total f calls = sum_list (map (\<lambda>r. case usage_of r of None \<Rightarrow> 0 | Some u \<Rightarrow> unat (f u)) calls)"

definition saturated :: "nat \<Rightarrow> u64" where
  "saturated n = word_of_nat (min n (2 ^ 64 - 1))"

lemma sat_add_saturated: "sat_add (saturated n) a = saturated (n + unat a)"
  by (simp add: word_unat_eq_iff unat_sat_add saturated_def unat_of_nat)

definition tokens_of :: "((u64 \<times> u64) \<Rightarrow> u64) \<Rightarrow> sent_request list \<Rightarrow> u64 option" where
  "tokens_of f calls =
     (if \<forall>r \<in> set calls. usage_of r = None then None else Some (saturated (token_total f calls)))"

lemma tokens_of_snoc:
  "tokens_of f (calls @ [r]) = (case usage_of r of None \<Rightarrow> tokens_of f calls | Some u \<Rightarrow> add_tokens (tokens_of f calls) (f u))"
proof (cases "usage_of r")
  case None
  then show ?thesis by (simp add: tokens_of_def token_total_def)
next
  case (Some u)
  have step: "token_total f (calls @ [r]) = token_total f calls + unat (f u)"
    using Some by (simp add: token_total_def)
  have none: "token_total f calls = 0" if "\<forall>r \<in> set calls. usage_of r = None"
    using that by (induction calls) (simp_all add: token_total_def)
  have "sat_add (case tokens_of f calls of None \<Rightarrow> 0 | Some t \<Rightarrow> t) (f u) = saturated (token_total f calls + unat (f u))"
    using sat_add_saturated [of "token_total f calls" "f u"] none
    by (auto simp: tokens_of_def saturated_def)
  then show ?thesis using Some by (simp add: tokens_of_def step add_tokens_def)
qed

definition how_many :: "(sent_request \<Rightarrow> bool) \<Rightarrow> sent_request list \<Rightarrow> u64" where
  "how_many P calls = word_of_nat (length (filter P calls))"

lemma unat_how_many: "length calls < 2 ^ 64 \<Longrightarrow> unat (how_many P calls) = length (filter P calls)"
  using le_less_trans [OF length_filter_le, of calls "2 ^ 64" P] by (simp add: how_many_def unat_of_nat)

lemma how_many_snoc:
  assumes "length calls < 2 ^ 64 - 1"
  shows "how_many P (calls @ [r]) = (if P r then sat_add (how_many P calls) 1 else how_many P calls)"
proof -
  have "unat (how_many P calls) < 2 ^ 64 - 1"
    using assms le_less_trans [OF length_filter_le assms, of P] by (subst unat_how_many) simp_all
  then show ?thesis by (simp add: sat_add_def how_many_def)
qed

lemma how_many_zero:
  "length calls < 2 ^ 64 \<Longrightarrow> how_many P calls = 0 \<longleftrightarrow> (\<forall>r \<in> set calls. \<not> P r)"
  by (simp add: word_unat_eq_iff unat_how_many filter_empty_conv)

lemma how_many_all:
  assumes "length calls < 2 ^ 64"
  shows "how_many P calls = how_many (\<lambda>_. True) calls \<longleftrightarrow> (\<forall>r \<in> set calls. P r)"
proof -
  have "length (filter P calls) = length calls \<longleftrightarrow> filter (\<lambda>r. \<not> P r) calls = []"
    using sum_length_filter_compl [of P calls] unfolding length_0_conv [symmetric] by linarith
  then show ?thesis
    using assms by (simp add: word_unat_eq_iff unat_how_many filter_empty_conv)
qed

definition responded :: "sent_request \<Rightarrow> bool" where
  "responded r \<longleftrightarrow> (case r of Unanswered \<Rightarrow> False | _ \<Rightarrow> True)"

lemma note_all_sent:
  "length calls < 2 ^ 64 \<Longrightarrow>
   foldl note_sent (0, 0, 0, 0, None, None) calls =
     (how_many (\<lambda>_. True) calls, how_many (\<lambda>r. \<not> is_answered r) calls, how_many responded calls,
      how_many (\<lambda>r. usage_of r = None) calls, tokens_of fst calls, tokens_of snd calls)"
proof (induction calls rule: rev_induct)
  case (snoc r calls)
  have len: "length calls < 2 ^ 64 - 1" using snoc.prems by simp
  have IH: "foldl note_sent (0, 0, 0, 0, None, None) calls =
     (how_many (\<lambda>_. True) calls, how_many (\<lambda>r. \<not> is_answered r) calls, how_many responded calls,
      how_many (\<lambda>r. usage_of r = None) calls, tokens_of fst calls, tokens_of snd calls)"
    using snoc by simp
  show ?case
    unfolding foldl_append foldl.simps IH note_sent.simps how_many_snoc [OF len] tokens_of_snoc
    by (cases r) (auto simp: responded_def split: option.split)
qed (simp add: tokens_of_def how_many_def)

section \<open>The counters follow the calls\<close>

definition noted :: "call list \<Rightarrow> u64 \<times> u64 \<times> u64 \<times> u64 \<times> u64 option \<times> u64 option" where
  "noted calls = foldl note_sent (0, 0, 0, 0, None, None) (map sent_of calls)"

text \<open>
  The counters of the query \<open>scope\<close> are \<open>U\<close> for as long as it is the active one, and the query identifiers
  do not wrap around within the next \<open>n\<close> steps of other threads, so that it is not mistaken for a later one.
\<close>

definition tracks_for :: "nat \<Rightarrow> u64 \<Rightarrow> u64 \<times> u64 \<times> u64 \<times> u64 \<times> u64 option \<times> u64 option \<Rightarrow> connection_runtime \<Rightarrow> bool" where
  "tracks_for n scope U s \<longleftrightarrow> scope < cr_next_query_id s \<and> unat (cr_next_query_id s) + n < 2 ^ 64
     \<and> (\<forall>u. query_usage scope s = Some u \<longrightarrow> u = U)"

definition tracks :: "u64 \<Rightarrow> u64 \<times> u64 \<times> u64 \<times> u64 \<times> u64 option \<times> u64 option \<Rightarrow> connection_runtime \<Rightarrow> bool" where
  "tracks scope U s \<longleftrightarrow> tracks_for (length (concat (cr_pending s))) scope U s"

text \<open>What the accounting depends on, and the operations that leave it alone.\<close>

definition ledger :: "u64 \<Rightarrow> connection_runtime
    \<Rightarrow> (u64 \<times> u64 \<times> u64 \<times> u64 \<times> u64 option \<times> u64 option) option \<times> u64 \<times> host_action list list" where
  "ledger scope s = (query_usage scope s, cr_next_query_id s, cr_pending s)"

lemma tracks_same: "ledger scope s' = ledger scope s \<Longrightarrow> tracks scope U s \<Longrightarrow> tracks scope U s'"
  by (simp add: ledger_def tracks_def tracks_for_def)

lemma ledger_update:
  "(\<And>c. usage_fields (f c) = usage_fields c) \<Longrightarrow> ledger scope (update_counts q f s) = ledger scope s"
  by (auto simp: ledger_def query_usage_def update_counts_def update_query_def active_scope_def
      split: option.splits)

lemma ledger_simps [simp]:
  "ledger scope (complete r e s) = ledger scope s"
  "ledger scope (drop_permit s) = ledger scope s"
  "ledger scope (record_cache_hit q s) = ledger scope s"
  "ledger scope (s\<lparr>cr_inflight := ps\<rparr>) = ledger scope s"
  "ledger scope (s\<lparr>cr_cache := c\<rparr>) = ledger scope s"
  "ledger scope (s\<lparr>cr_query_entries := es\<rparr>) = ledger scope s"
  "ledger scope (snd (new_query_entry k s)) = ledger scope s"
  "ledger scope (snd (query_cancellation q s)) = ledger scope s"
  "ledger scope (adapter_cache_insert k v now policy s) = ledger scope s"
  by (auto simp: record_cache_hit_def usage_fields_def intro!: ledger_update)
    (auto simp: ledger_def query_usage_def active_scope_def complete_def drop_permit_def new_query_entry_def
      query_cancellation_def adapter_cache_insert_def split: option.splits)

lemma ledger_lookup [simp]: "ledger scope (snd (adapter_cache_lookup ck now policy s)) = ledger scope s"
  by (simp add: adapter_cache_lookup_def Let_def split: prod.split bool.split option.split)

lemma ledger_claim [simp]: "ledger scope (snd (claim_query_entry q k s)) = ledger scope s"
proof -
  obtain r s' where c: "claim_query_entry q k s = (r, s')" by fastforce
  then have "ledger scope s' = ledger scope s"
  proof (cases rule: claim_cases)
    case (fresh s1)
    have "ledger scope s1 = ledger scope s"
      unfolding fresh(3) by (intro ledger_update) (simp add: usage_fields_def)
    then show ?thesis by (simp add: fresh(4))
  qed (simp_all add: ledger_update usage_fields_def)
  then show ?thesis by (simp add: c)
qed

lemma ledger_fail_entries [simp]: "ledger scope (fail_entries e es s) = ledger scope s"
  unfolding fail_entries_def by (induction es arbitrary: s) simp_all

lemma ledger_fail_leaders [simp]: "ledger scope (fail_leaders plan e s) = ledger scope s"
  by (simp add: fail_leaders_def)

section \<open>Other threads\<close>

lemma tracks_for_action:
  assumes "tracks_for (Suc n) scope U s"
  shows "tracks_for n scope U (apply_action s a)"
proof -
  have same: "tracks_for n scope U s'" if "ledger scope s' = ledger scope s" for s'
    using that assms by (simp add: ledger_def tracks_for_def)
  show ?thesis
  proof (cases a)
    case (Act_Begin_Query now)
    have "unat (cr_next_query_id s + 1) = Suc (unat (cr_next_query_id s))"
      using assms by (intro unat_next) (simp add: tracks_for_def)
    then show ?thesis
      using assms Act_Begin_Query
      by (auto simp: tracks_for_def begin_query_def query_usage_def active_scope_def Let_def store_flag_def
          word_less_nat_alt split: option.splits)
  next
    case (Act_End_Query i e now)
    then show ?thesis
      using assms by (auto simp: tracks_for_def end_query_def query_usage_def active_scope_def Let_def store_flag_def
          split: option.splits)
  next
    case (Act_Credential q c)
    then show ?thesis
      by (auto intro!: same simp: ledger_def query_usage_def credential_scope_def active_scope_def take_scope_def Let_def
          split: option.split)
  next
    case Act_Take_Scope
    then show ?thesis by (auto intro!: same simp: ledger_def query_usage_def active_scope_def take_scope_def)
  qed (auto intro!: same)
qed

lemma pending_action: "cr_pending (apply_action s a) = cr_pending s"
proof (cases a)
  case (Act_Claim q k)
  then show ?thesis using ledger_claim [of 0 q k s] by (simp add: ledger_def)
next
  case (Act_Complete k e r)
  then show ?thesis using ledger_simps(1) [of 0 r e s] by (simp add: ledger_def)
next
  case (Act_Cache_Lookup k now policy)
  then show ?thesis using ledger_lookup [of 0 k now policy s] by (simp add: ledger_def)
next
  case (Act_Credential q c)
  then show ?thesis
    by (simp add: credential_scope_def take_scope_def Let_def split: option.split)
qed (simp_all add: begin_query_fields end_query_fields adapter_cache_insert_def drop_permit_def take_scope_def)

lemma tracks_for_actions:
  "tracks_for (length actions + n) scope U s \<Longrightarrow>
   tracks_for n scope U (foldl apply_action s actions) \<and> cr_pending (foldl apply_action s actions) = cr_pending s"
proof (induction actions arbitrary: s)
  case (Cons a actions)
  then have "tracks_for (length actions + n) scope U (apply_action s a)" by (intro tracks_for_action) simp
  from Cons.IH [OF this] show ?case by (simp add: pending_action)
qed simp

lemma tracks_others: "tracks scope U s \<Longrightarrow> tracks scope U (other_threads s)"
proof (cases "cr_pending s")
  case (Cons actions rest)
  assume "tracks scope U s"
  then have "tracks_for (length actions + length (concat rest)) scope U (s\<lparr>cr_pending := rest\<rparr>)"
    using Cons by (simp add: tracks_def tracks_for_def query_usage_def active_scope_def)
  from tracks_for_actions [OF this] show ?thesis using Cons by (simp add: tracks_def other_threads_def)
qed (simp add: other_threads_def)

lemma tracks_sleeps: "tracks scope U s \<Longrightarrow> tracks scope U ((other_threads ^^ n) s)"
  by (induction n) (simp_all add: tracks_others)

lemma tracks_wait: "wait other_threads e c s = Some (r, s') \<Longrightarrow> tracks scope U s \<Longrightarrow> tracks scope U s'"
  using wait_steps [of other_threads e c s "(r, s')"] tracks_sleeps [of scope U s] by auto

lemma tracks_acquire:
  assumes "acquire_request_permit other_threads q n s = Some (x, s')" "tracks scope U s"
  shows "tracks scope U s'"
proof (cases "\<exists>c. fst (query_cancellation q s) = Inr c \<and> n \<noteq> 0")
  case False
  then show ?thesis
    using assms
    by (auto simp: acquire_request_permit_def pool_acquire_def query_cancellation_def split: option.splits)
next
  case True
  then obtain c where "acquire_loop other_threads n c s = Some (x, s')"
    using assms(1) by (auto simp: acquire_request_permit_def pool_acquire_def query_cancellation_def split: option.splits)
  from acquire_loop_steps [OF this] obtain m where
    "s' = (other_threads ^^ m) s \<or> (\<exists>ps. s' = ((other_threads ^^ m) s)\<lparr>cr_inflight := ps\<rparr>)"
    by (auto simp: Let_def split: if_splits)
  then show ?thesis using tracks_sleeps [OF assms(2)] tracks_same [OF ledger_simps(4)] by blast
qed

section \<open>One call\<close>

text \<open>
  \<open>log\<close> reads off the world which calls of the provider have been made: each call adds itself with its
  outcome, and reading the clock adds nothing.
\<close>

definition logs_calls :: "('w \<Rightarrow> instant \<times> 'w) \<Rightarrow> 'w provider \<Rightarrow> ('w \<Rightarrow> call list) \<Rightarrow> bool" where
  "logs_calls clock provider log \<longleftrightarrow> (\<forall>w. log (snd (clock w)) = log w)
     \<and> (\<forall>rq w. log (snd (p_judge_with_metadata provider rq w)) = log w @ [([rq], fst (p_judge_with_metadata provider rq w))])
     \<and> (\<forall>rqs w. log (snd (p_judge_many provider rqs w)) = log w @ [(rqs, fst (p_judge_many provider rqs w))])"

lemma logs_callsD:
  assumes "logs_calls clock provider log"
  shows "clock w = (t, w') \<Longrightarrow> log w' = log w"
    "p_judge_with_metadata provider rq w = (outcome, w') \<Longrightarrow> log w' = log w @ [([rq], outcome)]"
    "p_judge_many provider rqs w = (outcome, w') \<Longrightarrow> log w' = log w @ [(rqs, outcome)]"
  using assms unfolding logs_calls_def by (metis snd_conv, metis fst_conv snd_conv, metis fst_conv snd_conv)

text \<open>The counters of the query \<open>scope\<close> cover every call made so far.\<close>

definition covers_calls :: "u64 \<Rightarrow> ('w \<Rightarrow> call list) \<Rightarrow> connection_runtime \<Rightarrow> 'w \<Rightarrow> bool" where
  "covers_calls scope log s w \<longleftrightarrow> tracks scope (noted (log w)) s"

lemma noted_snoc: "noted (calls @ [c]) = note_sent (noted calls) (sent_of c)"
  by (simp add: noted_def)

lemma query_usage_ledger: "ledger scope s' = ledger scope s \<Longrightarrow> query_usage scope s' = query_usage scope s"
  by (simp add: ledger_def)

lemmas query_usage_neutral [simp] = ledger_simps [THEN query_usage_ledger]

lemma update_counts_fields [simp]:
  "cr_next_query_id (update_counts q f s) = cr_next_query_id s" "cr_pending (update_counts q f s) = cr_pending s"
  by (simp_all add: update_counts_def update_query_def split: option.split)

lemma records_fields [simp]:
  "cr_next_query_id (record_provider_attempt q n x s) = cr_next_query_id s"
  "cr_pending (record_provider_attempt q n x s) = cr_pending s"
  "cr_next_query_id (record_failed_request q s) = cr_next_query_id s"
  "cr_pending (record_failed_request q s) = cr_pending s"
  "cr_next_query_id (record_provider_failure q d x s) = cr_next_query_id s"
  "cr_pending (record_provider_failure q d x s) = cr_pending s"
  "cr_next_query_id (record_provider_response q m d x s) = cr_next_query_id s"
  "cr_pending (record_provider_response q m d x s) = cr_pending s"
  by (simp_all add: record_provider_attempt_def record_failed_request_def record_provider_failure_def
      record_provider_response_def split: option.split)

text \<open>The recorded steps of a call that fails to return a response, and of one that returns one.\<close>

lemma tracks_by:
  "tracks scope U s \<Longrightarrow> cr_next_query_id s' = cr_next_query_id s \<Longrightarrow> cr_pending s' = cr_pending s \<Longrightarrow>
   query_usage scope s' = map_option f (query_usage scope s) \<Longrightarrow> f U = U' \<Longrightarrow> tracks scope U' s'"
  by (auto simp: tracks_def tracks_for_def)

lemma tracks_attempt:
  "tracks scope (ext, rest) s \<Longrightarrow> tracks scope (sat_add ext 1, rest) (record_provider_attempt scope n True s)"
  by (erule tracks_by [OF _ records_fields(1) records_fields(2) query_usage_records(1)]) simp

lemma tracks_failed:
  "tracks scope (ext, failed, rest) s \<Longrightarrow> tracks scope (ext, sat_add failed 1, rest) (record_failed_request scope s)"
  by (erule tracks_by [OF _ records_fields(3) records_fields(4) query_usage_records(2)]) simp

lemma tracks_failure:
  "tracks scope (ext, failed, resp, missing, rest) s \<Longrightarrow>
   tracks scope (ext, failed, resp, sat_add missing 1, rest) (record_provider_failure scope d True s)"
  by (erule tracks_by [OF _ records_fields(5) records_fields(6) query_usage_records(3)]) simp

lemma tracks_response:
  "tracks scope (ext, failed, resp, missing, i, j) s \<Longrightarrow>
   tracks scope (ext, failed, sat_add resp 1, (if reported_usage m = None then sat_add missing 1 else missing),
       (case reported_usage m of None \<Rightarrow> i | Some (a, b) \<Rightarrow> add_tokens i a),
       (case reported_usage m of None \<Rightarrow> j | Some (a, b) \<Rightarrow> add_tokens j b))
     (record_provider_response scope m d True s)"
  by (erule tracks_by [OF _ records_fields(7) records_fields(8) query_usage_records(4)]) simp

text \<open>The attempt, what the provider's outcome adds, and the failure accounting add up to the call.\<close>

definition received :: "u64 \<Rightarrow> provider_batch_result result \<Rightarrow> duration \<Rightarrow> connection_runtime \<Rightarrow> connection_runtime" where
  "received scope outcome d s =
     (case outcome of Inl _ \<Rightarrow> s | Inr response \<Rightarrow> record_provider_response scope (br_metadata response) d True s)"

lemma tracks_call:
  assumes "tracks scope U s" "p_makes_external_request provider" "el_query_scope limits = scope"
    and same: "ledger scope s' = ledger scope (received scope outcome d (record_provider_attempt scope n True s))"
    and log: "al_attempted log" "al_response_received log \<longleftrightarrow> \<not> is_err outcome"
    and err: "err \<longleftrightarrow> \<not> is_answered (sent_of (rqs, outcome))"
  shows "tracks scope (note_sent U (sent_of (rqs, outcome))) (account_failure host_ops provider limits err log s')"
proof -
  obtain ext failed resp missing i j where U: "U = (ext, failed, resp, missing, i, j)" by (metis prod.exhaust)
  note attempt = tracks_attempt [OF assms(1) [unfolded U], of n]
  show ?thesis
  proof (cases outcome)
    case (Inl e)
    have s': "tracks scope (sat_add ext 1, failed, resp, missing, i, j) s'"
      by (rule tracks_same [OF same]) (use Inl attempt in \<open>simp add: received_def\<close>)
    from tracks_failure [OF tracks_failed [OF s']] show ?thesis
      using Inl assms(2,3) log err by (simp add: U account_failure_def sent_of_def is_err_def host_ops_def Let_def)
  next
    case (Inr response)
    have s': "tracks scope (sat_add ext 1, failed, sat_add resp 1,
       (if reported_usage (br_metadata response) = None then sat_add missing 1 else missing),
       (case reported_usage (br_metadata response) of None \<Rightarrow> i | Some (a, b) \<Rightarrow> add_tokens i a),
       (case reported_usage (br_metadata response) of None \<Rightarrow> j | Some (a, b) \<Rightarrow> add_tokens j b)) s'"
      by (rule tracks_same [OF same]) (use Inr tracks_response [OF attempt] in \<open>simp add: received_def\<close>)
    show ?thesis
      using Inr assms(2,3) log err s' tracks_failed [OF s']
      by (cases "covers_batch rqs response")
        (simp_all add: U account_failure_def sent_of_def is_err_def host_ops_def Let_def)
  qed
qed

section \<open>Single requests\<close>

lemma is_err_simps [simp]: "is_err (Inl e)" "\<not> is_err (Inr v)"
  by (simp_all add: is_err_def)

lemma answered_iff:
  "is_answered (sent_of (rqs, outcome)) \<longleftrightarrow> (\<exists>response. outcome = Inr response \<and> covers_batch rqs response)"
  by (cases outcome) (simp_all add: sent_of_def)

lemma check_single_response_err: "is_err (check_single_response rq response) \<longleftrightarrow> \<not> covers_batch [rq] response"
proof (cases "covers_batch [rq] response")
  case True
  from covers_single [OF True] obtain a where a: "br_answers response = [a]"
      "valid_answer (rq_kind rq) (rq_choices rq) (pa_result a)" by blast
  then have "check_single_response rq response = Inr (pa_result a)"
    using True by (simp add: check_single_response_def result_bind_Inr)
  then show ?thesis using True by simp
next
  case False
  then obtain e where "validate_batch_result [rq] response = Inl e"
    by (cases "validate_batch_result [rq] response") (auto simp flip: validate_batch_result_iff)
  then show ?thesis using False by (simp add: check_single_response_def)
qed

lemma host_ops_effects [simp]:
  "rt_record_provider_attempt host_ops = record_provider_attempt" "rt_record_failed_request host_ops = record_failed_request"
  "rt_record_provider_response host_ops = record_provider_response"
  "rt_record_provider_failure host_ops = record_provider_failure" "rt_cache_insert host_ops = adapter_cache_insert"
  "rt_acquire_permit host_ops = acquire_request_permit other_threads" "rt_release_permit host_ops permit = drop_permit"
  by (simp_all add: host_ops_def)

lemma store_result_covered:
  assumes "store_result clock host_ops provider policy ck g m v (s, w) = (s', w')" "logs_calls clock provider log"
  shows "ledger scope s' = ledger scope s" "log w' = log w"
  using assms(1) logs_callsD(1) [OF assms(2)]
  by (auto simp: store_result_def Let_def split: option.splits if_splits prod.splits)

lemma settle_one_received:
  assumes run: "settle_one clock host_ops provider limits policy ck g permit outcome d (s, w) = (r, lg, s', w')"
    and "logs_calls clock provider log" "p_makes_external_request provider" "el_query_scope limits = scope"
  shows "ledger scope s' = ledger scope (received scope outcome d s) \<and> log w' = log w \<and> al_attempted lg
    \<and> (al_response_received lg \<longleftrightarrow> \<not> is_err outcome) \<and> (is_err r \<longleftrightarrow> \<not> is_answered (sent_of ([jg_request g], outcome)))"
proof (cases outcome)
  case (Inl e)
  then show ?thesis using run by (auto simp: settle_one_def received_def answered_iff)
next
  case (Inr response)
  let ?s1 = "record_provider_response scope (br_metadata response) d True s"
  show ?thesis
  proof (cases "check_single_response (jg_request g) response")
    case (Inl e)
    then show ?thesis
      using run Inr assms(3,4) check_single_response_err [of "jg_request g" response]
      by (auto simp: settle_one_def received_def answered_iff Let_def)
  next
    case v: (Inr v)
    obtain s2 w2 where store: "store_result clock host_ops provider policy ck g
        (pm_effective_model (br_metadata response)) v (?s1, w) = (s2, w2)" by fastforce
    show ?thesis
      using run Inr v assms(3,4) store store_result_covered(1) [OF store assms(2), of scope]
        store_result_covered(2) [OF store assms(2)]
        check_single_response_err [of "jg_request g" response]
      by (auto simp: settle_one_def received_def answered_iff Let_def)
  qed
qed

lemma attempt_one_covered:
  assumes run: "attempt_one clock host_ops provider limits policy ck g (s, w) = Some (r, lg, s', w')"
    and logs: "logs_calls clock provider log" and ext: "p_makes_external_request provider"
    and cov: "covers_calls (el_query_scope limits) log s w"
  shows "covers_calls (el_query_scope limits) log (account_failure host_ops provider limits (is_err r) lg s') w'"
proof -
  let ?scope = "el_query_scope limits"
  obtain x s1 where acq: "acquire_request_permit other_threads ?scope (el_max_inflight limits) s = Some (x, s1)"
    using run by (auto simp: attempt_one_def split: option.splits)
  have s1: "tracks ?scope (noted (log w)) s1" using tracks_acquire [OF acq] cov by (simp add: covers_calls_def)
  show ?thesis
  proof (cases x)
    case (Inl e)
    then show ?thesis using run acq s1 by (auto simp: attempt_one_def account_failure_def no_attempt_def covers_calls_def)
  next
    case (Inr permit)
    obtain t1 w1 where t1: "clock w = (t1, w1)" by fastforce
    obtain outcome w2 where outcome: "p_judge_with_metadata provider (jg_request g) w1 = (outcome, w2)" by fastforce
    obtain t2 w3 where t2: "clock w2 = (t2, w3)" by fastforce
    have settle: "settle_one clock host_ops provider limits policy ck g permit outcome (t2 - t1)
        (record_provider_attempt ?scope 1 True s1, w3) = (r, lg, s', w')"
      using run acq Inr ext by (simp add: attempt_one_def t1 outcome t2 Let_def)
    note got = settle_one_received [OF settle logs ext refl]
    have "log w' = log w @ [([jg_request g], outcome)]"
      using got logs_callsD(1) [OF logs t1] logs_callsD(1) [OF logs t2] logs_callsD(2) [OF logs outcome] by simp
    then show ?thesis
      using tracks_call [OF s1 ext refl, where s' = s' and outcome = outcome and d = "t2 - t1" and n = 1 and log = lg
          and err = "is_err r" and rqs = "[jg_request g]"] got
      by (simp add: covers_calls_def noted_snoc)
  qed
qed

lemma covers_same:
  "covers_calls scope log s w \<Longrightarrow> ledger scope s' = ledger scope s \<Longrightarrow> log w' = log w \<Longrightarrow> covers_calls scope log s' w'"
  using tracks_same by (simp add: covers_calls_def)

lemma request_one_group_covered:
  assumes run: "request_one_group clock host_ops provider limits policy ck g e (s, w) = Some (r, s', w')"
    and "logs_calls clock provider log" "p_makes_external_request provider"
    and "covers_calls (el_query_scope limits) log s w"
  shows "covers_calls (el_query_scope limits) log s' w'"
proof (cases "el_max_request_bytes limits < p_estimate_request_bytes provider [jg_request g]")
  case True
  then show ?thesis using run assms(4) by (auto simp: request_one_group_def Let_def intro: covers_same)
next
  case False
  then obtain lg s1 where "attempt_one clock host_ops provider limits policy ck g (s, w) = Some (r, lg, s1, w')"
    and s': "s' = complete r e (account_failure host_ops provider limits (is_err r) lg s1)"
    using run by (auto simp: request_one_group_def Let_def split: option.splits)
  from attempt_one_covered [OF this(1) assms(2-4)] show ?thesis by (rule covers_same) (simp_all add: s')
qed

lemma claim_phase_covered:
  assumes run: "claim_phase clock host_ops scope policy ck k (s, w) = (c, s', w')" and logs: "logs_calls clock provider log"
  shows "ledger scope' s' = ledger scope' s \<and> log w' = log w"
proof -
  obtain c1 s1 where c1: "claim_query_entry scope k s = (c1, s1)" by fastforce
  obtain c2 s2 where c2: "query_cancellation scope s1 = (c2, s2)" by fastforce
  obtain now w1 where now: "clock w = (now, w1)" by fastforce
  have led: "ledger scope' s1 = ledger scope' s" "ledger scope' s2 = ledger scope' s1" "log w1 = log w"
    using ledger_claim [of scope' scope k s] ledger_simps(8) [of scope' scope s1] logs_callsD(1) [OF logs now]
    by (simp_all add: c1 c2)
  have look: "ledger scope' (snd (adapter_cache_lookup ck now p s2)) = ledger scope' s" for p using led by simp
  show ?thesis
    using run led look
    by (auto simp: claim_phase_def c1 c2 now Let_def simp del: policy_validate_iff ledger_lookup
        split: sum.splits prod.splits if_splits option.splits) (metis snd_conv)+
qed

lemma execute_one_group_covered:
  assumes run: "execute_one_group clock host_ops provider limits policy g (s, w) = Some (r, s', w')"
    and logs: "logs_calls clock provider log" and ext: "p_makes_external_request provider"
    and cov: "covers_calls (el_query_scope limits) log s w"
  shows "covers_calls (el_query_scope limits) log s' w'"
proof -
  let ?ck = "case policy of None \<Rightarrow> None | Some _ \<Rightarrow> cache_identity_for g provider"
  obtain c s1 w1 where c: "claim_phase clock host_ops (el_query_scope limits) policy ?ck (jg_identity g) (s, w) = (c, s1, w1)"
    using prod_cases3 by blast
  have cov1: "covers_calls (el_query_scope limits) log s1 w1"
    using covers_same [OF cov] claim_phase_covered [OF c logs] by blast
  show ?thesis
  proof (cases c)
    case (Claim_Leads e)
    then have "request_one_group clock host_ops provider limits policy ?ck g e (s1, w1) = Some (r, s', w')"
      using run by (simp add: execute_one_group_claims c)
    then show ?thesis by (rule request_one_group_covered [OF _ logs ext cov1])
  next
    case (Claim_Follows e f)
    then show ?thesis
      using run cov1 tracks_wait [where U = "noted (log w1)"] by (auto simp: execute_one_group_claims c covers_calls_def split: option.splits)
  qed (use run cov1 in \<open>simp_all add: execute_one_group_claims c\<close>)
qed

lemma execute_each_covered:
  "execute_each clock host_ops provider limits policy out groups (s, w) = Some (r, s', w') \<Longrightarrow>
   logs_calls clock provider log \<Longrightarrow> p_makes_external_request provider \<Longrightarrow>
   covers_calls (el_query_scope limits) log s w \<Longrightarrow> covers_calls (el_query_scope limits) log s' w'"
proof (induction groups arbitrary: out s w)
  case (Cons g groups)
  obtain r1 s1 w1 where one: "execute_one_group clock host_ops provider limits policy g (s, w) = Some (r1, s1, w1)"
    using Cons.prems(1) by (auto split: option.splits)
  note cov1 = execute_one_group_covered [OF one Cons.prems(2-4)]
  then show ?case
    using Cons.prems(1) one Cons.IH [OF _ Cons.prems(2,3) cov1] by (cases r1) auto
qed simp

section \<open>Batches\<close>

lemma check_batch_response_err:
  "is_err (check_batch_response (requests_for_groups groups indices None) indices response)
   \<longleftrightarrow> \<not> covers_batch (requests_for_groups groups indices None) response"
proof (cases "covers_batch (requests_for_groups groups indices None) response")
  case True
  then show ?thesis using check_batch_response_ok [of groups indices response] by auto
next
  case False
  then have "check_batch_response (requests_for_groups groups indices None) indices response \<noteq> Inr v" for v
    by (simp add: check_batch_response_def result_bind_Inr)
  then show ?thesis using False by (auto simp: is_err_def split: sum.split)
qed

lemma attempt_batch_covered:
  fixes groups indices
  defines "rqs \<equiv> requests_for_groups groups indices None"
  assumes run: "attempt_batch clock host_ops provider limits rqs indices (s, w) = Some (r, lg, s', w')"
    and logs: "logs_calls clock provider log" and ext: "p_makes_external_request provider"
    and cov: "covers_calls (el_query_scope limits) log s w"
  shows "covers_calls (el_query_scope limits) log (account_failure host_ops provider limits (is_err r) lg s') w'"
proof -
  let ?scope = "el_query_scope limits" and ?n = "usize_of (length rqs)"
  obtain x s1 where acq: "acquire_request_permit other_threads ?scope (el_max_inflight limits) s = Some (x, s1)"
    using run by (auto simp: attempt_batch_def Let_def split: option.splits)
  have s1: "tracks ?scope (noted (log w)) s1" using tracks_acquire [OF acq] cov by (simp add: covers_calls_def)
  show ?thesis
  proof (cases x)
    case (Inl e)
    then show ?thesis
      using run acq s1 by (auto simp: attempt_batch_def account_failure_def no_attempt_def covers_calls_def Let_def)
  next
    case (Inr permit)
    obtain t1 w1 where t1: "clock w = (t1, w1)" by fastforce
    obtain outcome w2 where outcome: "p_judge_many provider rqs w1 = (outcome, w2)" by fastforce
    obtain t2 w3 where t2: "clock w2 = (t2, w3)" by fastforce
    let ?s2 = "record_provider_attempt ?scope ?n True s1"
    have got: "ledger ?scope s' = ledger ?scope (received ?scope outcome (t2 - t1) ?s2) \<and> w' = w3 \<and> al_attempted lg
        \<and> (al_response_received lg \<longleftrightarrow> \<not> is_err outcome) \<and> (is_err r \<longleftrightarrow> \<not> is_answered (sent_of (rqs, outcome)))"
    proof (cases outcome)
      case (Inl e)
      then show ?thesis
        using run acq Inr ext by (auto simp: attempt_batch_def t1 outcome t2 Let_def received_def answered_iff)
    next
      case response: (Inr response)
      have "is_err (result_bind (check_batch_response rqs indices response) (\<lambda>results. Inr (results, m)))
          \<longleftrightarrow> \<not> covers_batch rqs response" for m :: "string option"
        using check_batch_response_err [of groups indices response] unfolding rqs_def [symmetric]
        by (cases "check_batch_response rqs indices response") simp_all
      then show ?thesis
        using run acq Inr ext response
        by (auto simp: attempt_batch_def t1 outcome t2 Let_def received_def answered_iff)
    qed
    have "log w' = log w @ [(rqs, outcome)]"
      using got logs_callsD(1) [OF logs t1] logs_callsD(1) [OF logs t2] logs_callsD(3) [OF logs outcome] by simp
    then show ?thesis
      using tracks_call [OF s1 ext refl, where s' = s' and outcome = outcome and d = "t2 - t1" and n = ?n and log = lg
          and err = "is_err r" and rqs = rqs] got
      by (simp add: covers_calls_def noted_snoc)
  qed
qed

lemma publish_results_covered:
  "publish_results clock host_ops provider policy groups plan m results out (s, w) = (out', s', w') \<Longrightarrow>
   logs_calls clock provider log \<Longrightarrow> ledger scope s' = ledger scope s \<and> log w' = log w"
proof (induction results arbitrary: out s w)
  case (Cons iv results)
  obtain i v where iv: "iv = (i, v)" by fastforce
  obtain s1 w1 where store: "store_result clock host_ops provider policy (map_of (bp_cache_keys plan) i)
      (groups ! i) m v (s, w) = (s1, w1)" by fastforce
  have "publish_results clock host_ops provider policy groups plan m results
      (out @ map (\<lambda>target. (target, v)) (jg_targets (groups ! i)))
      (complete (Inr v) (the (map_of (bp_leaders plan) i)) s1, w1) = (out', s', w')"
    using Cons.prems(1) by (simp add: iv store Let_def)
  from Cons.IH [OF this Cons.prems(2)] show ?case
    using store_result_covered(1) [OF store Cons.prems(2), of scope] store_result_covered(2) [OF store Cons.prems(2)] by simp
qed simp

lemma dispatch_covered:
  assumes run: "dispatch_or_fail clock host_ops provider limits policy groups plan indices out (s, w) = Some (r, s', w')"
    and logs: "logs_calls clock provider log" and ext: "p_makes_external_request provider"
    and cov: "covers_calls (el_query_scope limits) log s w"
  shows "covers_calls (el_query_scope limits) log s' w'"
proof -
  let ?rqs = "requests_for_groups groups indices None" and ?scope = "el_query_scope limits"
  obtain x lg s1 w1 where att: "attempt_batch clock host_ops provider limits ?rqs indices (s, w) = Some (x, lg, s1, w1)"
    using run by (auto simp: dispatch_or_fail_def dispatch_def split: option.splits)
  let ?s2 = "account_failure host_ops provider limits (is_err x) lg s1"
  have cov2: "covers_calls ?scope log ?s2 w1" by (rule attempt_batch_covered [OF att logs ext cov])
  show ?thesis
  proof (cases x)
    case (Inl e)
    then show ?thesis using run att covers_same [OF cov2] by (simp add: dispatch_or_fail_def dispatch_def Let_def) auto
  next
    case (Inr y)
    obtain results m where y: "y = (results, m)" by fastforce
    obtain out' s3 w3 where pub: "publish_results clock host_ops provider policy groups plan m results out (?s2, w1) = (out', s3, w3)"
      using prod_cases3 by blast
    have "s' = s3" "w' = w3" using run att Inr y pub by (simp_all add: dispatch_or_fail_def dispatch_def Let_def)
    then show ?thesis using covers_same [OF cov2] publish_results_covered [OF pub logs] by blast
  qed
qed

lemma partition_covered:
  assumes "partition_run clock host_ops provider mx limits policy groups plan indices current out s w r s' w'"
    and logs: "logs_calls clock provider log" and ext: "p_makes_external_request provider"
    and "covers_calls (el_query_scope limits) log s w"
  shows "covers_calls (el_query_scope limits) log s' w'"
  using assms(1,4)
proof (induction rule: partition_run.induct)
  case (sent_last current out s w r s' w')
  then show ?case using dispatch_covered [OF _ logs ext] by blast
next
  case (too_large i e out s w indices)
  then show ?case using covers_same by fastforce
next
  case (sent_failed i current out s w e s' w' indices)
  then show ?case using dispatch_covered [OF _ logs ext] by blast
next
  case (sent_too_large i current out s w out' s' w' e indices)
  then have "covers_calls (el_query_scope limits) log s' w'" using dispatch_covered [OF _ logs ext] by blast
  then show ?case by (rule covers_same) simp_all
next
  case (sent i current out s w out1 s1 w1 indices r s' w')
  then show ?case using dispatch_covered [OF _ logs ext] by blast
qed simp_all

lemma run_partitions_covered:
  "run_partitions clock host_ops provider mx limits policy groups plan ps out (s, w) = Some (r, s', w') \<Longrightarrow>
   logs_calls clock provider log \<Longrightarrow> p_makes_external_request provider \<Longrightarrow>
   covers_calls (el_query_scope limits) log s w \<Longrightarrow> covers_calls (el_query_scope limits) log s' w'"
proof (induction ps arbitrary: out s w)
  case (Cons members ps)
  obtain r1 s1 w1 where one: "run_partition clock host_ops provider mx limits policy groups plan members [] out (s, w)
      = Some (r1, s1, w1)"
    using Cons.prems(1) by (auto split: option.splits)
  note cov1 = partition_covered [OF one [unfolded run_partition_iff] Cons.prems(2-4)]
  then show ?case
    using Cons.prems(1) one Cons.IH [OF _ Cons.prems(2,3) cov1] by (cases r1) auto
qed simp

lemma plan_groups_covered:
  "plan_groups clock host_ops provider limits policy groups indices plan (s, w) = (r, s', w') \<Longrightarrow>
   logs_calls clock provider log \<Longrightarrow> ledger scope s' = ledger scope s \<and> log w' = log w"
proof (induction indices arbitrary: plan s w)
  case (Cons i indices)
  let ?ck = "case policy of None \<Rightarrow> None | Some _ \<Rightarrow> cache_identity_for (groups ! i) provider"
  obtain c s1 w1 where c: "claim_phase clock host_ops (el_query_scope limits) policy ?ck (jg_identity (groups ! i)) (s, w) = (c, s1, w1)"
    using prod_cases3 by blast
  obtain x s2 w2 where one: "plan_group clock host_ops provider limits policy groups i plan (s, w) = (x, s2, w2)"
    using prod_cases3 by blast
  have step: "ledger scope s2 = ledger scope s \<and> log w2 = log w"
    using one claim_phase_covered [OF c Cons.prems(2), of scope] c
    by (auto simp: plan_group_claims Let_def split: if_splits claim.splits)
  then show ?case using Cons.prems(1) one Cons.IH [OF _ Cons.prems(2)] by (cases x) auto
qed simp

lemma await_followers_covered:
  "await_followers host_ops groups fs out s = Some (r, s') \<Longrightarrow> tracks scope U s \<Longrightarrow> tracks scope U s'"
proof (induction fs arbitrary: out s)
  case (Cons f fs)
  obtain i e c where f: "f = (i, e, c)" by (metis prod.exhaust)
  obtain r1 s1 where one: "wait other_threads e c s = Some (r1, s1)"
    using Cons.prems(1) by (auto simp: f split: option.splits)
  note s1 = tracks_wait [OF one Cons.prems(2)]
  then show ?case using Cons.prems(1) one Cons.IH [OF _ s1] by (cases r1) (auto simp: f)
qed simp

lemma execute_covered:
  assumes run: "execute_groups groups clock provider host_ops limits policy (s, w) = Some (r, s', w')
      \<or> execute_batch_groups groups clock provider host_ops mx limits policy (s, w) = Some (r, s', w')"
    and logs: "logs_calls clock provider log" and ext: "p_makes_external_request provider"
    and cov: "covers_calls (el_query_scope limits) log s w"
  shows "covers_calls (el_query_scope limits) log s' w'"
  using run
proof
  assume "execute_groups groups clock provider host_ops limits policy (s, w) = Some (r, s', w')"
  then show ?thesis
    using cov execute_each_covered [OF _ logs ext cov] by (auto simp: execute_groups_def split: if_splits)
next
  assume "execute_batch_groups groups clock provider host_ops mx limits policy (s, w) = Some (r, s', w')"
  then show ?thesis
  proof (cases rule: execute_batch_groups_cases)
    case refused
    then show ?thesis using cov by simp
  next
    case unplanned
    then show ?thesis using covers_same [OF cov] plan_groups_covered [OF _ logs] by blast
  next
    case (failed e plan s1 w1)
    have "covers_calls (el_query_scope limits) log s1 w1"
      using covers_same [OF cov] plan_groups_covered [OF failed(2) logs] by blast
    from run_partitions_covered [OF failed(3) logs ext this] show ?thesis .
  next
    case (awaited plan s1 w1 out s2)
    have "covers_calls (el_query_scope limits) log s1 w1"
      using covers_same [OF cov] plan_groups_covered [OF awaited(1) logs] by blast
    from run_partitions_covered [OF awaited(2) logs ext this] show ?thesis
      using await_followers_covered [OF awaited(3)] by (simp add: covers_calls_def)
  qed
qed

section \<open>A whole query\<close>

text \<open>
  A query in optimized mode, from \<open>begin_query\<close> on: executions of its chunks by either executor, what
  the SQL functions record around them, and other threads' steps in between. Whatever provider an
  execution uses makes external requests and has its calls logged.
\<close>

inductive query_run ::
  "('w \<Rightarrow> instant \<times> 'w) \<Rightarrow> ('w \<Rightarrow> call list) \<Rightarrow> u64 \<Rightarrow> connection_runtime \<Rightarrow> 'w \<Rightarrow> bool"
  for clock log scope where
  begun: "query_run clock log scope (begin_query now s) w"
    if "scope = cr_next_query_id s" "unat scope + length (concat (cr_pending s)) + 1 < 2 ^ 64" "log w = []"
| single: "query_run clock log scope s' w'"
    if "query_run clock log scope s w" "logs_calls clock provider log" "p_makes_external_request provider"
      "el_query_scope limits = scope" "execute_groups groups clock provider host_ops limits policy (s, w) = Some (r, s', w')"
| batched: "query_run clock log scope s' w'"
    if "query_run clock log scope s w" "logs_calls clock provider log" "p_makes_external_request provider"
      "el_query_scope limits = scope"
      "execute_batch_groups groups clock provider host_ops mx limits policy (s, w) = Some (r, s', w')"
| recorded_rows: "query_run clock log scope (record_optimized_rows scope a b c d s) w" if "query_run clock log scope s w"
| recorded_context: "query_run clock log scope (record_profile_context scope p m t s) w" if "query_run clock log scope s w"
| resolved_credential: "query_run clock log scope (snd (credential_scope scope credential s)) w" if "query_run clock log scope s w"
| others: "query_run clock log scope (other_threads s) w" if "query_run clock log scope s w"

lemma covers_begin:
  assumes "scope = cr_next_query_id s" "unat scope + length (concat (cr_pending s)) + 1 < 2 ^ 64" "log w = []"
  shows "covers_calls scope log (begin_query now s) w"
proof -
  have "unat (scope + 1) = Suc (unat scope)" using assms(2) by (intro unat_next) simp
  then show ?thesis
    using assms by (auto simp: covers_calls_def tracks_def tracks_for_def noted_def query_usage_def active_scope_def
        begin_query_def Let_def store_flag_def usage_fields_def default_counts_def word_less_nat_alt split: option.splits)
qed

lemma ledger_context [simp]:
  "ledger scope (record_optimized_rows q a b c d s) = ledger scope s"
  "ledger scope (record_profile_context q p m t s) = ledger scope s"
  "ledger scope (snd (credential_scope q credential s)) = ledger scope s"
proof -
  show "ledger scope (record_optimized_rows q a b c d s) = ledger scope s"
    unfolding record_optimized_rows_def by (rule ledger_update) (simp add: usage_fields_def)
  show "ledger scope (record_profile_context q p m t s) = ledger scope s"
    by (auto simp: ledger_def record_profile_context_def query_usage_def update_query_def active_scope_def split: option.splits)
  show "ledger scope (snd (credential_scope q credential s)) = ledger scope s"
    by (auto simp: ledger_def query_usage_def credential_scope_def active_scope_def take_scope_def Let_def split: option.split)
qed

lemma query_run_covers: "query_run clock log scope s w \<Longrightarrow> covers_calls scope log s w"
proof (induction rule: query_run.induct)
  case begun
  then show ?case by (rule covers_begin)
next
  case (single s w provider limits groups policy r s' w')
  then show ?case using execute_covered [of groups clock provider limits policy s w r s' w'] by blast
next
  case (batched s w provider limits groups mx policy r s' w')
  then show ?case using execute_covered [of groups clock provider limits policy s w r s' w' mx] by blast
next
  case others
  then show ?case by (simp add: covers_calls_def tracks_others)
qed (use covers_same in \<open>fastforce simp: covers_calls_def\<close>)+

text \<open>What the profile makes of counters that follow a list of calls.\<close>

lemma noted_report:
  assumes c: "usage_fields c = foldl note_sent (0, 0, 0, 0, None, None) calls" and len: "length calls < 2 ^ 64"
  shows "usage_complete c \<longleftrightarrow> calls \<noteq> [] \<and> (\<forall>r \<in> set calls. usage_of r \<noteq> None)"
    and "usage_complete c \<Longrightarrow> usage_input c = Some (saturated (token_total fst calls))
         \<and> usage_output c = Some (saturated (token_total snd calls))"
    and "pr_counts report = c \<Longrightarrow> cost_unknown_reason report = '''' \<longleftrightarrow> typesafe_priced report \<and> calls \<noteq> []
            \<and> (\<forall>r \<in> set calls. is_answered r \<and> usage_of r \<noteq> None)"
proof -
  note fields = c [unfolded note_all_sent [OF len] usage_fields_def, simplified]
  have sent: "0 < how_many (\<lambda>_. True) calls \<longleftrightarrow> calls \<noteq> []"
    using how_many_zero [OF len, of "\<lambda>_. True"] by (cases calls) (auto simp: word_greater_zero_iff)
  have answered: "responded r" if "usage_of r \<noteq> None" for r using that by (cases r) (simp_all add: responded_def)
  show complete: "usage_complete c \<longleftrightarrow> calls \<noteq> [] \<and> (\<forall>r \<in> set calls. usage_of r \<noteq> None)"
    unfolding usage_complete_def using fields sent how_many_zero [OF len] how_many_all [OF len] answered by auto
  have totals: "qc_input_tokens c = Some (saturated (token_total fst calls))"
    "qc_output_tokens c = Some (saturated (token_total snd calls))" if "usage_complete c"
    using that fields unfolding complete by (cases calls; auto simp: tokens_of_def)+
  then show "usage_complete c \<Longrightarrow> usage_input c = Some (saturated (token_total fst calls))
         \<and> usage_output c = Some (saturated (token_total snd calls))"
    by (simp add: usage_input_def usage_output_def)
  have failed: "0 < qc_failed_requests c \<longleftrightarrow> (\<exists>r \<in> set calls. \<not> is_answered r)"
    using fields how_many_zero [OF len] by (auto simp: word_greater_zero_iff)
  show "cost_unknown_reason report = '''' \<longleftrightarrow> typesafe_priced report \<and> calls \<noteq> []
      \<and> (\<forall>r \<in> set calls. is_answered r \<and> usage_of r \<noteq> None)" if "pr_counts report = c"
    using that totals failed fields sent complete
    by (auto simp: cost_unknown_reason_def Let_def usage_input_def word_greater_zero_iff)
qed

text \<open>C18: In optimized mode, usage and cost are reported only when they cover every call the query made
  of its providers. At any point of a query, whose chunks both executors may have run with any outcome and
  other threads may have interrupted, the profile's usage is complete exactly when a call was made and every
  call brought a response with both token counts; the token counts are then the sums over all calls, capped
  at the largest 64-bit number; and a cost is estimated exactly when in addition the provider is the priced
  one and every response was a valid answer to what was asked. The calls are those of providers that make
  external requests, as recorded by the world; only the requests of the thread in question are followed, the
  other threads' steps being those of \<open>host_action\<close>. The query must not have made \<open>2 ^ 64\<close> calls.\<close>

theorem usage_and_cost_cover_everything_sent:
  assumes "query_run clock log scope s w" and "active_scope scope s = Some q" and "length (log w) < 2 ^ 64"
  shows "(usage_complete (aq_counts q) \<longleftrightarrow> log w \<noteq> [] \<and> (\<forall>c \<in> set (log w). usage_of (sent_of c) \<noteq> None))
    \<and> (usage_complete (aq_counts q) \<longrightarrow>
         usage_input (aq_counts q) = Some (saturated (token_total fst (map sent_of (log w))))
         \<and> usage_output (aq_counts q) = Some (saturated (token_total snd (map sent_of (log w)))))
    \<and> (\<forall>report. pr_counts report = aq_counts q \<longrightarrow>
         (cost_unknown_reason report = '''' \<longleftrightarrow> typesafe_priced report \<and> log w \<noteq> []
            \<and> (\<forall>c \<in> set (log w). is_answered (sent_of c) \<and> usage_of (sent_of c) \<noteq> None)))"
proof -
  have "usage_fields (aq_counts q) = foldl note_sent (0, 0, 0, 0, None, None) (map sent_of (log w))"
    using query_run_covers [OF assms(1)] assms(2)
    by (simp add: covers_calls_def tracks_def tracks_for_def noted_def query_usage_def)
  from noted_report [OF this] assms(3) show ?thesis by auto
qed

text \<open>
  A provider that chooses the first label and reports token counts; its world keeps the calls.
\<close>

definition first_labels :: "judgment_request list \<Rightarrow> provider_batch_result result" where
  "first_labels rqs = Inr
     \<lparr>br_answers = map (\<lambda>rq. \<lparr>pa_request_key = rq_request_key rq, pa_result = Choice (hd (rq_choices rq))\<rparr>) rqs,
      br_metadata = default_metadata\<lparr>pm_usage := Some \<lparr>pu_input_tokens = Some 7, pu_output_tokens = Some 2\<rparr>\<rparr>\<rparr>"

definition metered_provider :: "(nat \<times> call list) provider" where
  "metered_provider =
     \<lparr>p_capabilities = mock_capabilities, p_makes_external_request = True,
      p_judge = (\<lambda>rq w. (Inr (Choice (hd (rq_choices rq))), w)),
      p_judge_with_metadata = (\<lambda>rq (n, calls). (first_labels [rq], n, calls @ [([rq], first_labels [rq])])),
      p_cache_model_identity = (\<lambda>_. None), p_estimate_request_bytes = (\<lambda>_. 0),
      p_judge_many = (\<lambda>rqs (n, calls). (first_labels rqs, n, calls @ [(rqs, first_labels rqs)]))\<rparr>"

definition metered_tick :: "nat \<times> call list \<Rightarrow> instant \<times> nat \<times> call list" where
  "metered_tick = (\<lambda>(n, calls). (n, Suc n, calls))"

lemma metered_logs: "logs_calls metered_tick metered_provider snd"
  by (simp add: logs_calls_def metered_tick_def metered_provider_def split: prod.split)

theorem usage_and_cost_witness:
  "\<exists>out s w q. execute_groups sample_groups metered_tick metered_provider host_ops sample_limits None
       (sample_runtime, 0, []) = Some (Inr out, s, w)
     \<and> active_scope 0 s = Some q \<and> snd w \<noteq> [] \<and> usage_complete (aq_counts q) \<and> usage_input (aq_counts q) = Some 7"
proof -
  have "case execute_groups sample_groups metered_tick metered_provider host_ops sample_limits None (sample_runtime, 0, []) of
      Some (Inr out, s, w) \<Rightarrow> map sent_of (snd w) = [Answered (default_metadata\<lparr>pm_usage
          := Some \<lparr>pu_input_tokens = Some 7, pu_output_tokens = Some 2\<rparr>\<rparr>)]
        \<and> (case active_scope 0 s of Some _ \<Rightarrow> True | None \<Rightarrow> False) | _ \<Rightarrow> False" by code_simp
  from run_ok [OF this] obtain out s w q where run: "execute_groups sample_groups metered_tick metered_provider host_ops
      sample_limits None (sample_runtime, 0, []) = Some (Inr out, s, w)"
    and calls: "map sent_of (snd w) = [Answered (default_metadata\<lparr>pm_usage
          := Some \<lparr>pu_input_tokens = Some 7, pu_output_tokens = Some 2\<rparr>\<rparr>)]"
    and q: "active_scope 0 s = Some q" by (auto split: option.splits)
  have "query_run metered_tick snd 0 sample_runtime (0, [])"
    unfolding sample_runtime_def by (rule query_run.begun) (simp_all add: default_runtime_def)
  then have reach: "query_run metered_tick snd 0 s w"
    by (rule query_run.single [OF _ metered_logs _ _ run]) (simp_all add: metered_provider_def sample_limits_def)
  have len: "length (snd w) = 1" using arg_cong [OF calls, of length] by simp
  then obtain c where c: "snd w = [c]" by (auto simp: length_Suc_conv)
  have "usage_complete (aq_counts q) \<and> usage_input (aq_counts q) = Some 7"
    using usage_and_cost_cover_everything_sent [OF reach q] calls
    by (simp add: c reported_usage_def default_metadata_def token_total_def saturated_def)
  moreover have "snd w \<noteq> []" by (simp add: c)
  ultimately show ?thesis using run q by blast
qed

end
