(* ===== verification/Host_Lifecycle.thy ===== *)
theory Host_Lifecycle
  imports Host_Progress
begin

text \<open>
  The connection runtime of \<open>src/host/mod.rs\<close> as a state machine: every operation that any thread may
  perform on it is a step, and the invariants of the states reachable from a new connection are proved
  by rule induction. \<open>held\<close>, which is not in the code, counts the request slots in the hands of threads;
  a slot is given back by the thread that took it, when its \<open>InflightPermit\<close> is dropped.
\<close>

section \<open>Steps\<close>

record host_machine =
  hm_runtime :: connection_runtime
  hm_held :: nat

text \<open>
  \<open>limit\<close> bounds the settings of \<open>duckjeu_max_inflight\<close> used on the connection. Taking a slot is a run of
  \<open>pool_acquire\<close> that returns with a permit; while it sleeps the other threads move by steps of their own,
  so that it sees no change of its own making, and a run that finds no slot is no step at all.
\<close>

inductive host_step :: "usize \<Rightarrow> host_machine \<Rightarrow> host_machine \<Rightarrow> bool" for limit where
  start: "host_step limit m (m\<lparr>hm_runtime := begin_query now (hm_runtime m)\<rparr>)"
| finish: "host_step limit m (m\<lparr>hm_runtime := end_query interrupt error_type now (hm_runtime m)\<rparr>)"
| claim: "host_step limit m (m\<lparr>hm_runtime := snd (claim_query_entry scope k (hm_runtime m))\<rparr>)"
| complete: "host_step limit m (m\<lparr>hm_runtime := complete r e (hm_runtime m)\<rparr>)"
| lookup: "host_step limit m (m\<lparr>hm_runtime := snd (adapter_cache_lookup ck now policy (hm_runtime m))\<rparr>)"
| insert: "host_step limit m (m\<lparr>hm_runtime := adapter_cache_insert k v now policy (hm_runtime m)\<rparr>)"
| credential: "host_step limit m (m\<lparr>hm_runtime := snd (credential_scope scope credential (hm_runtime m))\<rparr>)"
| count: "host_step limit m (m\<lparr>hm_runtime := update_counts scope f (hm_runtime m)\<rparr>)"
| profile: "host_step limit m (m\<lparr>hm_runtime := record_profile_context scope provider model timed (hm_runtime m)\<rparr>)"
| acquire: "host_step limit m (m\<lparr>hm_runtime := s, hm_held := Suc (hm_held m)\<rparr>)"
  if "pool_acquire (\<lambda>s. s) max_inflight cancelled (hm_runtime m) = Some (Inr permit, s)" "max_inflight \<le> limit"
| release: "host_step limit m (m\<lparr>hm_runtime := drop_permit (hm_runtime m), hm_held := hm_held m - 1\<rparr>)"
  if "0 < hm_held m"

inductive host_reachable :: "usize \<Rightarrow> host_machine \<Rightarrow> bool" for limit where
  connect: "host_reachable limit \<lparr>hm_runtime = default_runtime scope hasher pending, hm_held = 0\<rparr>"
| step: "host_reachable limit m \<Longrightarrow> host_step limit m m' \<Longrightarrow> host_reachable limit m'"


section \<open>Invariants\<close>

text \<open>The fields the invariants speak of.\<close>

definition lifecycle_fields ::
  "connection_runtime \<Rightarrow> (u64 \<times> flag_ref) option \<times> (flag_ref \<Rightarrow> bool) \<times> flag_ref \<times> permit_state" where
  "lifecycle_fields s = (map_option (\<lambda>q. (aq_query_id q, aq_cancelled q)) (cr_active_query s), qh_flags s, qh_next_flag s, cr_inflight s)"

lemma lifecycle_fields_simps [simp]:
  "lifecycle_fields (update_counts scope f s) = lifecycle_fields s"
  "lifecycle_fields (record_profile_context scope provider model timed s) = lifecycle_fields s"
  "lifecycle_fields (snd (claim_query_entry scope k s)) = lifecycle_fields s"
  "lifecycle_fields (complete r e s) = lifecycle_fields s"
  "lifecycle_fields (snd (adapter_cache_lookup ck now policy s)) = lifecycle_fields s"
  "lifecycle_fields (adapter_cache_insert k v now policy s) = lifecycle_fields s"
  "lifecycle_fields (snd (credential_scope scope credential s)) = lifecycle_fields s"
  by (simp_all add: lifecycle_fields_def update_counts_def update_query_def active_scope_def
      record_profile_context_def claim_query_entry_def new_query_entry_def complete_def adapter_cache_lookup_def
      adapter_cache_insert_def credential_scope_def take_scope_def Let_def
      split: option.split prod.split bool.split)

text \<open>
  Flags: the one of the running query is clear, every other flag ever handed out is set.
\<close>

definition flags_ok :: "(u64 \<times> flag_ref) option \<Rightarrow> (flag_ref \<Rightarrow> bool) \<Rightarrow> flag_ref \<Rightarrow> bool" where
  "flags_ok running flags next_flag \<longleftrightarrow>
     (\<forall>f < next_flag. flags f \<longleftrightarrow> (\<forall>i. running \<noteq> Some (i, f))) \<and> (\<forall>i f. running = Some (i, f) \<longrightarrow> f < next_flag)"

definition slots_ok :: "usize \<Rightarrow> nat \<Rightarrow> permit_state \<Rightarrow> bool" where
  "slots_ok limit held ps \<longleftrightarrow> unat (ps_active ps) = held \<and> ps_active ps \<le> ps_peak ps \<and> ps_peak ps \<le> limit"

definition machine_ok :: "usize \<Rightarrow> host_machine \<Rightarrow> bool" where
  "machine_ok limit m \<longleftrightarrow>
     (case lifecycle_fields (hm_runtime m) of (running, flags, next_flag, ps) \<Rightarrow>
        flags_ok running flags next_flag \<and> slots_ok limit (hm_held m) ps)"

lemma machine_ok_frame:
  "lifecycle_fields s' = lifecycle_fields (hm_runtime m) \<Longrightarrow> machine_ok limit m \<Longrightarrow> machine_ok limit (m\<lparr>hm_runtime := s'\<rparr>)"
  by (simp add: machine_ok_def)

lemma machine_ok_begin: "machine_ok limit m \<Longrightarrow> machine_ok limit (m\<lparr>hm_runtime := begin_query now (hm_runtime m)\<rparr>)"
  by (auto simp: machine_ok_def lifecycle_fields_def flags_ok_def begin_query_def store_flag_def Let_def less_Suc_eq
      split: option.splits)

lemma machine_ok_finish:
  "machine_ok limit m \<Longrightarrow> machine_ok limit (m\<lparr>hm_runtime := end_query interrupt error_type now (hm_runtime m)\<rparr>)"
  by (auto simp: machine_ok_def lifecycle_fields_def flags_ok_def end_query_def store_flag_def Let_def
      split: option.splits)

lemma pool_acquire_permit:
  assumes "pool_acquire (\<lambda>s. s) n c s = Some (Inr permit, s')"
  shows "ps_active (cr_inflight s) < n \<and> s' = s\<lparr>cr_inflight := take_permit (cr_inflight s)\<rparr>"
proof -
  have "((\<lambda>s. s) ^^ m) s = s" for m and s :: connection_runtime by (induction m) simp_all
  then show ?thesis
    using assms acquire_loop_steps [of "\<lambda>s. s" n c s] by (auto simp: pool_acquire_def split: if_splits)
qed

lemma slots_ok_take:
  assumes "slots_ok limit held ps" "ps_active ps < max_inflight" "max_inflight \<le> limit"
  shows "slots_ok limit (Suc held) (take_permit ps)"
proof -
  have next_active: "unat (ps_active ps + 1) = Suc (unat (ps_active ps))"
    using assms(2) unat_less_64 [of max_inflight] by (simp add: unat_word_ariths word_less_nat_alt)
  then have "ps_active ps + 1 \<le> limit"
    using assms(2,3) by (simp add: word_le_nat_alt word_less_nat_alt)
  with next_active show ?thesis
    using assms(1) by (auto simp: slots_ok_def take_permit_def Let_def max_def)
qed

lemma slots_ok_drop:
  assumes "slots_ok limit held ps" "0 < held"
  shows "slots_ok limit (held - 1) (ps\<lparr>ps_active := sat_sub (ps_active ps) 1\<rparr>)"
proof -
  have one: "1 \<le> ps_active ps" "unat (ps_active ps - 1) = held - 1"
    using assms by (auto simp: slots_ok_def word_le_nat_alt unat_sub)
  then have "ps_active ps - 1 \<le> ps_active ps" using assms(1) by (simp add: word_le_nat_alt slots_ok_def)
  with one show ?thesis
    using assms(1) by (auto simp: slots_ok_def sat_sub_def)
qed

lemma machine_ok_reachable: "host_reachable limit m \<Longrightarrow> machine_ok limit m"
proof (induction rule: host_reachable.induct)
  case (connect scope hasher pending)
  then show ?case
    by (simp add: machine_ok_def lifecycle_fields_def default_runtime_def flags_ok_def slots_ok_def)
next
  case (step m m')
  from step.hyps(2) step.IH show ?case
  proof (cases rule: host_step.cases)
    case (acquire max_inflight cancelled permit s)
    then show ?thesis
      using step.IH slots_ok_take pool_acquire_permit [OF acquire(2)] by (auto simp: machine_ok_def lifecycle_fields_def)
  next
    case release
    then show ?thesis using step.IH slots_ok_drop by (auto simp: machine_ok_def lifecycle_fields_def drop_permit_def)
  qed (auto intro: machine_ok_frame machine_ok_begin machine_ok_finish)
qed

section \<open>Properties\<close>

text \<open>C15: Request slots are bounded and none is lost. On a connection whose settings of
  \<open>duckjeu_max_inflight\<close> never exceed a limit, and whatever sequence of operations its threads perform,
  \<open>pool_acquire\<close> and the drop of its permits among them, the pool counts exactly the slots that threads
  hold, and neither that number nor its recorded peak ever exceeds the limit.\<close>

theorem request_slots_bounded:
  assumes "host_reachable limit m"
  shows "unat (ps_active (cr_inflight (hm_runtime m))) = hm_held m
    \<and> ps_active (cr_inflight (hm_runtime m)) \<le> ps_peak (cr_inflight (hm_runtime m))
    \<and> ps_peak (cr_inflight (hm_runtime m)) \<le> limit"
  using machine_ok_reachable [OF assms] by (simp add: machine_ok_def lifecycle_fields_def slots_ok_def)

text \<open>C16: Ending a query releases everything that waits for it. In every reachable state, a thread that
  still waits on behalf of a query other than the running one, be it for a shared result or for a request
  slot, stops waiting at its next check whatever other threads do, with the cancellation error unless the
  shared result has arrived; and a thread of the running query is not told that it was cancelled.\<close>

theorem ended_queries_release_waiters:
  assumes "host_reachable limit m" and "f < qh_next_flag (hm_runtime m)"
  shows "if \<exists>q. cr_active_query (hm_runtime m) = Some q \<and> aq_cancelled q = f
    then \<not> qh_flags (hm_runtime m) f
    else (\<exists>r. wait others e f (hm_runtime m) = Some (r, hm_runtime m)
            \<and> (case qh_slots (hm_runtime m) e of Some r' \<Rightarrow> r = r'
               | None \<Rightarrow> r = Inl (provider_error ''query was cancelled while awaiting a judgment'')))
      \<and> (\<exists>e'. pool_acquire others' n f (hm_runtime m) = Some (Inl e', hm_runtime m))"
proof -
  have flags: "qh_flags (hm_runtime m) f \<longleftrightarrow> \<not> (\<exists>q. cr_active_query (hm_runtime m) = Some q \<and> aq_cancelled q = f)"
    using machine_ok_reachable [OF assms(1)] assms(2)
    by (auto simp: machine_ok_def lifecycle_fields_def flags_ok_def)
  show ?thesis
  proof (cases "qh_flags (hm_runtime m) f")
    case True
    then have "pool_acquire others' n f (hm_runtime m) = Some (if n = 0
        then (Inl (configuration ''duckjeu_max_inflight must be positive''), hm_runtime m)
        else (Inl (provider_error ''query was cancelled while waiting for an external request slot''), hm_runtime m))"
      by (simp add: pool_acquire_def acquire_loop.simps)
    then show ?thesis
      using True flags by (auto simp: wait.simps [of others e f] split: option.split)
  next
    case False
    then show ?thesis using flags by auto
  qed
qed

section \<open>A concrete connection\<close>

definition new_machine :: host_machine where
  "new_machine = \<lparr>hm_runtime = default_runtime 1 (\<lambda>_. 0) [], hm_held = 0\<rparr>"

definition one_slot_taken :: host_machine where
  "one_slot_taken = (let m = new_machine\<lparr>hm_runtime := begin_query 0 (hm_runtime new_machine)\<rparr>
     in m\<lparr>hm_runtime := (hm_runtime m)\<lparr>cr_inflight := take_permit (cr_inflight (hm_runtime m))\<rparr>, hm_held := Suc (hm_held m)\<rparr>)"

lemma one_slot_taken_reachable: "host_reachable 1 one_slot_taken"
proof -
  have new: "host_reachable 1 new_machine" unfolding new_machine_def by (rule connect)
  note begun = host_reachable.step [OF new host_step.start [of _ _ 0]]
  show ?thesis unfolding one_slot_taken_def Let_def
    by (rule host_reachable.step [OF begun host_step.acquire [of 1 0 _ 0]])
      (simp_all add: new_machine_def default_runtime_def begin_query_def store_flag_def Let_def pool_acquire_def
        acquire_loop.simps)
qed

theorem request_slots_witness: "hm_held one_slot_taken = 1 \<and> ps_active (cr_inflight (hm_runtime one_slot_taken)) \<le> 1"
  using request_slots_bounded [OF one_slot_taken_reachable] by (auto simp: one_slot_taken_def new_machine_def Let_def)

theorem ended_queries_witness:
  "wait id 0 0 (end_query 9 0 1 (hm_runtime one_slot_taken))
     = Some (Inl (provider_error ''query was cancelled while awaiting a judgment''), end_query 9 0 1 (hm_runtime one_slot_taken))"
proof -
  let ?m = "one_slot_taken\<lparr>hm_runtime := end_query 9 0 1 (hm_runtime one_slot_taken)\<rparr>"
  have "host_reachable 1 ?m" by (rule host_reachable.step [OF one_slot_taken_reachable host_step.finish])
  moreover have "0 < qh_next_flag (hm_runtime ?m)" "cr_active_query (hm_runtime ?m) = None" "qh_slots (hm_runtime ?m) 0 = None"
    by (simp_all add: one_slot_taken_def new_machine_def default_runtime_def begin_query_def end_query_def store_flag_def Let_def)
  ultimately show ?thesis
    using ended_queries_release_waiters [of 1 ?m 0 id 0 id 1] by auto
qed

end
