(* ===== verification/Bridge.thy ===== *)
theory Bridge
  imports Host
begin

text \<open>
  The bridge between DuckDB's client contexts and the connection runtimes: the handle functions of
  \<open>src/host/mod.rs\<close>, \<open>src/host/connection.rs\<close> and the client-context state of
  \<open>src/host/client_context.cpp\<close>. A handle is the address of a box that holds an \<open>Arc\<close> of a runtime; the
  model keeps the live boxes, the runtimes with their strong counts, and who owns an \<open>Arc\<close> without a box.
  Using or freeing a dead address, or an \<open>Arc\<close> of a freed runtime, is undefined behaviour: the value None.
\<close>

section \<open>State\<close>

type_synonym handle = nat
type_synonym runtime_ref = nat

text \<open>A client context is named by a number; its state, once attached, is its \<open>runtime_state\<close> pointer.\<close>

type_synonym context_ref = nat

record bridge =
  bs_next_handle :: handle
  bs_boxes :: "(handle \<times> runtime_ref) list"
  bs_next_runtime :: runtime_ref
  bs_runtimes :: "runtime_ref \<Rightarrow> (nat \<times> connection_runtime) option"
  bs_contexts :: "context_ref \<Rightarrow> handle option option"
  bs_owned :: "runtime_ref list"
  bs_wrappers :: nat

definition empty_bridge :: bridge where
  "empty_bridge = \<lparr>bs_next_handle = 0, bs_boxes = [], bs_next_runtime = 0, bs_runtimes = (\<lambda>_. None),
     bs_contexts = (\<lambda>_. None), bs_owned = [], bs_wrappers = 0\<rparr>"

section \<open>Boxes and strong counts\<close>

definition new_box :: "runtime_ref \<Rightarrow> bridge \<Rightarrow> handle \<times> bridge" where
  "new_box r b = (bs_next_handle b,
     b\<lparr>bs_next_handle := Suc (bs_next_handle b), bs_boxes := (bs_next_handle b, r) # bs_boxes b\<rparr>)"

text \<open>\<open>Box::from_raw\<close>: the box is gone, its \<open>Arc\<close> is the caller's.\<close>

definition from_raw :: "handle \<Rightarrow> bridge \<Rightarrow> (runtime_ref \<times> bridge) option" where
  "from_raw h b =
     (case map_of (bs_boxes b) h of
        None \<Rightarrow> None
      | Some r \<Rightarrow> Some (r, b\<lparr>bs_boxes := filter (\<lambda>(k, _). k \<noteq> h) (bs_boxes b)\<rparr>))"

definition arc_clone :: "runtime_ref \<Rightarrow> bridge \<Rightarrow> bridge option" where
  "arc_clone r b =
     (case bs_runtimes b r of
        None \<Rightarrow> None
      | Some (n, s) \<Rightarrow> Some (b\<lparr>bs_runtimes := (bs_runtimes b)(r \<mapsto> (Suc n, s))\<rparr>))"

definition arc_drop :: "runtime_ref \<Rightarrow> bridge \<Rightarrow> bridge option" where
  "arc_drop r b =
     (case bs_runtimes b r of
        None \<Rightarrow> None
      | Some (n, s) \<Rightarrow> Some (b\<lparr>bs_runtimes := (bs_runtimes b)(r := if n = 1 then None else Some (n - 1, s))\<rparr>))"

section \<open>The handle functions\<close>

definition host_state_create :: "connection_runtime \<Rightarrow> bridge \<Rightarrow> handle option \<times> bridge" where
  "host_state_create fresh b =
     (let r = bs_next_runtime b;
          b = b\<lparr>bs_next_runtime := Suc r, bs_runtimes := (bs_runtimes b)(r \<mapsto> (1, fresh))\<rparr>;
          (h, b) = new_box r b
      in (Some h, b))"

definition host_state_clone :: "handle option \<Rightarrow> bridge \<Rightarrow> (handle option \<times> bridge) option" where
  "host_state_clone ptr b =
     (case ptr of
        None \<Rightarrow> Some (None, b)
      | Some h \<Rightarrow>
          (case map_of (bs_boxes b) h of
             None \<Rightarrow> None
           | Some r \<Rightarrow> Option.bind (arc_clone r b) (\<lambda>b. let (h, b) = new_box r b in Some (Some h, b))))"

definition host_state_drop :: "handle option \<Rightarrow> bridge \<Rightarrow> bridge option" where
  "host_state_drop ptr b =
     (case ptr of
        None \<Rightarrow> Some b
      | Some h \<Rightarrow> Option.bind (from_raw h b) (\<lambda>(r, b). arc_drop r b))"

text \<open>The callback runs on the runtime under its lock; \<open>catch_unwind\<close> keeps a panic from crossing.\<close>

definition on_runtime :: "runtime_ref \<Rightarrow> (connection_runtime \<Rightarrow> connection_runtime) \<Rightarrow> bridge \<Rightarrow> bridge option" where
  "on_runtime r f b =
     (case bs_runtimes b r of
        None \<Rightarrow> None
      | Some (n, s) \<Rightarrow> Some (b\<lparr>bs_runtimes := (bs_runtimes b)(r \<mapsto> (n, f s))\<rparr>))"

definition with_handle :: "handle option \<Rightarrow> (connection_runtime \<Rightarrow> connection_runtime) \<Rightarrow> bridge \<Rightarrow> bridge option" where
  "with_handle ptr f b =
     (case ptr of
        None \<Rightarrow> Some b
      | Some h \<Rightarrow> (case map_of (bs_boxes b) h of None \<Rightarrow> None | Some r \<Rightarrow> on_runtime r f b))"

definition host_query_begin :: "instant \<Rightarrow> handle option \<Rightarrow> bridge \<Rightarrow> bridge option" where
  "host_query_begin now ptr = with_handle ptr (begin_query now)"

definition host_query_end :: "u32 \<Rightarrow> u32 \<Rightarrow> instant \<Rightarrow> handle option \<Rightarrow> bridge \<Rightarrow> bridge option" where
  "host_query_end interrupt error_type now ptr = with_handle ptr (end_query interrupt error_type now)"

text \<open>DuckDB's code for an invalid type is a parameter; error data is given by its error type.\<close>

definition host_error_type :: "u32 \<Rightarrow> u32 option \<Rightarrow> u32" where
  "host_error_type invalid_type error_data = (case error_data of None \<Rightarrow> invalid_type | Some t \<Rightarrow> t)"

section \<open>The client-context state\<close>

text \<open>
  The constructor: a runtime of its own, with a query begun for the scalar functions initialised before
  the first \<open>QueryBegin\<close>. The destructor drops the handle.
\<close>

definition attach_state :: "connection_runtime \<Rightarrow> instant \<Rightarrow> context_ref \<Rightarrow> bridge \<Rightarrow> bridge option" where
  "attach_state fresh now ctx b =
     (let (ptr, b) = host_state_create fresh b
      in Option.bind (host_query_begin now ptr b) (\<lambda>b. Some (b\<lparr>bs_contexts := (bs_contexts b)(ctx \<mapsto> ptr)\<rparr>)))"

definition destroy_state :: "context_ref \<Rightarrow> bridge \<Rightarrow> bridge option" where
  "destroy_state ctx b =
     (case bs_contexts b ctx of
        None \<Rightarrow> Some b
      | Some ptr \<Rightarrow> host_state_drop ptr (b\<lparr>bs_contexts := (bs_contexts b)(ctx := None)\<rparr>))"

text \<open>DuckDB's callbacks on an attached state; \<open>error\<close> is the error type of the query's error, if any.\<close>

definition query_begin_callback :: "instant \<Rightarrow> context_ref \<Rightarrow> bridge \<Rightarrow> bridge option" where
  "query_begin_callback now ctx b =
     (case bs_contexts b ctx of None \<Rightarrow> Some b | Some ptr \<Rightarrow> host_query_begin now ptr b)"

definition query_end_callback :: "u32 \<Rightarrow> u32 \<Rightarrow> u32 option \<Rightarrow> instant \<Rightarrow> context_ref \<Rightarrow> bridge \<Rightarrow> bridge option" where
  "query_end_callback interrupt invalid_type err now ctx b =
     (let error_type = (case err of None \<Rightarrow> 0 | Some t \<Rightarrow> host_error_type invalid_type (Some t))
      in case bs_contexts b ctx of
           None \<Rightarrow> Some b
         | Some ptr \<Rightarrow> host_query_end interrupt error_type now ptr b)"

text \<open>
  \<open>usable\<close> says whether the context has a state manager and DuckDB does not throw; \<open>GetOrCreate\<close> attaches
  a state at the first call.
\<close>

definition context_state_acquire ::
  "bool \<Rightarrow> connection_runtime \<Rightarrow> instant \<Rightarrow> context_ref \<Rightarrow> bridge \<Rightarrow> (handle option \<times> bridge) option" where
  "context_state_acquire usable fresh now ctx b =
     (if \<not> usable then Some (None, b)
      else Option.bind (if bs_contexts b ctx = None then attach_state fresh now ctx b else Some b) (\<lambda>b.
        case the (bs_contexts b ctx) of
          None \<Rightarrow> Some (None, b)
        | Some h \<Rightarrow> host_state_clone (Some h) b))"

section \<open>Acquiring the runtime for a function\<close>

text \<open>The \<open>Arc\<close> is moved out of the box; \<open>built\<close> says whether the bridge was compiled in.\<close>

definition acquire_connection_runtime ::
  "bool \<Rightarrow> bool \<Rightarrow> connection_runtime \<Rightarrow> instant \<Rightarrow> context_ref option \<Rightarrow> bridge \<Rightarrow> (runtime_ref option \<times> bridge) option" where
  "acquire_connection_runtime built usable fresh now ctx b =
     (case ctx of
        None \<Rightarrow> Some (None, b)
      | Some ctx \<Rightarrow>
          if \<not> built then Some (None, b)
          else Option.bind (context_state_acquire usable fresh now ctx b) (\<lambda>(ptr, b).
            case ptr of
              None \<Rightarrow> Some (None, b)
            | Some h \<Rightarrow> Option.bind (from_raw h b) (\<lambda>(r, b). Some (Some r, b))))"

text \<open>\<open>OwnedClientContext\<close> destroys the wrapper DuckDB handed out, on every path.\<close>

definition runtime_for_scalar_init ::
  "bool \<Rightarrow> bool \<Rightarrow> connection_runtime \<Rightarrow> instant \<Rightarrow> context_ref option \<Rightarrow> bridge \<Rightarrow> (runtime_ref option \<times> bridge) option" where
  "runtime_for_scalar_init built usable fresh now ctx b =
     (case ctx of
        None \<Rightarrow> Some (None, b)
      | Some _ \<Rightarrow>
          let b = b\<lparr>bs_wrappers := Suc (bs_wrappers b)\<rparr>
          in Option.bind (acquire_connection_runtime built usable fresh now ctx b) (\<lambda>(r, b).
               Some (r, b\<lparr>bs_wrappers := bs_wrappers b - 1\<rparr>)))"

text \<open>
  The \<open>init\<close> of each function keeps what it got in its execution state, and dropping that state drops it.
\<close>

definition scalar_init ::
  "bool \<Rightarrow> bool \<Rightarrow> connection_runtime \<Rightarrow> instant \<Rightarrow> context_ref option \<Rightarrow> bridge \<Rightarrow> (runtime_ref option \<times> bridge) option" where
  "scalar_init built usable fresh now ctx b =
     Option.bind (runtime_for_scalar_init built usable fresh now ctx b) (\<lambda>(r, b).
       Some (r, case r of None \<Rightarrow> b | Some r \<Rightarrow> b\<lparr>bs_owned := r # bs_owned b\<rparr>))"

definition drop_execution_state :: "runtime_ref option \<Rightarrow> bridge \<Rightarrow> bridge option" where
  "drop_execution_state connection b =
     (case connection of None \<Rightarrow> Some b | Some r \<Rightarrow> arc_drop r (b\<lparr>bs_owned := remove1 r (bs_owned b)\<rparr>))"

section \<open>Steps\<close>

text \<open>
  What DuckDB may do, in any order and for any number of contexts: initialise a function, use the runtime
  of an execution state it holds, drop that state, and call a context's callbacks and destructor. A step
  gives the next state, or None when it is undefined.
\<close>

inductive bridge_step :: "bridge \<Rightarrow> bridge option \<Rightarrow> bool" where
  initialise: "bridge_step b (map_option snd (scalar_init built usable (default_runtime scope hasher pending) now ctx b))"
| use: "bridge_step b (on_runtime r f b)" if "r \<in> set (bs_owned b)"
| drop: "bridge_step b (drop_execution_state (Some r) b)" if "r \<in> set (bs_owned b)"
| query_begin: "bridge_step b (query_begin_callback now ctx b)"
| query_end: "bridge_step b (query_end_callback interrupt invalid_type err now ctx b)"
| destroy: "bridge_step b (destroy_state ctx b)"

inductive bridge_reachable :: "bridge \<Rightarrow> bool" where
  initial: "bridge_reachable empty_bridge"
| step: "bridge_reachable b \<Longrightarrow> bridge_step b (Some b') \<Longrightarrow> bridge_reachable b'"

section \<open>The invariant\<close>

text \<open>How many \<open>Arc\<close>s of a runtime there are.\<close>

definition refs :: "bridge \<Rightarrow> runtime_ref \<Rightarrow> nat" where
  "refs b r = count_list (map snd (bs_boxes b)) r + count_list (bs_owned b) r"

definition counts_ok :: "bridge \<Rightarrow> bool" where
  "counts_ok b \<longleftrightarrow> (\<forall>r. case bs_runtimes b r of
     None \<Rightarrow> refs b r = 0 | Some (n, _) \<Rightarrow> n = refs b r \<and> 0 < n \<and> r < bs_next_runtime b)"

definition boxes_ok :: "bridge \<Rightarrow> bool" where
  "boxes_ok b \<longleftrightarrow> distinct (map fst (bs_boxes b)) \<and> (\<forall>(h, r) \<in> set (bs_boxes b). h < bs_next_handle b)"

text \<open>Between steps the boxes are those of the attached contexts, one each, each with its own runtime.\<close>

definition contexts_attached :: "bridge \<Rightarrow> bool" where
  "contexts_attached b \<longleftrightarrow>
     (\<forall>ctx ptr. bs_contexts b ctx = Some ptr \<longrightarrow> (\<exists>h. ptr = Some h \<and> h \<in> fst ` set (bs_boxes b)))
     \<and> (\<forall>ctx ctx' ptr. bs_contexts b ctx = Some ptr \<and> bs_contexts b ctx' = Some ptr \<longrightarrow> ctx = ctx')
     \<and> (\<forall>(h, r) \<in> set (bs_boxes b). \<exists>ctx. bs_contexts b ctx = Some (Some h))
     \<and> distinct (map snd (bs_boxes b))"

definition bridge_ok :: "bridge \<Rightarrow> bool" where
  "bridge_ok b \<longleftrightarrow> counts_ok b \<and> boxes_ok b \<and> contexts_attached b \<and> bs_wrappers b = 0"

lemma bridge_frames [simp]:
  "boxes_ok (b\<lparr>bs_runtimes := rs\<rparr>) = boxes_ok b" "contexts_attached (b\<lparr>bs_runtimes := rs\<rparr>) = contexts_attached b"
  "boxes_ok (b\<lparr>bs_owned := os\<rparr>) = boxes_ok b" "contexts_attached (b\<lparr>bs_owned := os\<rparr>) = contexts_attached b"
  by (simp_all add: boxes_ok_def contexts_attached_def)

section \<open>What each step does\<close>

lemma count_freed:
  "distinct (map fst boxes) \<Longrightarrow> map_of boxes h = Some r \<Longrightarrow>
   count_list (map snd boxes) q = count_list (map snd (filter (\<lambda>(k, _). k \<noteq> h) boxes)) q + (if q = r then 1 else 0)"
proof (induction boxes)
  case (Cons box boxes)
  then show ?case
  proof (cases "fst box = h")
    case True
    then have "filter (\<lambda>(k, _). k \<noteq> h) boxes = boxes"
      using Cons.prems(1) by (auto simp: filter_id_conv rev_image_eqI)
    then show ?thesis using True Cons.prems by (cases box) auto
  qed (use Cons in \<open>auto split: prod.splits if_splits\<close>)
qed simp

lemma counts_okD:
  "counts_ok b \<Longrightarrow> bs_runtimes b r = Some (n, s) \<Longrightarrow> n = refs b r \<and> 0 < n \<and> r < bs_next_runtime b"
  "counts_ok b \<Longrightarrow> bs_runtimes b r = None \<Longrightarrow> refs b r = 0"
  unfolding counts_ok_def by (drule spec [of _ r], simp)+

lemma live_runtime:
  assumes "counts_ok b" "0 < refs b r"
  obtains s where "bs_runtimes b r = Some (refs b r, s)" "r < bs_next_runtime b"
  using assms counts_okD by (cases "bs_runtimes b r") fastforce+

lemma dead_runtime: "counts_ok b \<Longrightarrow> bs_next_runtime b \<le> r \<Longrightarrow> bs_runtimes b r = None \<and> refs b r = 0"
  using counts_okD by (cases "bs_runtimes b r") fastforce+

lemma attached_handle:
  assumes "bridge_ok b" "bs_contexts b ctx = Some ptr"
  obtains h where "ptr = Some h" "h \<in> fst ` set (bs_boxes b)"
  using assms unfolding bridge_ok_def contexts_attached_def by blast

lemma attached_box:
  assumes "bridge_ok b" "bs_contexts b ctx = Some ptr"
  obtains h r where "ptr = Some h" "map_of (bs_boxes b) h = Some r" "(h, r) \<in> set (bs_boxes b)" "0 < refs b r"
proof -
  obtain h where "ptr = Some h" "h \<in> fst ` set (bs_boxes b)" using attached_handle [OF assms] .
  then obtain r where h: "ptr = Some h" "(h, r) \<in> set (bs_boxes b)" by force
  then have "map_of (bs_boxes b) h = Some r" using assms(1) by (simp add: bridge_ok_def boxes_ok_def)
  moreover have "r \<in> set (map snd (bs_boxes b))" using h(2) by force
  then have "0 < count_list (map snd (bs_boxes b)) r" by (meson count_list_0_iff gr0I)
  then have "0 < refs b r" by (simp add: refs_def)
  ultimately show ?thesis using that h by blast
qed

lemma fresh_handle: "boxes_ok b \<Longrightarrow> bs_next_handle b \<le> h \<Longrightarrow> filter (\<lambda>(k, _). k \<noteq> h) (bs_boxes b) = bs_boxes b"
  by (fastforce simp: boxes_ok_def filter_id_conv)

lemma scalar_init_effect:
  assumes ok: "bridge_ok b"
  obtains (none) "scalar_init built usable fresh now ctx b = Some (None, b)"
  | (shared) c h r n s where "ctx = Some c" "bs_contexts b c = Some (Some h)" "map_of (bs_boxes b) h = Some r"
      "bs_runtimes b r = Some (n, s)"
      "scalar_init built usable fresh now ctx b = Some (Some r, b\<lparr>bs_next_handle := Suc (bs_next_handle b),
         bs_runtimes := (bs_runtimes b)(r \<mapsto> (Suc n, s)), bs_owned := r # bs_owned b\<rparr>)"
  | (attached) c where "ctx = Some c" "bs_contexts b c = None"
      "scalar_init built usable fresh now ctx b = Some (Some (bs_next_runtime b),
         b\<lparr>bs_next_handle := Suc (Suc (bs_next_handle b)),
           bs_boxes := (bs_next_handle b, bs_next_runtime b) # bs_boxes b,
           bs_next_runtime := Suc (bs_next_runtime b),
           bs_runtimes := (bs_runtimes b)(bs_next_runtime b \<mapsto> (2, begin_query now fresh)),
           bs_contexts := (bs_contexts b)(c \<mapsto> Some (bs_next_handle b)),
           bs_owned := bs_next_runtime b # bs_owned b\<rparr>)"
proof -
  note defs = scalar_init_def runtime_for_scalar_init_def acquire_connection_runtime_def context_state_acquire_def
    attach_state_def host_state_create_def host_query_begin_def host_state_clone_def with_handle_def on_runtime_def
    new_box_def arc_clone_def from_raw_def Let_def
  have boxes: "boxes_ok b" "counts_ok b" and wrap: "bs_wrappers b = 0" using ok by (simp_all add: bridge_ok_def)
  consider "ctx = None \<or> \<not> built \<or> \<not> usable" | c ptr where "ctx = Some c" "built" "usable" "bs_contexts b c = Some ptr"
    | c where "ctx = Some c" "built" "usable" "bs_contexts b c = None" by (cases ctx) fastforce+
  then show ?thesis
  proof cases
    case 1
    then have "scalar_init built usable fresh now ctx b = Some (None, b)"
      using wrap by (cases ctx) (auto simp: defs)
    then show ?thesis by (rule none)
  next
    case 2
    obtain h r where h: "ptr = Some h" "map_of (bs_boxes b) h = Some r" "0 < refs b r" using attached_box [OF ok 2(4)] .
    obtain s where s: "bs_runtimes b r = Some (refs b r, s)" using live_runtime [OF boxes(2) h(3)] .
    show ?thesis
      by (rule shared [OF 2(1) _ h(2) s]) (use 2 h s wrap fresh_handle [OF boxes(1), of "bs_next_handle b"] in \<open>simp_all add: defs\<close>)
  next
    case 3
    show ?thesis
      by (rule attached [OF 3(1,4)], cases b)
        (use 3 wrap fresh_handle [OF boxes(1), of "Suc (bs_next_handle b)"] in \<open>simp add: defs numeral_2_eq_2\<close>)
  qed
qed

text \<open>Changing a runtime under its lock, and giving up one \<open>Arc\<close> of it.\<close>

lemma on_runtime_ok:
  assumes ok: "bridge_ok b" and r: "0 < refs b r"
  shows "\<exists>b'. on_runtime r f b = Some b' \<and> bridge_ok b'"
proof -
  have counts: "counts_ok b" using ok by (simp add: bridge_ok_def)
  obtain s where s: "bs_runtimes b r = Some (refs b r, s)" "r < bs_next_runtime b" using live_runtime [OF counts r] .
  let ?b = "b\<lparr>bs_runtimes := (bs_runtimes b)(r \<mapsto> (refs b r, f s))\<rparr>"
  have same: "refs ?b q = refs b q" for q by (simp add: refs_def)
  have "counts_ok ?b"
    unfolding counts_ok_def
  proof
    fix q
    show "case bs_runtimes ?b q of
        None \<Rightarrow> refs ?b q = 0 | Some (n, _) \<Rightarrow> n = refs ?b q \<and> 0 < n \<and> q < bs_next_runtime ?b"
      using counts_okD [OF counts, of q] r s(2) unfolding same by (auto split: option.split)
  qed
  then show ?thesis using ok s by (simp add: on_runtime_def bridge_ok_def)
qed

lemma arc_drop_ok:
  assumes counts: "counts_ok b" and same: "bs_runtimes b1 = bs_runtimes b" "bs_next_runtime b1 = bs_next_runtime b"
    and less: "\<And>q. refs b q = refs b1 q + (if q = r then 1 else 0)"
  shows "\<exists>runtimes. arc_drop r b1 = Some (b1\<lparr>bs_runtimes := runtimes\<rparr>) \<and> counts_ok (b1\<lparr>bs_runtimes := runtimes\<rparr>)"
proof -
  obtain s where s: "bs_runtimes b r = Some (refs b r, s)" "r < bs_next_runtime b"
    using live_runtime [OF counts, of r] less [of r] by auto
  let ?runtimes = "(bs_runtimes b)(r := if refs b r = 1 then None else Some (refs b r - 1, s))"
  have kept: "refs (b1\<lparr>bs_runtimes := ?runtimes\<rparr>) q = refs b1 q" for q by (simp add: refs_def)
  have "counts_ok (b1\<lparr>bs_runtimes := ?runtimes\<rparr>)"
    unfolding counts_ok_def
  proof
    fix q
    show "case bs_runtimes (b1\<lparr>bs_runtimes := ?runtimes\<rparr>) q of
        None \<Rightarrow> refs (b1\<lparr>bs_runtimes := ?runtimes\<rparr>) q = 0
      | Some (n, _) \<Rightarrow> n = refs (b1\<lparr>bs_runtimes := ?runtimes\<rparr>) q \<and> 0 < n \<and> q < bs_next_runtime (b1\<lparr>bs_runtimes := ?runtimes\<rparr>)"
      using counts_okD [OF counts, of q] less [of q] s(2) unfolding kept
      by (cases "q = r") (auto simp: same(2) split: option.split)
  qed
  then show ?thesis using s same by (intro exI [of _ ?runtimes]) (simp add: arc_drop_def)
qed

lemma with_handle_ok:
  assumes "bridge_ok b" "bs_contexts b ctx = Some ptr"
  shows "\<exists>b'. with_handle ptr f b = Some b' \<and> bridge_ok b'"
proof -
  obtain h r where h: "ptr = Some h" "map_of (bs_boxes b) h = Some r" "0 < refs b r" using attached_box [OF assms] .
  then show ?thesis using on_runtime_ok [OF assms(1) h(3)] by (simp add: with_handle_def)
qed

lemma count_remove1: "r \<in> set xs \<Longrightarrow> count_list xs q = count_list (remove1 r xs) q + (if q = r then 1 else 0)"
  by (induction xs) auto

lemma drop_execution_state_ok:
  assumes ok: "bridge_ok b" and r: "r \<in> set (bs_owned b)"
  shows "\<exists>b'. drop_execution_state (Some r) b = Some b' \<and> bridge_ok b'"
proof -
  let ?b1 = "b\<lparr>bs_owned := remove1 r (bs_owned b)\<rparr>"
  have less: "refs b q = refs ?b1 q + (if q = r then 1 else 0)" for q
    using count_remove1 [OF r, of q] by (simp add: refs_def)
  obtain runtimes where "arc_drop r ?b1 = Some (?b1\<lparr>bs_runtimes := runtimes\<rparr>)" "counts_ok (?b1\<lparr>bs_runtimes := runtimes\<rparr>)"
    using arc_drop_ok [OF _ _ _ less] ok by (auto simp: bridge_ok_def)
  then show ?thesis
    using ok by (simp add: drop_execution_state_def bridge_ok_def)
qed

lemma contexts_attached_detach:
  assumes ok: "bridge_ok b" and ctx: "bs_contexts b ctx = Some (Some h)"
  shows "contexts_attached (b\<lparr>bs_contexts := (bs_contexts b)(ctx := None), bs_boxes := filter (\<lambda>(k, _). k \<noteq> h) (bs_boxes b)\<rparr>)"
    (is "contexts_attached ?b1")
  unfolding contexts_attached_def
proof (intro conjI)
  have attached: "contexts_attached b" using ok by (simp add: bridge_ok_def)
  have unique: "c = c'" if "bs_contexts b c = Some p" "bs_contexts b c' = Some p" for c c' p
    using attached that unfolding contexts_attached_def by blast
  show "distinct (map snd (bs_boxes ?b1))" using attached by (simp add: contexts_attached_def distinct_map_filter)
  show "\<forall>c ptr'. bs_contexts ?b1 c = Some ptr' \<longrightarrow> (\<exists>h. ptr' = Some h \<and> h \<in> fst ` set (bs_boxes ?b1))"
  proof (intro allI impI)
    fix c ptr' assume "bs_contexts ?b1 c = Some ptr'"
    then have c: "c \<noteq> ctx" "bs_contexts b c = Some ptr'" by (auto split: if_splits)
    obtain h' r' where h': "ptr' = Some h'" "(h', r') \<in> set (bs_boxes b)" using attached_box [OF ok c(2)] by blast
    have "h' \<noteq> h" using unique [of c ptr' ctx] c ctx h'(1) by blast
    then show "\<exists>h. ptr' = Some h \<and> h \<in> fst ` set (bs_boxes ?b1)" using h' by force
  qed
  show "\<forall>c c' ptr'. bs_contexts ?b1 c = Some ptr' \<and> bs_contexts ?b1 c' = Some ptr' \<longrightarrow> c = c'"
    using unique by (auto split: if_splits)
  show "\<forall>(k, q) \<in> set (bs_boxes ?b1). \<exists>c. bs_contexts ?b1 c = Some (Some k)"
  proof (rule ballI, unfold split_paired_all prod.case)
    fix k q assume "(k, q) \<in> set (bs_boxes ?b1)"
    then have k: "(k, q) \<in> set (bs_boxes b)" "k \<noteq> h" by auto
    obtain c where c: "bs_contexts b c = Some (Some k)" using attached k(1) unfolding contexts_attached_def by blast
    then have "c \<noteq> ctx" using ctx k(2) by auto
    then show "\<exists>c. bs_contexts ?b1 c = Some (Some k)" using c by auto
  qed
qed

lemma destroy_state_ok:
  assumes ok: "bridge_ok b"
  shows "\<exists>b'. destroy_state ctx b = Some b' \<and> bridge_ok b'"
proof (cases "bs_contexts b ctx")
  case None
  then show ?thesis using ok by (simp add: destroy_state_def)
next
  case (Some ptr)
  obtain h r where h: "ptr = Some h" "map_of (bs_boxes b) h = Some r" "(h, r) \<in> set (bs_boxes b)" using attached_box [OF ok Some] .
  let ?b1 = "b\<lparr>bs_contexts := (bs_contexts b)(ctx := None), bs_boxes := filter (\<lambda>(k, _). k \<noteq> h) (bs_boxes b)\<rparr>"
  have boxes: "boxes_ok b" "counts_ok b" using ok by (simp_all add: bridge_ok_def)
  have less: "refs b q = refs ?b1 q + (if q = r then 1 else 0)" for q
    using count_freed [OF _ h(2), of q] boxes(1) by (simp add: refs_def boxes_ok_def)
  obtain runtimes where drop: "arc_drop r ?b1 = Some (?b1\<lparr>bs_runtimes := runtimes\<rparr>)" "counts_ok (?b1\<lparr>bs_runtimes := runtimes\<rparr>)"
    using arc_drop_ok [OF boxes(2) _ _ less] by auto
  have "boxes_ok ?b1" using boxes(1) by (auto simp: boxes_ok_def distinct_map_filter)
  then have "bridge_ok (?b1\<lparr>bs_runtimes := runtimes\<rparr>)"
    using drop(2) ok contexts_attached_detach [OF ok Some [unfolded h(1)]] by (simp add: bridge_ok_def)
  moreover have "destroy_state ctx b = Some (?b1\<lparr>bs_runtimes := runtimes\<rparr>)"
    using Some h drop(1) by (simp add: destroy_state_def host_state_drop_def from_raw_def)
  ultimately show ?thesis by blast
qed

lemma contexts_attached_frame:
  "contexts_attached b \<Longrightarrow> bs_boxes b' = bs_boxes b \<Longrightarrow> bs_contexts b' = bs_contexts b \<Longrightarrow> contexts_attached b'"
  by (simp add: contexts_attached_def)

lemma contexts_attached_attach:
  assumes ok: "bridge_ok b" and ctx: "bs_contexts b c = None"
    and new: "h \<notin> fst ` set (bs_boxes b)" "r \<notin> snd ` set (bs_boxes b)"
  shows "contexts_attached (b\<lparr>bs_boxes := (h, r) # bs_boxes b, bs_contexts := (bs_contexts b)(c \<mapsto> Some h)\<rparr>)"
    (is "contexts_attached ?b")
  unfolding contexts_attached_def
proof (intro conjI)
  have attached: "contexts_attached b" using ok by (simp add: bridge_ok_def)
  show "distinct (map snd (bs_boxes ?b))" using attached new(2) by (simp add: contexts_attached_def)
  show "\<forall>d ptr. bs_contexts ?b d = Some ptr \<longrightarrow> (\<exists>h. ptr = Some h \<and> h \<in> fst ` set (bs_boxes ?b))"
  proof (intro allI impI)
    fix d ptr assume d: "bs_contexts ?b d = Some ptr"
    show "\<exists>h. ptr = Some h \<and> h \<in> fst ` set (bs_boxes ?b)"
      using d attached_handle [OF ok, of d ptr] by (cases "d = c") auto
  qed
  show "\<forall>d d' ptr. bs_contexts ?b d = Some ptr \<and> bs_contexts ?b d' = Some ptr \<longrightarrow> d = d'"
  proof (intro allI impI, elim conjE)
    fix d d' ptr assume d: "bs_contexts ?b d = Some ptr" "bs_contexts ?b d' = Some ptr"
    have old: "ptr \<noteq> Some h" if "bs_contexts b e = Some ptr" for e
      using attached_handle [OF ok that] new(1) by auto
    have unique: "e = e'" if "bs_contexts b e = Some ptr" "bs_contexts b e' = Some ptr" for e e'
      using attached that unfolding contexts_attached_def by blast
    show "d = d'" using d old unique by (cases "d = c"; cases "d' = c") auto
  qed
  show "\<forall>(k, q) \<in> set (bs_boxes ?b). \<exists>d. bs_contexts ?b d = Some (Some k)"
  proof (rule ballI, unfold split_paired_all prod.case)
    fix k q assume k: "(k, q) \<in> set (bs_boxes ?b)"
    show "\<exists>d. bs_contexts ?b d = Some (Some k)"
    proof (cases "(k, q) \<in> set (bs_boxes b)")
      case True
      then obtain d where "bs_contexts b d = Some (Some k)" using attached unfolding contexts_attached_def by blast
      moreover from this have "d \<noteq> c" using ctx by auto
      ultimately show ?thesis by auto
    next
      case False
      then show ?thesis using k by (intro exI [of _ c]) simp
    qed
  qed
qed

lemma counts_ok_add:
  assumes "counts_ok b" and "\<And>q. refs b' q = refs b q + (if q = r then k else 0)" and "0 < k"
    and "bs_runtimes b' = (bs_runtimes b)(r \<mapsto> (refs b r + k, s))"
    and "bs_next_runtime b \<le> bs_next_runtime b'" "r < bs_next_runtime b'"
  shows "counts_ok b'"
  unfolding counts_ok_def
proof
  fix q
  show "case bs_runtimes b' q of
      None \<Rightarrow> refs b' q = 0 | Some (n, _) \<Rightarrow> n = refs b' q \<and> 0 < n \<and> q < bs_next_runtime b'"
    using counts_okD [OF assms(1), of q] assms(2-) by (auto split: option.split)
qed

lemma scalar_init_ok:
  assumes ok: "bridge_ok b"
  shows "\<exists>res b'. scalar_init built usable fresh now ctx b = Some (res, b') \<and> bridge_ok b'"
  using ok
proof (cases rule: scalar_init_effect [of b built usable fresh now ctx])
  case none
  then show ?thesis using ok by blast
next
  case (shared c h r n s)
  let ?b = "b\<lparr>bs_next_handle := Suc (bs_next_handle b), bs_runtimes := (bs_runtimes b)(r \<mapsto> (Suc n, s)), bs_owned := r # bs_owned b\<rparr>"
  have counts: "counts_ok b" and boxes: "boxes_ok b" using ok by (simp_all add: bridge_ok_def)
  have "counts_ok ?b"
    by (rule counts_ok_add [OF counts, of _ r 1 s]) (use counts_okD [OF counts, of r] shared(4) in \<open>auto simp: refs_def\<close>)
  moreover have "boxes_ok ?b" using boxes by (auto simp: boxes_ok_def intro: less_SucI)
  moreover have "contexts_attached ?b" using ok by (simp add: bridge_ok_def contexts_attached_def)
  ultimately show ?thesis using shared(5) ok by (simp add: bridge_ok_def)
next
  case (attached c)
  let ?h = "bs_next_handle b" and ?r = "bs_next_runtime b"
  let ?b = "b\<lparr>bs_next_handle := Suc (Suc ?h), bs_boxes := (?h, ?r) # bs_boxes b, bs_next_runtime := Suc ?r,
      bs_runtimes := (bs_runtimes b)(?r \<mapsto> (2, begin_query now fresh)), bs_contexts := (bs_contexts b)(c \<mapsto> Some ?h),
      bs_owned := ?r # bs_owned b\<rparr>"
  have counts: "counts_ok b" and boxes: "boxes_ok b" using ok by (simp_all add: bridge_ok_def)
  have new: "refs b ?r = 0" using dead_runtime [OF counts] by simp
  have "counts_ok ?b"
    by (rule counts_ok_add [OF counts, of _ ?r 2 "begin_query now fresh"]) (use new in \<open>auto simp: refs_def\<close>)
  moreover have fresh_h: "?h \<notin> fst ` set (bs_boxes b)" using boxes by (auto simp: boxes_ok_def)
  then have "boxes_ok ?b" using boxes by (auto simp: boxes_ok_def intro: less_SucI)
  moreover have "?r \<notin> snd ` set (bs_boxes b)" using new by (simp add: refs_def count_list_0_iff)
  then have "contexts_attached ?b"
    by (intro contexts_attached_frame [OF contexts_attached_attach [OF ok attached(2) fresh_h]]) simp_all
  ultimately show ?thesis using attached(3) ok by (simp add: bridge_ok_def)
qed

lemma bridge_ok_step: "bridge_step b res \<Longrightarrow> bridge_ok b \<Longrightarrow> \<exists>b'. res = Some b' \<and> bridge_ok b'"
proof (induction rule: bridge_step.induct)
  case (initialise b built usable scope hasher pending now ctx)
  then show ?case
    using scalar_init_ok [of b built usable "default_runtime scope hasher pending" now ctx] by auto
next
  case (use r b f)
  then have "0 < count_list (bs_owned b) r" by (meson count_list_0_iff gr0I)
  then show ?case using on_runtime_ok [OF use(2)] by (simp add: refs_def)
next
  case (drop r b)
  then show ?case by (intro drop_execution_state_ok)
next
  case (query_begin b now ctx)
  then show ?case
    by (cases "bs_contexts b ctx") (simp_all add: query_begin_callback_def host_query_begin_def with_handle_ok)
next
  case (query_end b interrupt invalid_type err now ctx)
  then show ?case
    by (cases "bs_contexts b ctx") (simp_all add: query_end_callback_def host_query_end_def with_handle_ok Let_def)
next
  case (destroy b ctx)
  then show ?case by (intro destroy_state_ok)
qed

lemma bridge_ok_empty: "bridge_ok empty_bridge"
  by (simp add: bridge_ok_def empty_bridge_def counts_ok_def refs_def boxes_ok_def contexts_attached_def)

lemma bridge_ok_reachable: "bridge_reachable b \<Longrightarrow> bridge_ok b"
proof (induction rule: bridge_reachable.induct)
  case initial
  show ?case by (rule bridge_ok_empty)
next
  case (step b b')
  then show ?case using bridge_ok_step by blast
qed

section \<open>Which runtime a context has\<close>

definition runtime_of :: "bridge \<Rightarrow> context_ref \<Rightarrow> runtime_ref option" where
  "runtime_of b ctx = (case bs_contexts b ctx of Some (Some h) \<Rightarrow> map_of (bs_boxes b) h | _ \<Rightarrow> None)"

lemma runtime_of_frame:
  "bs_contexts b' = bs_contexts b \<Longrightarrow> bs_boxes b' = bs_boxes b \<Longrightarrow> runtime_of b' = runtime_of b"
  by (auto simp: runtime_of_def fun_eq_iff split: option.split)

lemma runtime_of_attached:
  assumes "bridge_ok b"
  shows "runtime_of b ctx = None \<longleftrightarrow> bs_contexts b ctx = None"
    "r \<in> ran (runtime_of b) \<longleftrightarrow> r \<in> snd ` set (bs_boxes b)"
proof -
  show "runtime_of b ctx = None \<longleftrightarrow> bs_contexts b ctx = None"
  proof (cases "bs_contexts b ctx")
    case (Some ptr)
    then obtain h r where "ptr = Some h" "map_of (bs_boxes b) h = Some r" using attached_box [OF assms Some] by blast
    then show ?thesis using Some by (simp add: runtime_of_def)
  qed (simp add: runtime_of_def)
  have boxes: "distinct (map fst (bs_boxes b))" using assms by (simp add: bridge_ok_def boxes_ok_def)
  show "r \<in> ran (runtime_of b) \<longleftrightarrow> r \<in> snd ` set (bs_boxes b)"
  proof
    assume "r \<in> ran (runtime_of b)"
    then obtain c h where "map_of (bs_boxes b) h = Some r"
      by (auto simp: ran_def runtime_of_def split: option.splits)
    then show "r \<in> snd ` set (bs_boxes b)" by (force dest: map_of_SomeD)
  next
    assume "r \<in> snd ` set (bs_boxes b)"
    then obtain h where h: "(h, r) \<in> set (bs_boxes b)" by force
    then obtain c where "bs_contexts b c = Some (Some h)"
      using assms unfolding bridge_ok_def contexts_attached_def by blast
    then have "runtime_of b c = Some r" using h boxes by (simp add: runtime_of_def)
    then show "r \<in> ran (runtime_of b)" by (rule ranI)
  qed
qed

lemma runtime_of_unique:
  assumes ok: "bridge_ok b" and r: "runtime_of b c = Some r" "runtime_of b c' = Some r"
  shows "c = c'"
proof -
  obtain h h' where h: "bs_contexts b c = Some (Some h)" "(h, r) \<in> set (bs_boxes b)"
    "bs_contexts b c' = Some (Some h')" "(h', r) \<in> set (bs_boxes b)"
    using r by (auto simp: runtime_of_def split: option.splits dest: map_of_SomeD)
  have "distinct (map snd (bs_boxes b))" using ok by (simp add: bridge_ok_def contexts_attached_def)
  then have "h = h'" using h(2,4) by (fastforce simp: distinct_map inj_on_def)
  then show ?thesis using h(1,3) ok unfolding bridge_ok_def contexts_attached_def by blast
qed

lemma runtime_of_scalar_init:
  assumes ok: "bridge_ok b" and run: "scalar_init built usable fresh now (Some c) b = Some (Some r, b')"
  shows "runtime_of b' = (runtime_of b)(c \<mapsto> r)" "runtime_of b c = None \<or> runtime_of b c = Some r"
    "r \<in> set (bs_owned b')" "runtime_of b c = None \<Longrightarrow> bs_runtimes b' r = Some (2, begin_query now fresh)"
proof -
  have "runtime_of b' = (runtime_of b)(c \<mapsto> r) \<and> (runtime_of b c = None \<or> runtime_of b c = Some r)
    \<and> r \<in> set (bs_owned b') \<and> (runtime_of b c = None \<longrightarrow> bs_runtimes b' r = Some (2, begin_query now fresh))"
    using ok
  proof (cases rule: scalar_init_effect [of b built usable fresh now "Some c"])
    case none
    then show ?thesis using run by simp
  next
    case (shared c' h r' n s)
    then have "runtime_of b c = Some r" using run by (simp add: runtime_of_def)
    moreover have "runtime_of b' = runtime_of b" by (rule runtime_of_frame) (use shared run in auto)
    ultimately show ?thesis using shared run by (auto simp: fun_upd_idem)
  next
    case (attached c')
    have none: "runtime_of b c = None" using attached by (simp add: runtime_of_def)
    have b': "b' = b\<lparr>bs_next_handle := Suc (Suc (bs_next_handle b)),
        bs_boxes := (bs_next_handle b, r) # bs_boxes b, bs_next_runtime := Suc (bs_next_runtime b),
        bs_runtimes := (bs_runtimes b)(r \<mapsto> (2, begin_query now fresh)),
        bs_contexts := (bs_contexts b)(c \<mapsto> Some (bs_next_handle b)), bs_owned := r # bs_owned b\<rparr>"
      using attached run by auto
    have "runtime_of b' d = ((runtime_of b)(c \<mapsto> r)) d" for d
    proof (cases "d = c")
      case False
      have "h \<noteq> bs_next_handle b" if d: "bs_contexts b d = Some (Some h)" for h
      proof -
        obtain k where k: "Some h = Some k" "k \<in> fst ` set (bs_boxes b)" using attached_handle [OF ok d] .
        then show ?thesis using ok by (auto simp: bridge_ok_def boxes_ok_def)
      qed
      then show ?thesis using False by (simp add: b' runtime_of_def split: option.split)
    qed (simp add: b' runtime_of_def)
    then show ?thesis using none by (auto simp: b')
  qed
  then show "runtime_of b' = (runtime_of b)(c \<mapsto> r)" "runtime_of b c = None \<or> runtime_of b c = Some r"
    "r \<in> set (bs_owned b')" "runtime_of b c = None \<Longrightarrow> bs_runtimes b' r = Some (2, begin_query now fresh)" by blast+
qed

text \<open>No step but its destruction takes a context's runtime away.\<close>

lemma map_of_freed: "map_of (filter (\<lambda>(k, _). k \<noteq> h) boxes) k = (if k = h then None else map_of boxes k)"
  by (induction boxes) auto

lemma runtime_of_destroy:
  assumes ok: "bridge_ok b" and run: "destroy_state ctx b = Some b'"
  shows "runtime_of b' c = (if c = ctx then None else runtime_of b c)"
proof (cases "bs_contexts b ctx")
  case None
  then show ?thesis using run by (auto simp: destroy_state_def runtime_of_def)
next
  case (Some ptr)
  obtain h where h: "ptr = Some h" using attached_handle [OF ok Some] .
  have b': "bs_contexts b' = (bs_contexts b)(ctx := None)" "bs_boxes b' = filter (\<lambda>(k, _). k \<noteq> h) (bs_boxes b)"
    using run Some h
    by (auto simp: destroy_state_def host_state_drop_def from_raw_def arc_drop_def split: option.splits Option.bind_splits)
  have "k \<noteq> h" if "c \<noteq> ctx" "bs_contexts b c = Some (Some k)" for k
    using ok that Some h unfolding bridge_ok_def contexts_attached_def by blast
  then show ?thesis by (auto simp: runtime_of_def b' map_of_freed split: option.split)
qed

lemma runtime_of_step:
  assumes "bridge_step b res" "res = Some b'" "bridge_ok b" "runtime_of b c = Some r"
  shows "runtime_of b' c = Some r \<or> runtime_of b' c = None"
  using assms
proof (induction rule: bridge_step.induct)
  case (initialise b built usable scope hasher pending now ctx)
  then obtain r0 where run: "scalar_init built usable (default_runtime scope hasher pending) now ctx b = Some (r0, b')" by auto
  have named: "runtime_of b' c = Some r" if "ctx = Some c'" "r0 = Some r'" for c' r'
    using runtime_of_scalar_init(1,2) [OF initialise(2) run [unfolded that]] initialise(3) by (auto split: if_splits)
  from initialise(2) show ?case
  proof (cases rule: scalar_init_effect [of b built usable "default_runtime scope hasher pending" now ctx])
    case none
    then show ?thesis using run initialise(3) by simp
  next
    case (shared c' h r' n s)
    then have "r0 = Some r'" using run by simp
    then show ?thesis using named [OF shared(1)] by blast
  next
    case (attached c')
    then have "r0 = Some (bs_next_runtime b)" using run by simp
    then show ?thesis using named [OF attached(1)] by blast
  qed
next
  case (use r b f)
  then have "runtime_of b' = runtime_of b"
    by (intro runtime_of_frame) (auto simp: on_runtime_def split: option.splits)
  then show ?case using use by simp
next
  case (drop r b)
  then have "runtime_of b' = runtime_of b"
    by (intro runtime_of_frame) (auto simp: drop_execution_state_def arc_drop_def split: option.splits)
  then show ?case using drop by simp
next
  case (query_begin b now ctx)
  then have "runtime_of b' = runtime_of b"
    by (intro runtime_of_frame)
      (auto simp: query_begin_callback_def host_query_begin_def with_handle_def on_runtime_def split: option.splits)
  then show ?case using query_begin by simp
next
  case (query_end b interrupt invalid_type err now ctx)
  then have "runtime_of b' = runtime_of b"
    by (intro runtime_of_frame)
      (auto simp: query_end_callback_def host_query_end_def with_handle_def on_runtime_def Let_def split: option.splits)
  then show ?case using query_end by simp
next
  case (destroy b ctx)
  then show ?case using runtime_of_destroy [of b ctx b' c] by auto
qed

section \<open>Properties\<close>

lemma count_distinct: "distinct xs \<Longrightarrow> count_list xs x = (if x \<in> set xs then 1 else 0)"
  by (induction xs) auto

text \<open>C13: The bridge to DuckDB is memory safe. Whatever sequence of initialisations, calls, callbacks and
  destructions DuckDB performs on any number of client contexts, no step uses or frees a dead handle or
  runtime; a runtime lives exactly as long as a context or an execution state refers to it, its reference
  count being the number of those; and no client-context wrapper is kept.\<close>

theorem bridge_is_memory_safe:
  assumes "bridge_reachable b"
  shows "(\<forall>res. bridge_step b res \<longrightarrow> res \<noteq> None)
    \<and> (\<forall>r. (\<exists>n s. bs_runtimes b r = Some (n, s)) \<longleftrightarrow> r \<in> ran (runtime_of b) \<or> r \<in> set (bs_owned b))
    \<and> (\<forall>r n s. bs_runtimes b r = Some (n, s) \<longrightarrow>
         n = (if r \<in> ran (runtime_of b) then 1 else 0) + count_list (bs_owned b) r)
    \<and> bs_wrappers b = 0"
proof -
  have ok: "bridge_ok b" by (rule bridge_ok_reachable [OF assms])
  then have counts: "counts_ok b" and boxes: "distinct (map snd (bs_boxes b))"
    by (simp_all add: bridge_ok_def contexts_attached_def)
  have one: "count_list (map snd (bs_boxes b)) r = (if r \<in> ran (runtime_of b) then 1 else 0)" for r
    using count_distinct [OF boxes] runtime_of_attached(2) [OF ok] by simp
  have "bs_runtimes b r = None \<longleftrightarrow> refs b r = 0" for r
    using counts_okD [OF counts, of r] by (cases "bs_runtimes b r") auto
  then have live: "(\<exists>n s. bs_runtimes b r = Some (n, s)) \<longleftrightarrow> r \<in> ran (runtime_of b) \<or> r \<in> set (bs_owned b)" for r
    by (cases "bs_runtimes b r") (force simp: refs_def one count_list_0_iff split: if_splits)+
  show ?thesis
    using bridge_ok_step [OF _ ok] live counts_okD(1) [OF counts] ok by (auto simp: refs_def one bridge_ok_def)
qed

text \<open>C14: Connections are isolated. Initialising a function on a client context yields the runtime of that
  context, the same one every time, and no other context ever has it; the first initialisation attaches a
  runtime whose query is already running, so that what that query does is recorded; and no step but its
  own destruction takes a context's runtime away.\<close>

theorem connections_are_isolated:
  assumes "bridge_reachable b"
  shows "(\<forall>built usable fresh now c r b'. scalar_init built usable fresh now (Some c) b = Some (Some r, b') \<longrightarrow>
        runtime_of b' c = Some r \<and> (runtime_of b c = None \<or> runtime_of b c = Some r)
        \<and> (\<forall>c'. c' \<noteq> c \<longrightarrow> runtime_of b' c' \<noteq> Some r)
        \<and> (runtime_of b c = None \<longrightarrow> (\<exists>n s. bs_runtimes b' r = Some (n, s) \<and> cr_active_query s \<noteq> None)))
    \<and> (\<forall>c r b'. bridge_step b (Some b') \<and> runtime_of b c = Some r \<longrightarrow> runtime_of b' c = Some r \<or> runtime_of b' c = None)"
proof (intro conjI allI impI)
  have ok: "bridge_ok b" by (rule bridge_ok_reachable [OF assms])
  {
    fix built usable fresh now c r b'
    assume run: "scalar_init built usable fresh now (Some c) b = Some (Some r, b')"
    note init = runtime_of_scalar_init [OF ok run]
    have ok': "bridge_ok b'" using scalar_init_ok [OF ok, of built usable fresh now "Some c"] run by simp
    show "runtime_of b' c = Some r" using init(1) by simp
    show "runtime_of b c = None \<or> runtime_of b c = Some r" by (rule init(2))
    show "runtime_of b' c' \<noteq> Some r" if "c' \<noteq> c" for c'
      using runtime_of_unique [OF ok', of c' r c] that init(1) by auto
    show "\<exists>n s. bs_runtimes b' r = Some (n, s) \<and> cr_active_query s \<noteq> None" if "runtime_of b c = None"
      using init(4) [OF that] by (simp add: begin_query_def Let_def)
  }
  show "runtime_of b' c = Some r \<or> runtime_of b' c = None"
    if "bridge_step b (Some b') \<and> runtime_of b c = Some r" for c r b'
    using runtime_of_step [of b "Some b'" b' c r] ok that by simp
qed

section \<open>A concrete run\<close>

text \<open>Two contexts initialise a function each, the first is destroyed while its execution state lives on.\<close>

abbreviation sample_default :: connection_runtime where
  "sample_default \<equiv> default_runtime 0 (\<lambda>_. 0) []"

definition sample_bridge :: bridge where
  "sample_bridge = the (Option.bind (scalar_init True True sample_default 0 (Some 7) empty_bridge) (\<lambda>(_, b).
     Option.bind (scalar_init True True sample_default 0 (Some 8) b) (\<lambda>(_, b). destroy_state 7 b)))"

lemma sample_bridge_reachable: "bridge_reachable sample_bridge"
proof -
  obtain r1 b1 where 1: "scalar_init True True sample_default 0 (Some 7) empty_bridge = Some (r1, b1)" "bridge_ok b1"
    using scalar_init_ok [OF bridge_ok_empty] by blast
  obtain r2 b2 where 2: "scalar_init True True sample_default 0 (Some 8) b1 = Some (r2, b2)" "bridge_ok b2"
    using scalar_init_ok [OF 1(2)] by blast
  obtain b3 where 3: "destroy_state 7 b2 = Some b3" using destroy_state_ok [OF 2(2)] by blast
  have "bridge_reachable b1"
    by (rule bridge_reachable.step [OF bridge_reachable.initial])
      (use bridge_step.initialise [of empty_bridge True True 0 "\<lambda>_. 0" "[]" 0 "Some 7"] 1 in simp)
  then have "bridge_reachable b2"
    by (rule bridge_reachable.step) (use bridge_step.initialise [of b1 True True 0 "\<lambda>_. 0" "[]" 0 "Some 8"] 2 in simp)
  then have "bridge_reachable b3"
    by (rule bridge_reachable.step) (use bridge_step.destroy [of b2 7] 3 in simp)
  then show ?thesis using 1 2 3 by (simp add: sample_bridge_def)
qed

theorem bridge_is_memory_safe_witness:
  "runtime_of sample_bridge 7 = None \<and> 0 \<in> set (bs_owned sample_bridge) \<and> (\<exists>n s. bs_runtimes sample_bridge 0 = Some (n, s))"
proof -
  have "runtime_of sample_bridge 7 = None" "0 \<in> set (bs_owned sample_bridge)" by code_simp+
  then show ?thesis using bridge_is_memory_safe [OF sample_bridge_reachable] by blast
qed

theorem connections_are_isolated_witness:
  "\<exists>r b. scalar_init True True sample_default 5 (Some 8) sample_bridge = Some (Some r, b) \<and> runtime_of sample_bridge 8 = Some r"
proof -
  have "(case scalar_init True True sample_default 5 (Some 8) sample_bridge of Some (Some r, b) \<Rightarrow> True | _ \<Rightarrow> False)"
    "runtime_of sample_bridge 8 \<noteq> None" by code_simp+
  then obtain r b where run: "scalar_init True True sample_default 5 (Some 8) sample_bridge = Some (Some r, b)"
    by (auto split: option.splits prod.splits)
  have "runtime_of sample_bridge 8 = None \<or> runtime_of sample_bridge 8 = Some r"
    using connections_are_isolated [OF sample_bridge_reachable, THEN conjunct1, rule_format, OF run] by blast
  then show ?thesis using run \<open>runtime_of sample_bridge 8 \<noteq> None\<close> by auto
qed

end
