(* ===== verification/Extension.thy ===== *)
theory Extension
  imports Functions "HOL-Library.State_Monad" "HOL-Library.Sublist"
begin

text \<open>
  Loading the extension: \<open>src/lib.rs\<close>, the \<open>register\<close> functions of \<open>src/functions/\<close> and the option
  registration of \<open>src/config.rs\<close>. DuckDB's C API is the outside world: the model records the calls
  made to it, in order and with the objects they name, and what DuckDB answers to a registration is a
  parameter, an arbitrary function of the calls so far. What the calls mean, that is which objects are
  alive and what has been registered, is the abstract specification \<open>catalogue\<close>.
\<close>

section \<open>Calls of the C API\<close>

type_synonym api_ref = nat

datatype sql_type = Sql_Any | Sql duckdb_type | Sql_List sql_type

datatype option_scope = Scope_Session

text \<open>The callbacks a function is registered with.\<close>

datatype init_callback = Init_Judgment | Init_Cache_Clear | Init_Profile

datatype eval_callback = Eval_Prob | Eval_Bool | Eval_Choice | Eval_Cache_Clear | Eval_Profile

datatype api_call =
    Create_Type api_ref sql_type | Create_List_Type api_ref api_ref | Destroy_Type api_ref
  | Create_Value api_ref config_value | Destroy_Value api_ref
  | Create_Function api_ref | Function_Name api_ref string | Function_Parameter api_ref api_ref
  | Function_Return api_ref api_ref | Function_Volatile api_ref | Function_Special api_ref
  | Function_Init api_ref init_callback | Function_Body api_ref eval_callback
  | Register_Function api_ref api_ref bool | Destroy_Function api_ref
  | Create_Option api_ref | Option_Name api_ref string | Option_Type api_ref api_ref
  | Option_Default api_ref api_ref | Option_Scope api_ref option_scope
  | Register_Option api_ref api_ref bool | Destroy_Option api_ref
  | Connect api_ref | Disconnect api_ref
  | Report_Error string

text \<open>The calls made so far, and the name of the next object DuckDB creates.\<close>

record api_state =
  as_next :: api_ref
  as_log :: "api_call list"

definition issue :: "api_call \<Rightarrow> (api_state, unit) state" where
  "issue c = State (\<lambda>s. ((), s\<lparr>as_log := as_log s @ [c]\<rparr>))"

definition create :: "(api_ref \<Rightarrow> api_call) \<Rightarrow> (api_state, api_ref) state" where
  "create c = State (\<lambda>s. (as_next s, s\<lparr>as_next := Suc (as_next s), as_log := as_log s @ [c (as_next s)]\<rparr>))"

text \<open>A registration: DuckDB accepts it or not.\<close>

definition submit :: "(api_call list \<Rightarrow> bool) \<Rightarrow> (bool \<Rightarrow> api_call) \<Rightarrow> (api_state, bool) state" where
  "submit duckdb c = State (\<lambda>s.
     let accepted = duckdb (as_log s @ [c True]) in (accepted, s\<lparr>as_log := as_log s @ [c accepted]\<rparr>))"

text \<open>What the callbacks of the judgment functions run; the other two are \<open>clear_eval\<close> and \<open>profile_eval\<close>.\<close>

definition prob_eval where "prob_eval clock codec = run clock codec Fn_Prob"
definition bool_eval where "bool_eval clock codec = run clock codec Fn_Bool"
definition choice_eval where "choice_eval clock codec = run clock codec Fn_Choice"

section \<open>Registering the functions\<close>

text \<open>\<open>CString::new\<close> refuses a name with a NUL byte.\<close>

definition c_string :: "string \<Rightarrow> bool" where
  "c_string name \<longleftrightarrow> (\<forall>c \<in> set name. byte_of c \<noteq> 0)"

definition return_type_id :: "function_kind \<Rightarrow> duckdb_type" where
  "return_type_id kind = (case kind of Fn_Prob \<Rightarrow> T_DOUBLE | Fn_Bool \<Rightarrow> T_BOOLEAN | Fn_Choice \<Rightarrow> T_VARCHAR)"

definition register_function ::
  "(api_call list \<Rightarrow> bool) \<Rightarrow> api_ref \<Rightarrow> string \<Rightarrow> function_kind \<Rightarrow> eval_callback \<Rightarrow> (api_state, bool) state" where
  "register_function duckdb con name kind eval = do {
     function \<leftarrow> create Create_Function;
     if \<not> c_string name then State_Monad.return False
     else do {
       issue (Function_Name function name);
       any \<leftarrow> create (\<lambda>r. Create_Type r Sql_Any);
       issue (Function_Parameter function any);
       varchar \<leftarrow> create (\<lambda>r. Create_Type r (Sql T_VARCHAR));
       issue (Function_Parameter function varchar);
       (if kind = Fn_Choice
        then do {
          list \<leftarrow> create (\<lambda>r. Create_List_Type r varchar);
          issue (Function_Parameter function list);
          issue (Destroy_Type list)
        }
        else State_Monad.return ());
       return_type \<leftarrow> create (\<lambda>r. Create_Type r (Sql (return_type_id kind)));
       issue (Function_Return function return_type);
       issue (Function_Volatile function);
       issue (Function_Special function);
       issue (Function_Init function Init_Judgment);
       issue (Function_Body function eval);
       rc \<leftarrow> submit duckdb (Register_Function con function);
       issue (Destroy_Function function);
       issue (Destroy_Type return_type);
       issue (Destroy_Type varchar);
       issue (Destroy_Type any);
       State_Monad.return rc
     }
   }"

definition register_prob :: "(api_call list \<Rightarrow> bool) \<Rightarrow> api_ref \<Rightarrow> (api_state, bool) state" where
  "register_prob duckdb con = register_function duckdb con ''jev_prob'' Fn_Prob Eval_Prob"

definition register_bool :: "(api_call list \<Rightarrow> bool) \<Rightarrow> api_ref \<Rightarrow> (api_state, bool) state" where
  "register_bool duckdb con = register_function duckdb con ''jev_bool'' Fn_Bool Eval_Bool"

definition register_choice :: "(api_call list \<Rightarrow> bool) \<Rightarrow> api_ref \<Rightarrow> (api_state, bool) state" where
  "register_choice duckdb con = register_function duckdb con ''jev_choice'' Fn_Choice Eval_Choice"

text \<open>The two functions without parameters.\<close>

definition register_cache_clear :: "(api_call list \<Rightarrow> bool) \<Rightarrow> api_ref \<Rightarrow> (api_state, bool) state" where
  "register_cache_clear duckdb con = do {
     function \<leftarrow> create Create_Function;
     issue (Function_Name function ''duckjeu_cache_clear'');
     return_type \<leftarrow> create (\<lambda>r. Create_Type r (Sql T_BIGINT));
     issue (Function_Return function return_type);
     issue (Function_Volatile function);
     issue (Function_Special function);
     issue (Function_Init function Init_Cache_Clear);
     issue (Function_Body function Eval_Cache_Clear);
     status \<leftarrow> submit duckdb (Register_Function con function);
     issue (Destroy_Function function);
     issue (Destroy_Type return_type);
     State_Monad.return status
   }"

definition register_profile :: "(api_call list \<Rightarrow> bool) \<Rightarrow> api_ref \<Rightarrow> (api_state, bool) state" where
  "register_profile duckdb con = do {
     function \<leftarrow> create Create_Function;
     issue (Function_Name function ''duckjeu_last_profile'');
     return_type \<leftarrow> create (\<lambda>r. Create_Type r (Sql T_VARCHAR));
     issue (Function_Return function return_type);
     issue (Function_Volatile function);
     issue (Function_Special function);
     issue (Function_Init function Init_Profile);
     issue (Function_Body function Eval_Profile);
     status \<leftarrow> submit duckdb (Register_Function con function);
     issue (Destroy_Function function);
     issue (Destroy_Type return_type);
     State_Monad.return status
   }"

section \<open>Registering the options\<close>

text \<open>
  The three functions that register one option differ only in the type and the default value they create;
  the names are constants without NUL bytes, so the code's \<open>expect\<close> holds.
\<close>

definition register_option ::
  "(api_call list \<Rightarrow> bool) \<Rightarrow> api_ref \<Rightarrow> duckdb_type \<Rightarrow> string \<Rightarrow> config_value \<Rightarrow> (api_state, bool) state" where
  "register_option duckdb con type_id name default_value = do {
     opt \<leftarrow> create Create_Option;
     issue (Option_Name opt name);
     ty \<leftarrow> create (\<lambda>r. Create_Type r (Sql type_id));
     issue (Option_Type opt ty);
     val \<leftarrow> create (\<lambda>r. Create_Value r default_value);
     issue (Option_Default opt val);
     issue (Option_Scope opt Scope_Session);
     rc \<leftarrow> submit duckdb (Register_Option con opt);
     issue (Destroy_Option opt);
     issue (Destroy_Value val);
     issue (Destroy_Type ty);
     State_Monad.return rc
   }"

definition register_varchar_option where
  "register_varchar_option duckdb con name d = register_option duckdb con T_VARCHAR name (varchar_option d)"

definition register_bigint_option where
  "register_bigint_option duckdb con name d = register_option duckdb con T_BIGINT name (bigint_option d)"

definition register_boolean_option where
  "register_boolean_option duckdb con name d = register_option duckdb con T_BOOLEAN name (boolean_option d)"

text \<open>\<open>ok &= f(con)\<close> over the registrations: every one is made, whatever became of the others.\<close>

fun register_each :: "(api_state, bool) state list \<Rightarrow> bool \<Rightarrow> (api_state, bool) state" where
  "register_each [] ok = State_Monad.return ok"
| "register_each (m # ms) ok = do { rc \<leftarrow> m; register_each ms (ok \<and> rc) }"

definition register_config_options :: "(api_call list \<Rightarrow> bool) \<Rightarrow> api_ref \<Rightarrow> (api_state, bool) state" where
  "register_config_options duckdb con = register_each
     [register_varchar_option duckdb con OPTION_PROVIDER (kind_as_str Provider_Mock),
      register_varchar_option duckdb con OPTION_API_URL DEFAULT_API_URL,
      register_varchar_option duckdb con OPTION_LOCAL_JEV_API_URL DEFAULT_LOCAL_JEV_API_URL,
      register_varchar_option duckdb con OPTION_MODEL '''',
      register_bigint_option duckdb con OPTION_TIMEOUT_MS DEFAULT_TIMEOUT_MS,
      register_bigint_option duckdb con OPTION_MAX_RESPONSE_BYTES DEFAULT_MAX_RESPONSE_BYTES,
      register_varchar_option duckdb con OPTION_EXECUTION_MODE ''row'',
      register_boolean_option duckdb con OPTION_BATCH_ENABLED False,
      register_bigint_option duckdb con OPTION_BATCH_MAX_JUDGMENTS 16,
      register_bigint_option duckdb con OPTION_MAX_REQUEST_BYTES 262144,
      register_bigint_option duckdb con OPTION_MAX_INFLIGHT 4,
      register_boolean_option duckdb con OPTION_CACHE_ENABLED False,
      register_bigint_option duckdb con OPTION_CACHE_MAX_ENTRIES 10000,
      register_bigint_option duckdb con OPTION_CACHE_MAX_BYTES 67108864,
      register_bigint_option duckdb con OPTION_CACHE_TTL_MS 60000,
      register_boolean_option duckdb con OPTION_PROFILE_ENABLED False] True"

section \<open>The entry point\<close>

text \<open>
  What \<open>duckjeu_init_c_api\<close> finds: the outcome of \<open>duckdb_rs_extension_api_init\<close> for a version, whether the
  two access functions are there, whether the database pointer is null, and whether a connection opens.
\<close>

record host_access =
  ha_api_init :: "string \<Rightarrow> string + bool"
  ha_set_error :: bool
  ha_get_database :: "bool option"
  ha_connects :: bool

definition MINIMUM_DUCKDB_VERSION :: string where
  "MINIMUM_DUCKDB_VERSION = ''v1.5.5''"

definition report_error :: "host_access \<Rightarrow> string \<Rightarrow> (api_state, unit) state" where
  "report_error access message =
     (if ha_set_error access then issue (Report_Error (set_error message)) else State_Monad.return ())"

definition register_all :: "(api_call list \<Rightarrow> bool) \<Rightarrow> host_access \<Rightarrow> api_ref \<Rightarrow> (api_state, bool) state" where
  "register_all duckdb access connection = do {
     ok \<leftarrow> register_config_options duckdb connection;
     (if \<not> ok then report_error access ''duckjeu: could not register session config options''
      else State_Monad.return ());
     ok \<leftarrow> register_each
       [register_prob duckdb connection, register_bool duckdb connection, register_choice duckdb connection,
        register_cache_clear duckdb connection, register_profile duckdb connection] ok;
     (if \<not> ok then report_error access ''duckjeu: could not register one or more scalar functions''
      else State_Monad.return ());
     State_Monad.return ok
   }"

definition duckjeu_init_c_api :: "(api_call list \<Rightarrow> bool) \<Rightarrow> host_access \<Rightarrow> (api_state, bool) state" where
  "duckjeu_init_c_api duckdb access =
     (case ha_api_init access MINIMUM_DUCKDB_VERSION of
        Inl message \<Rightarrow> do { report_error access message; State_Monad.return False }
      | Inr False \<Rightarrow> do { report_error access ''duckjeu requires DuckDB v1.5.5''; State_Monad.return False }
      | Inr True \<Rightarrow>
          (case ha_get_database access of
             None \<Rightarrow> do { report_error access ''duckjeu: get_database is unavailable''; State_Monad.return False }
           | Some False \<Rightarrow> State_Monad.return False
           | Some True \<Rightarrow>
               if \<not> ha_connects access
               then do { report_error access ''duckjeu: could not open a connection''; State_Monad.return False }
               else do {
                 connection \<leftarrow> create Connect;
                 ok \<leftarrow> register_all duckdb access connection;
                 issue (Disconnect connection);
                 State_Monad.return ok
               }))"

text \<open>The published list of the judgment functions.\<close>

definition FUNCTIONS :: "(string \<times> function_kind) list" where
  "FUNCTIONS = [(''jev_prob'', Fn_Prob), (''jev_bool'', Fn_Bool), (''jev_choice'', Fn_Choice)]"

end
