(* ===== verification/Extension_Catalogue.thy ===== *)
theory Extension_Catalogue
  imports Extension
begin

text \<open>
  What the calls of \<open>Extension\<close> mean: the objects that are alive, with their contents, and what has been
  registered. A call that names an object that is not alive, or is of another kind, has no meaning, so a
  log that has one is free of use after destruction; and loading is shown to leave no object behind.
\<close>

section \<open>The specification of the C API\<close>

record function_entry =
  fe_name :: string
  fe_parameters :: "sql_type list"
  fe_return :: "sql_type option"
  fe_volatile :: bool
  fe_special :: bool
  fe_init :: "init_callback option"
  fe_eval :: "eval_callback option"

record option_entry =
  oe_name :: string
  oe_type :: "sql_type option"
  oe_default :: "config_value option"
  oe_scope :: "option_scope option"

datatype api_object =
    Obj_Connection | Obj_Type sql_type | Obj_Value config_value
  | Obj_Function function_entry | Obj_Option option_entry

record catalogue =
  ct_objects :: "api_ref \<Rightarrow> api_object option"
  ct_functions :: "function_entry list"
  ct_options :: "option_entry list"
  ct_errors :: "string list"

definition empty_catalogue :: catalogue where
  "empty_catalogue = \<lparr>ct_objects = (\<lambda>_. None), ct_functions = [], ct_options = [], ct_errors = []\<rparr>"

definition new_function :: function_entry where
  "new_function = \<lparr>fe_name = '''', fe_parameters = [], fe_return = None, fe_volatile = False, fe_special = False,
     fe_init = None, fe_eval = None\<rparr>"

definition new_option :: option_entry where
  "new_option = \<lparr>oe_name = '''', oe_type = None, oe_default = None, oe_scope = None\<rparr>"

definition put_object :: "api_ref \<Rightarrow> api_object \<Rightarrow> catalogue \<Rightarrow> catalogue option" where
  "put_object r obj c = Some (c\<lparr>ct_objects := (ct_objects c)(r \<mapsto> obj)\<rparr>)"

definition new_object :: "api_ref \<Rightarrow> api_object \<Rightarrow> catalogue \<Rightarrow> catalogue option" where
  "new_object r obj c = (if ct_objects c r = None then put_object r obj c else None)"

definition drop_object :: "api_ref \<Rightarrow> catalogue \<Rightarrow> catalogue option" where
  "drop_object r c = Some (c\<lparr>ct_objects := (ct_objects c)(r := None)\<rparr>)"

definition type_of :: "api_ref \<Rightarrow> catalogue \<Rightarrow> sql_type option" where
  "type_of r c = (case ct_objects c r of Some (Obj_Type t) \<Rightarrow> Some t | _ \<Rightarrow> None)"

definition with_function ::
  "api_ref \<Rightarrow> catalogue \<Rightarrow> (function_entry \<Rightarrow> catalogue option) \<Rightarrow> catalogue option" where
  "with_function r c f = (case ct_objects c r of Some (Obj_Function e) \<Rightarrow> f e | _ \<Rightarrow> None)"

definition with_option ::
  "api_ref \<Rightarrow> catalogue \<Rightarrow> (option_entry \<Rightarrow> catalogue option) \<Rightarrow> catalogue option" where
  "with_option r c f = (case ct_objects c r of Some (Obj_Option e) \<Rightarrow> f e | _ \<Rightarrow> None)"

definition set_function :: "api_ref \<Rightarrow> catalogue \<Rightarrow> (function_entry \<Rightarrow> function_entry) \<Rightarrow> catalogue option" where
  "set_function r c f = with_function r c (\<lambda>e. put_object r (Obj_Function (f e)) c)"

definition set_option :: "api_ref \<Rightarrow> catalogue \<Rightarrow> (option_entry \<Rightarrow> option_entry) \<Rightarrow> catalogue option" where
  "set_option r c f = with_option r c (\<lambda>e. put_object r (Obj_Option (f e)) c)"

fun apply_call :: "api_call \<Rightarrow> catalogue \<Rightarrow> catalogue option" where
  "apply_call (Create_Type r t) c = new_object r (Obj_Type t) c"
| "apply_call (Create_List_Type r t) c =
     Option.bind (type_of t c) (\<lambda>t. new_object r (Obj_Type (Sql_List t)) c)"
| "apply_call (Destroy_Type r) c = Option.bind (type_of r c) (\<lambda>_. drop_object r c)"
| "apply_call (Create_Value r v) c = new_object r (Obj_Value v) c"
| "apply_call (Destroy_Value r) c =
     (case ct_objects c r of Some (Obj_Value _) \<Rightarrow> drop_object r c | _ \<Rightarrow> None)"
| "apply_call (Create_Function r) c = new_object r (Obj_Function new_function) c"
| "apply_call (Function_Name r n) c = set_function r c (\<lambda>e. e\<lparr>fe_name := n\<rparr>)"
| "apply_call (Function_Parameter r t) c =
     Option.bind (type_of t c) (\<lambda>t. set_function r c (\<lambda>e. e\<lparr>fe_parameters := fe_parameters e @ [t]\<rparr>))"
| "apply_call (Function_Return r t) c =
     Option.bind (type_of t c) (\<lambda>t. set_function r c (\<lambda>e. e\<lparr>fe_return := Some t\<rparr>))"
| "apply_call (Function_Volatile r) c = set_function r c (\<lambda>e. e\<lparr>fe_volatile := True\<rparr>)"
| "apply_call (Function_Special r) c = set_function r c (\<lambda>e. e\<lparr>fe_special := True\<rparr>)"
| "apply_call (Function_Init r f) c = set_function r c (\<lambda>e. e\<lparr>fe_init := Some f\<rparr>)"
| "apply_call (Function_Body r f) c = set_function r c (\<lambda>e. e\<lparr>fe_eval := Some f\<rparr>)"
| "apply_call (Register_Function con r accepted) c =
     (if ct_objects c con \<noteq> Some Obj_Connection then None
      else with_function r c (\<lambda>e. Some (if accepted then c\<lparr>ct_functions := ct_functions c @ [e]\<rparr> else c)))"
| "apply_call (Destroy_Function r) c = with_function r c (\<lambda>_. drop_object r c)"
| "apply_call (Create_Option r) c = new_object r (Obj_Option new_option) c"
| "apply_call (Option_Name r n) c = set_option r c (\<lambda>e. e\<lparr>oe_name := n\<rparr>)"
| "apply_call (Option_Type r t) c =
     Option.bind (type_of t c) (\<lambda>t. set_option r c (\<lambda>e. e\<lparr>oe_type := Some t\<rparr>))"
| "apply_call (Option_Default r v) c =
     (case ct_objects c v of Some (Obj_Value d) \<Rightarrow> set_option r c (\<lambda>e. e\<lparr>oe_default := Some d\<rparr>) | _ \<Rightarrow> None)"
| "apply_call (Option_Scope r scope) c = set_option r c (\<lambda>e. e\<lparr>oe_scope := Some scope\<rparr>)"
| "apply_call (Register_Option con r accepted) c =
     (if ct_objects c con \<noteq> Some Obj_Connection then None
      else with_option r c (\<lambda>e. Some (if accepted then c\<lparr>ct_options := ct_options c @ [e]\<rparr> else c)))"
| "apply_call (Destroy_Option r) c = with_option r c (\<lambda>_. drop_object r c)"
| "apply_call (Connect r) c = new_object r Obj_Connection c"
| "apply_call (Disconnect r) c = (if ct_objects c r = Some Obj_Connection then drop_object r c else None)"
| "apply_call (Report_Error message) c = Some (c\<lparr>ct_errors := ct_errors c @ [message]\<rparr>)"

fun replay :: "api_call list \<Rightarrow> catalogue \<Rightarrow> catalogue option" where
  "replay [] c = Some c"
| "replay (call # calls) c = Option.bind (apply_call call c) (replay calls)"

lemma replay_append: "replay (xs @ ys) c = Option.bind (replay xs c) (replay ys)"
  by (induction xs arbitrary: c) (auto split: Option.bind_splits)

text \<open>The log means the catalogue \<open>c\<close>, and the names from \<open>as_next\<close> on are free.\<close>

definition means :: "api_state \<Rightarrow> catalogue \<Rightarrow> bool" where
  "means s c \<longleftrightarrow> replay (as_log s) empty_catalogue = Some c \<and> (\<forall>r \<ge> as_next s. ct_objects c r = None)"

section \<open>One registration\<close>

text \<open>The entries the extension offers.\<close>

definition function_offer :: "string \<Rightarrow> sql_type list \<Rightarrow> duckdb_type \<Rightarrow> init_callback \<Rightarrow> eval_callback \<Rightarrow> function_entry" where
  "function_offer name parameters return_type i e =
     \<lparr>fe_name = name, fe_parameters = parameters, fe_return = Some (Sql return_type), fe_volatile = True,
      fe_special = True, fe_init = Some i, fe_eval = Some e\<rparr>"

definition judgment_offer :: "string \<Rightarrow> function_kind \<Rightarrow> eval_callback \<Rightarrow> function_entry" where
  "judgment_offer name kind e = function_offer name
     ([Sql_Any, Sql T_VARCHAR] @ (if kind = Fn_Choice then [Sql_List (Sql T_VARCHAR)] else []))
     (return_type_id kind) Init_Judgment e"

definition option_offer :: "duckdb_type \<Rightarrow> string \<Rightarrow> config_value \<Rightarrow> option_entry" where
  "option_offer type_id name d =
     \<lparr>oe_name = name, oe_type = Some (Sql type_id), oe_default = Some d, oe_scope = Some Scope_Session\<rparr>"

lemmas api_ops = issue_def create_def submit_def
lemmas object_ops = new_object_def put_object_def drop_object_def type_of_def with_function_def with_option_def
  set_function_def set_option_def

lemma same_objects [simp]:
  "c\<lparr>ct_objects := ct_objects c\<rparr> = c" "c\<lparr>ct_options := os, ct_objects := ct_objects c\<rparr> = c\<lparr>ct_options := os\<rparr>"
  "c\<lparr>ct_functions := fs, ct_objects := ct_objects c\<rparr> = c\<lparr>ct_functions := fs\<rparr>"
  by simp_all

lemma meansD:
  assumes "means s c" "ct_objects c con = Some Obj_Connection"
  shows "replay (as_log s) empty_catalogue = Some c" "as_next s \<le> r \<Longrightarrow> ct_objects c r = None" "con < as_next s"
proof -
  show "replay (as_log s) empty_catalogue = Some c" "as_next s \<le> r \<Longrightarrow> ct_objects c r = None"
    using assms(1) by (simp_all add: means_def)
  show "con < as_next s" using assms by (metis means_def not_less option.distinct(1))
qed

text \<open>
  A registry is a part of the catalogue that registrations add entries to. What one registration does: it
  calls only what is alive, leaves the objects as they were, and adds its entry exactly when DuckDB accepts
  it. A list of them, combined by \<open>ok &= \<dots>\<close>, adds the accepted entries in order, and its result says
  whether that is all of them.
\<close>

locale registry =
  fixes add :: "'e list \<Rightarrow> catalogue \<Rightarrow> catalogue"
  assumes add_Nil: "add [] c = c"
    and add_append: "add (xs @ ys) c = add ys (add xs c)"
    and add_objects: "ct_objects (add xs c) = ct_objects c"
begin

definition adds :: "(api_state, bool) state \<Rightarrow> api_ref \<Rightarrow> 'e \<Rightarrow> bool" where
  "adds m con e \<longleftrightarrow> (\<forall>s c. means s c \<and> ct_objects c con = Some Obj_Connection \<longrightarrow>
     means (snd (run_state m s)) (add (if fst (run_state m s) then [e] else []) c))"

lemma addsI:
  assumes "\<And>s c. means s c \<Longrightarrow> ct_objects c con = Some Obj_Connection \<Longrightarrow>
      means (snd (run_state m s)) (add (if fst (run_state m s) then [e] else []) c)"
  shows "adds m con e"
  using assms unfolding adds_def by blast

lemma register_each_adds:
  assumes "list_all2 (\<lambda>m e. adds m con e) ms es"
    and "run_state (register_each ms ok) s = (r, s')" "means s c" "ct_objects c con = Some Obj_Connection"
  shows "\<exists>added. means s' (add added c) \<and> subseq added es \<and> (r \<longleftrightarrow> ok \<and> added = es)"
  using assms
proof (induction ms es arbitrary: s c ok rule: list_all2_induct)
  case Nil
  then show ?case by (auto simp: add_Nil intro: exI [of _ "[]"])
next
  case (Cons m ms e es)
  obtain rc s1 where m: "run_state m s = (rc, s1)" by fastforce
  let ?one = "if rc then [e] else []"
  have c1: "means s1 (add ?one c)" using Cons.hyps(1) m Cons.prems(2,3) unfolding adds_def by force
  have "run_state (register_each ms (ok \<and> rc)) s1 = (r, s')" using Cons.prems(1) m by simp
  from Cons.IH [OF this c1] Cons.prems(3) obtain added where
    added: "means s' (add (?one @ added) c)" "subseq added es" "r \<longleftrightarrow> (ok \<and> rc) \<and> added = es"
    by (auto simp: add_append add_objects)
  show ?case
  proof (cases rc)
    case True
    then show ?thesis using added by (intro exI [of _ "e # added"]) auto
  next
    case False
    then have "added \<noteq> e # es" using added(2) by (metis list_emb_length length_Cons Suc_n_not_le_n)
    then show ?thesis using added False by (intro exI [of _ added]) auto
  qed
qed

end

definition add_functions :: "function_entry list \<Rightarrow> catalogue \<Rightarrow> catalogue" where
  "add_functions es c = c\<lparr>ct_functions := ct_functions c @ es\<rparr>"

definition add_options :: "option_entry list \<Rightarrow> catalogue \<Rightarrow> catalogue" where
  "add_options es c = c\<lparr>ct_options := ct_options c @ es\<rparr>"

interpretation fregistry: registry add_functions
  by unfold_locales (simp_all add: add_functions_def)

interpretation oregistry: registry add_options
  by unfold_locales (simp_all add: add_options_def)

lemmas registration_simps = means_def replay_append api_ops Let_def object_ops new_function_def new_option_def
  judgment_offer_def function_offer_def option_offer_def fun_upd_idem add_functions_def add_options_def

lemma register_option_adds: "oregistry.adds (register_option duckdb con type_id name d) con (option_offer type_id name d)"
proof (rule oregistry.addsI)
  fix s c assume c: "means s c" "ct_objects c con = Some Obj_Connection"
  show "means (snd (run_state (register_option duckdb con type_id name d) s))
      (add_options (if fst (run_state (register_option duckdb con type_id name d) s)
         then [option_offer type_id name d] else []) c)"
    using meansD [OF c] c(2) by (simp add: registration_simps register_option_def)
qed

lemma register_function_adds:
  assumes "c_string name"
  shows "fregistry.adds (register_function duckdb con name kind e) con (judgment_offer name kind e)"
proof (rule fregistry.addsI)
  fix s c assume c: "means s c" "ct_objects c con = Some Obj_Connection"
  show "means (snd (run_state (register_function duckdb con name kind e) s))
      (add_functions (if fst (run_state (register_function duckdb con name kind e) s)
         then [judgment_offer name kind e] else []) c)"
    using meansD [OF c] c(2) assms
    by (cases "kind = Fn_Choice") (simp_all add: registration_simps register_function_def)
qed

definition clear_offer :: function_entry where
  "clear_offer = function_offer ''duckjeu_cache_clear'' [] T_BIGINT Init_Cache_Clear Eval_Cache_Clear"

definition profile_offer :: function_entry where
  "profile_offer = function_offer ''duckjeu_last_profile'' [] T_VARCHAR Init_Profile Eval_Profile"

lemma register_cache_clear_adds: "fregistry.adds (register_cache_clear duckdb con) con clear_offer"
proof (rule fregistry.addsI)
  fix s c assume c: "means s c" "ct_objects c con = Some Obj_Connection"
  show "means (snd (run_state (register_cache_clear duckdb con) s))
      (add_functions (if fst (run_state (register_cache_clear duckdb con) s) then [clear_offer] else []) c)"
    using meansD [OF c] c(2) by (simp add: registration_simps register_cache_clear_def clear_offer_def)
qed

lemma register_profile_adds: "fregistry.adds (register_profile duckdb con) con profile_offer"
proof (rule fregistry.addsI)
  fix s c assume c: "means s c" "ct_objects c con = Some Obj_Connection"
  show "means (snd (run_state (register_profile duckdb con) s))
      (add_functions (if fst (run_state (register_profile duckdb con) s) then [profile_offer] else []) c)"
    using meansD [OF c] c(2) by (simp add: registration_simps register_profile_def profile_offer_def)
qed

section \<open>What loading offers\<close>

definition offered_functions :: "function_entry list" where
  "offered_functions =
     [judgment_offer ''jev_prob'' Fn_Prob Eval_Prob, judgment_offer ''jev_bool'' Fn_Bool Eval_Bool,
      judgment_offer ''jev_choice'' Fn_Choice Eval_Choice, clear_offer, profile_offer]"

text \<open>The type an option is registered with is the one its default value has.\<close>

definition option_type :: "config_value \<Rightarrow> string \<Rightarrow> duckdb_type" where
  "option_type d name =
     (if cv_varchar d \<noteq> None then T_VARCHAR
      else if name \<in> {OPTION_BATCH_ENABLED, OPTION_CACHE_ENABLED, OPTION_PROFILE_ENABLED} then T_BOOLEAN
      else T_BIGINT)"

definition offered_options :: "option_entry list" where
  "offered_options = map (\<lambda>(name, d). option_offer (option_type d name) name d) registered_options"

lemma register_config_options_adds:
  assumes "run_state (register_config_options duckdb con) s = (r, s')" "means s c" "ct_objects c con = Some Obj_Connection"
  shows "\<exists>added. means s' (add_options added c) \<and> subseq added offered_options \<and> (r \<longleftrightarrow> added = offered_options)"
proof -
  have offered: "offered_options = 
     [option_offer T_VARCHAR OPTION_PROVIDER (varchar_option (kind_as_str Provider_Mock)),
      option_offer T_VARCHAR OPTION_API_URL (varchar_option DEFAULT_API_URL),
      option_offer T_VARCHAR OPTION_LOCAL_JEV_API_URL (varchar_option DEFAULT_LOCAL_JEV_API_URL),
      option_offer T_VARCHAR OPTION_MODEL (varchar_option ''''),
      option_offer T_BIGINT OPTION_TIMEOUT_MS (bigint_option DEFAULT_TIMEOUT_MS),
      option_offer T_BIGINT OPTION_MAX_RESPONSE_BYTES (bigint_option DEFAULT_MAX_RESPONSE_BYTES),
      option_offer T_VARCHAR OPTION_EXECUTION_MODE (varchar_option ''row''),
      option_offer T_BOOLEAN OPTION_BATCH_ENABLED (boolean_option False),
      option_offer T_BIGINT OPTION_BATCH_MAX_JUDGMENTS (bigint_option 16),
      option_offer T_BIGINT OPTION_MAX_REQUEST_BYTES (bigint_option 262144),
      option_offer T_BIGINT OPTION_MAX_INFLIGHT (bigint_option 4),
      option_offer T_BOOLEAN OPTION_CACHE_ENABLED (boolean_option False),
      option_offer T_BIGINT OPTION_CACHE_MAX_ENTRIES (bigint_option 10000),
      option_offer T_BIGINT OPTION_CACHE_MAX_BYTES (bigint_option 67108864),
      option_offer T_BIGINT OPTION_CACHE_TTL_MS (bigint_option 60000),
      option_offer T_BOOLEAN OPTION_PROFILE_ENABLED (boolean_option False)]"
    by code_simp
  note run = assms(1) [unfolded register_config_options_def register_varchar_option_def register_bigint_option_def
      register_boolean_option_def]
  have "\<exists>added. means s' (add_options added c) \<and> subseq added offered_options \<and> (r \<longleftrightarrow> True \<and> added = offered_options)"
    by (rule oregistry.register_each_adds [OF _ run assms(2,3)], unfold offered)
      (intro list.rel_intros register_option_adds)
  then show ?thesis by simp
qed

lemma register_functions_adds:
  assumes "run_state (register_each [register_prob duckdb con, register_bool duckdb con, register_choice duckdb con,
      register_cache_clear duckdb con, register_profile duckdb con] ok) s = (r, s')"
    and "means s c" "ct_objects c con = Some Obj_Connection"
  shows "\<exists>added. means s' (add_functions added c) \<and> subseq added offered_functions
    \<and> (r \<longleftrightarrow> ok \<and> added = offered_functions)"
proof (rule fregistry.register_each_adds [OF _ assms])
  have names: "c_string ''jev_prob''" "c_string ''jev_bool''" "c_string ''jev_choice''" by code_simp+
  show "list_all2 (\<lambda>m e. fregistry.adds m con e) [register_prob duckdb con, register_bool duckdb con,
      register_choice duckdb con, register_cache_clear duckdb con, register_profile duckdb con] offered_functions"
    unfolding offered_functions_def register_prob_def register_bool_def register_choice_def
    by (intro list.rel_intros register_function_adds register_cache_clear_adds register_profile_adds names)
qed

section \<open>Loading\<close>

definition before_load :: api_state where
  "before_load = \<lparr>as_next = 0, as_log = []\<rparr>"

lemma before_load_means: "means before_load empty_catalogue"
  by (simp add: means_def before_load_def empty_catalogue_def)

lemma means_report:
  "means s c \<Longrightarrow> means (snd (run_state (report_error access message) s))
     (c\<lparr>ct_errors := ct_errors c @ (if ha_set_error access then [set_error message] else [])\<rparr>)"
  by (simp add: report_error_def means_def replay_append issue_def)

text \<open>The registrations on an open connection: what was accepted, and whether an error was reported.\<close>

lemma register_all_means:
  assumes run: "run_state (register_all duckdb access con) s = (ok, s')" and c: "means s c" "ct_objects c con = Some Obj_Connection"
  shows "\<exists>opts fns errors.
      means s' (c\<lparr>ct_options := ct_options c @ opts, ct_functions := ct_functions c @ fns,
                  ct_errors := ct_errors c @ errors\<rparr>)
      \<and> subseq opts offered_options \<and> subseq fns offered_functions
      \<and> (ok \<longleftrightarrow> opts = offered_options \<and> fns = offered_functions)
      \<and> (errors = [] \<longleftrightarrow> ok \<or> \<not> ha_set_error access)"
proof -
  obtain ok1 s1 where m1: "run_state (register_config_options duckdb con) s = (ok1, s1)" by fastforce
  obtain opts where opts: "means s1 (add_options opts c)" "subseq opts offered_options"
    "ok1 \<longleftrightarrow> opts = offered_options" using register_config_options_adds [OF m1 c] by blast
  let ?report = "\<lambda>ok message. if \<not> ok then report_error access message else State_Monad.return ()"
  have reported: "\<exists>errors. means (snd (run_state (?report ok message) t)) (d\<lparr>ct_errors := ct_errors d @ errors\<rparr>)
      \<and> (errors = [] \<longleftrightarrow> ok \<or> \<not> ha_set_error access)" if "means t d" for ok message t d
    using means_report [OF that, of access message] that by (cases ok) (auto split: if_splits)
  obtain u2 s2 where m2: "run_state (?report ok1 ''duckjeu: could not register session config options'') s1 = (u2, s2)"
    by (metis surj_pair)
  from reported [OF opts(1), of ok1 "''duckjeu: could not register session config options''"]
  obtain errors1 where e1: "means s2 ((add_options opts c)\<lparr>ct_errors := ct_errors c @ errors1\<rparr>)"
    "errors1 = [] \<longleftrightarrow> ok1 \<or> \<not> ha_set_error access" by (auto simp: m2 add_options_def)
  obtain ok3 s3 where m3: "run_state (register_each [register_prob duckdb con, register_bool duckdb con,
      register_choice duckdb con, register_cache_clear duckdb con, register_profile duckdb con] ok1) s2 = (ok3, s3)" by fastforce
  obtain fns where fns: "subseq fns offered_functions" "ok3 \<longleftrightarrow> ok1 \<and> fns = offered_functions"
    "means s3 (add_functions fns ((add_options opts c)\<lparr>ct_errors := ct_errors c @ errors1\<rparr>))"
    using register_functions_adds [OF m3 e1(1)] c(2) by (auto simp: add_options_def)
  obtain u4 s4 where m4: "run_state (?report ok3 ''duckjeu: could not register one or more scalar functions'') s3 = (u4, s4)"
    by (metis surj_pair)
  from reported [OF fns(3), of ok3 "''duckjeu: could not register one or more scalar functions''"]
  obtain errors2 where e2: "means s4 (c\<lparr>ct_options := ct_options c @ opts,
      ct_functions := ct_functions c @ fns, ct_errors := ct_errors c @ errors1 @ errors2\<rparr>)"
    "errors2 = [] \<longleftrightarrow> ok3 \<or> \<not> ha_set_error access" by (auto simp: m4 add_functions_def add_options_def)
  have "ok = ok3" "s' = s4" using run m1 m2 m3 m4 by (simp_all add: register_all_def del: register_each.simps)
  then show ?thesis
    using opts fns e1(2) e2
    by (intro exI [of _ opts] exI [of _ fns] exI [of _ "errors1 @ errors2"])
      (auto simp: add_functions_def add_options_def)
qed

text \<open>
  Loading as a whole. A null database pointer is the one failure the entry point does not report itself.
\<close>

definition loaded :: "host_access \<Rightarrow> bool \<Rightarrow> catalogue \<Rightarrow> bool" where
  "loaded access ok c \<longleftrightarrow>
     ct_objects c = (\<lambda>_. None)
     \<and> subseq (ct_options c) offered_options \<and> subseq (ct_functions c) offered_functions
     \<and> (ok \<longleftrightarrow> ct_options c = offered_options \<and> ct_functions c = offered_functions)
     \<and> (ct_errors c = [] \<longleftrightarrow> ok \<or> \<not> ha_set_error access
          \<or> ha_api_init access MINIMUM_DUCKDB_VERSION = Inr True \<and> ha_get_database access = Some False)"

lemma offered_nonempty: "offered_functions \<noteq> []" "offered_options \<noteq> []"
  by (simp_all add: offered_functions_def offered_options_def registered_options_def)

lemma load_failed:
  assumes "run_state (report_error access message) before_load = (u, s')"
    and "\<not> (ha_api_init access MINIMUM_DUCKDB_VERSION = Inr True \<and> ha_get_database access = Some False)"
  shows "\<exists>c. replay (as_log s') empty_catalogue = Some c \<and> loaded access False c"
proof -
  let ?errors = "if ha_set_error access then [set_error message] else []"
  have "means s' (empty_catalogue\<lparr>ct_errors := ?errors\<rparr>)"
    using means_report [OF before_load_means, of access message] assms(1) by (simp add: empty_catalogue_def)
  then show ?thesis
    using assms(2) offered_nonempty
    by (intro exI [of _ "empty_catalogue\<lparr>ct_errors := ?errors\<rparr>"]) (auto simp: means_def loaded_def empty_catalogue_def)
qed

lemma load_open:
  assumes "run_state (register_all duckdb access 0) \<lparr>as_next = Suc 0, as_log = [Connect 0]\<rparr> = (ok, s1)"
    and "ha_get_database access \<noteq> Some False"
  shows "\<exists>c. replay (as_log s1 @ [Disconnect 0]) empty_catalogue = Some c \<and> loaded access ok c"
proof -
  let ?c0 = "empty_catalogue\<lparr>ct_objects := (\<lambda>_. None)(0 \<mapsto> Obj_Connection)\<rparr>"
  have "means \<lparr>as_next = Suc 0, as_log = [Connect 0]\<rparr> ?c0"
    by (auto simp: means_def object_ops empty_catalogue_def)
  from register_all_means [OF assms(1) this] obtain opts fns errors where
    s1: "means s1 (?c0\<lparr>ct_options := opts, ct_functions := fns, ct_errors := errors\<rparr>)"
    and ok: "subseq opts offered_options" "subseq fns offered_functions"
      "ok \<longleftrightarrow> opts = offered_options \<and> fns = offered_functions" "errors = [] \<longleftrightarrow> ok \<or> \<not> ha_set_error access"
    by (auto simp: empty_catalogue_def)
  let ?c = "empty_catalogue\<lparr>ct_options := opts, ct_functions := fns, ct_errors := errors\<rparr>"
  have "replay (as_log s1 @ [Disconnect 0]) empty_catalogue = Some ?c"
    using s1 by (simp add: means_def replay_append object_ops empty_catalogue_def fun_upd_idem)
  moreover have "loaded access ok ?c" using ok assms(2) by (auto simp: loaded_def empty_catalogue_def)
  ultimately show ?thesis by blast
qed

lemma load_means:
  assumes "run_state (duckjeu_init_c_api duckdb access) before_load = (ok, s')"
  shows "\<exists>c. replay (as_log s') empty_catalogue = Some c \<and> loaded access ok c"
proof -
  have report: "\<exists>c. replay (as_log s') empty_catalogue = Some c \<and> loaded access ok c"
    if "run_state (do { report_error access message; State_Monad.return False }) before_load = (ok, s')"
      "\<not> (ha_api_init access MINIMUM_DUCKDB_VERSION = Inr True \<and> ha_get_database access = Some False)" for message
    using that load_failed [OF _ that(2)] by (auto split: prod.splits)
  consider (refused) message where "run_state (do { report_error access message; State_Monad.return False }) before_load = (ok, s')"
      "\<not> (ha_api_init access MINIMUM_DUCKDB_VERSION = Inr True \<and> ha_get_database access = Some False)"
    | (null) "ha_api_init access MINIMUM_DUCKDB_VERSION = Inr True" "ha_get_database access = Some False" "\<not> ok" "s' = before_load"
    | (opened) s1 where "run_state (register_all duckdb access 0) \<lparr>as_next = Suc 0, as_log = [Connect 0]\<rparr> = (ok, s1)"
        "ha_get_database access \<noteq> Some False" "as_log s' = as_log s1 @ [Disconnect 0]"
    using assms
    by (auto simp: duckjeu_init_c_api_def create_def issue_def before_load_def
        split: sum.splits bool.splits option.splits if_splits prod.splits)
  then show ?thesis
  proof cases
    case refused
    then show ?thesis using report by blast
  next
    case null
    then show ?thesis using offered_nonempty
      by (auto simp: before_load_def loaded_def empty_catalogue_def)
  next
    case opened
    then show ?thesis using load_open by simp
  qed
qed

end
