(* ===== verification/Extension_Properties.thy ===== *)
theory Extension_Properties
  imports Extension_Catalogue
begin

text \<open>
  What loading the extension guarantees: the catalogue it registers, and that the registered signatures
  agree with what the functions read and write.
\<close>

section \<open>Loading\<close>

text \<open>C19: Loading registers exactly the documented catalogue and leaks nothing. Whatever DuckDB answers to
  the registrations, every call names only objects that are alive, every object created, the connection
  included, is destroyed again, and what ends up registered are offered options and functions in order,
  each at most once; loading succeeds exactly when all of them were accepted. When it fails, an error has
  been reported, unless DuckDB gave no way to report it or its database pointer was null.\<close>

theorem loading_registers_exactly_the_catalogue:
  assumes "run_state (duckjeu_init_c_api duckdb access) before_load = (ok, s')"
  shows "\<exists>c. replay (as_log s') empty_catalogue = Some c \<and> ct_objects c = (\<lambda>_. None)
    \<and> subseq (ct_options c) offered_options \<and> subseq (ct_functions c) offered_functions
    \<and> (ok \<longleftrightarrow> ct_options c = offered_options \<and> ct_functions c = offered_functions)
    \<and> (ct_errors c = [] \<longleftrightarrow> ok \<or> \<not> ha_set_error access
         \<or> ha_api_init access MINIMUM_DUCKDB_VERSION = Inr True \<and> ha_get_database access = Some False)"
  using load_means [OF assms] by (simp add: loaded_def)

definition sample_access :: host_access where
  "sample_access = \<lparr>ha_api_init = (\<lambda>_. Inr True), ha_set_error = True, ha_get_database = Some True, ha_connects = True\<rparr>"

text \<open>When DuckDB accepts everything, loading succeeds.\<close>

lemma accepts_option: "fst (run_state (register_option (\<lambda>_. True) con t name d) s)"
  by (simp add: register_option_def api_ops)

lemma accepts_function:
  "c_string name \<Longrightarrow> fst (run_state (register_function (\<lambda>_. True) con name kind e) s)"
  "fst (run_state (register_cache_clear (\<lambda>_. True) con) s)" "fst (run_state (register_profile (\<lambda>_. True) con) s)"
  by (simp_all add: register_function_def register_cache_clear_def register_profile_def api_ops)

lemma accepts_each: "(\<And>m t. m \<in> set ms \<Longrightarrow> fst (run_state m t)) \<Longrightarrow> fst (run_state (register_each ms ok) s) = ok"
proof (induction ms arbitrary: ok s)
  case (Cons m ms)
  obtain s1 where "run_state m s = (True, s1)" using Cons.prems [of m s] by (cases "run_state m s") auto
  then show ?case using Cons by simp
qed simp

lemma accepts_all: "fst (run_state (register_all (\<lambda>_. True) access con) s)"
proof -
  have names: "c_string ''jev_prob''" "c_string ''jev_bool''" "c_string ''jev_choice''" by code_simp+
  have opts: "fst (run_state (register_config_options (\<lambda>_. True) con) s)"
    unfolding register_config_options_def register_varchar_option_def register_bigint_option_def register_boolean_option_def
    by (subst accepts_each) (auto simp del: register_each.simps intro: accepts_option)
  have fns: "fst (run_state (register_each [register_prob (\<lambda>_. True) con, register_bool (\<lambda>_. True) con,
      register_choice (\<lambda>_. True) con, register_cache_clear (\<lambda>_. True) con, register_profile (\<lambda>_. True) con] True) t)" for t
    by (subst accepts_each)
      (auto simp: register_prob_def register_bool_def register_choice_def names accepts_function simp del: register_each.simps)
  obtain s1 where s1: "run_state (register_config_options (\<lambda>_. True) con) s = (True, s1)"
    using opts by (cases "run_state (register_config_options (\<lambda>_. True) con) s") simp
  show ?thesis
    using fns [of s1] s1 by (simp add: register_all_def split_def del: register_each.simps)
qed

theorem loading_registers_witness:
  "\<exists>s' c. run_state (duckjeu_init_c_api (\<lambda>_. True) sample_access) before_load = (True, s')
     \<and> replay (as_log s') empty_catalogue = Some c \<and> ct_functions c = offered_functions"
proof -
  have "fst (run_state (duckjeu_init_c_api (\<lambda>_. True) sample_access) before_load)"
    using accepts_all [of sample_access 0 "\<lparr>as_next = Suc 0, as_log = [Connect 0]\<rparr>"]
    by (auto simp: duckjeu_init_c_api_def sample_access_def create_def issue_def before_load_def split: prod.splits)
  then obtain s' where run: "run_state (duckjeu_init_c_api (\<lambda>_. True) sample_access) before_load = (True, s')"
    by (metis prod.collapse)
  from loading_registers_exactly_the_catalogue [OF this] run show ?thesis by blast
qed

section \<open>Signatures\<close>

text \<open>The evaluator and the kind of request of a callback that judges.\<close>

fun judgment_eval where
  "judgment_eval clock codec Eval_Prob = Some (Fn_Prob, prob_eval clock codec)"
| "judgment_eval clock codec Eval_Bool = Some (Fn_Bool, bool_eval clock codec)"
| "judgment_eval clock codec Eval_Choice = Some (Fn_Choice, choice_eval clock codec)"
| "judgment_eval clock codec _ = None"

fun cell_fits :: "duckdb_type \<Rightarrow> cell \<Rightarrow> bool" where
  "cell_fits t Cell_Null \<longleftrightarrow> True"
| "cell_fits t (Cell_Double _) \<longleftrightarrow> t = T_DOUBLE"
| "cell_fits t (Cell_Boolean _) \<longleftrightarrow> t = T_BOOLEAN"
| "cell_fits t (Cell_String _) \<longleftrightarrow> t = T_VARCHAR"
| "cell_fits t (Cell_Bigint _) \<longleftrightarrow> t = T_BIGINT"

definition cells_fit :: "duckdb_type \<Rightarrow> out_vector \<Rightarrow> bool" where
  "cells_fit t out \<longleftrightarrow> (\<forall>row c. out row = Some c \<longrightarrow> cell_fits t c)"

lemma cells_fit_upd: "cells_fit t out \<Longrightarrow> cell_fits t c \<Longrightarrow> cells_fit t (out(row \<mapsto> c))"
  by (auto simp: cells_fit_def)

lemma cells_fit_write:
  "cells_fit (return_type_id kind) out \<Longrightarrow> cells_fit (return_type_id kind) (write_result kind out row r)"
  "cells_fit t out \<Longrightarrow> cells_fit t (set_output_null out row)"
  by (auto simp: write_result_def set_output_null_def return_type_id_def cells_fit_upd
      split: function_kind.splits judgment_result.splits)

lemma cells_fit_publish:
  "cells_fit (return_type_id kind) out \<Longrightarrow> cells_fit (return_type_id kind) (publish_rows kind results rows out)"
  by (induction kind results rows out rule: publish_rows.induct) (auto simp: cells_fit_write split: option.splits)

lemma cells_fit_rows:
  "run_rows clock codec kind state scope input rows out sw = Some (r, out', sw') \<Longrightarrow>
   cells_fit (return_type_id kind) out \<Longrightarrow> cells_fit (return_type_id kind) out'"
  by (induction clock codec kind state scope input rows out sw rule: run_rows.induct)
    (auto simp: Let_def cells_fit_write split: option.splits sum.splits prod.splits)

lemma cells_fit_fill: "cells_fit t out \<Longrightarrow> cell_fits t c \<Longrightarrow> cells_fit t (fill_rows c rows out)"
  by (induction rows arbitrary: out) (auto simp: cells_fit_upd)

lemma cells_fit_run:
  "run clock codec kind st input counters out sw = Some (err, out', counters', sw') \<Longrightarrow>
   cells_fit (return_type_id kind) out \<Longrightarrow> cells_fit (return_type_id kind) out'"
proof -
  assume run: "run clock codec kind st input counters out sw = Some (err, out', counters', sw')"
    and out: "cells_fit (return_type_id kind) out"
  have chunk: "cells_fit (return_type_id kind) out1"
    if "run_optimized clock codec kind input state n counters out (s, w) = Some (r, out1, counters1, sw1)"
    for state n s w r out1 counters1 sw1
    using that out
    by (auto simp: run_optimized_def Let_def cells_fit_publish split: option.splits sum.splits prod.splits if_splits)
  show "cells_fit (return_type_id kind) out'"
    using run out
    by (cases sw)
      (auto simp: run_def Let_def dest: cells_fit_rows chunk split: option.splits prod.splits if_splits)
qed

lemma cells_fit_clear: "cells_fit T_BIGINT out \<Longrightarrow> cells_fit T_BIGINT (fst (snd (clear_eval clock st input data out sw)))"
  by (cases sw) (auto simp: clear_eval_def Let_def cells_fit_fill split: option.splits prod.splits)

lemma cells_fit_profile: "cells_fit T_VARCHAR out \<Longrightarrow> cells_fit T_VARCHAR (snd (profile_eval to_string st input out s))"
  by (auto simp: profile_eval_def Let_def cells_fit_fill split: option.splits)

text \<open>The arguments a judgment function reads are those it declares: further vectors make no difference.\<close>

lemma reads_declared:
  "length (dc_vectors input) = (if kind = Fn_Choice then 3 else 2) \<Longrightarrow>
   read_request codec kind (input\<lparr>dc_vectors := dc_vectors input @ extra\<rparr>) row = read_request codec kind input row"
  by (auto simp: read_request_def Let_def nth_append split: if_splits)

lemma offered_judgment:
  assumes "e \<in> set offered_functions" "fe_eval e = Some callback" "judgment_eval clock codec callback = Some (kind, eval)"
  shows "fe_return e = Some (Sql (return_type_id kind))" "length (fe_parameters e) = (if kind = Fn_Choice then 3 else 2)"
    "eval = run clock codec kind"
  using assms
  by (auto simp: offered_functions_def judgment_offer_def function_offer_def clear_offer_def
      profile_offer_def prob_eval_def bool_eval_def choice_eval_def)

lemma offered_other:
  assumes "e \<in> set offered_functions" "fe_return e = Some (Sql t)"
  shows "fe_eval e = Some Eval_Cache_Clear \<Longrightarrow> t = T_BIGINT" "fe_eval e = Some Eval_Profile \<Longrightarrow> t = T_VARCHAR"
  using assms
  by (auto simp: offered_functions_def judgment_offer_def function_offer_def clear_offer_def profile_offer_def)

text \<open>C20: Functions write what they declare. Whatever a registered function writes into its output vector,
  on error paths too, is NULL or a value of the SQL type it was registered with; and a judgment function
  reads no argument beyond the parameters it was registered with.\<close>

theorem functions_respect_their_signatures:
  assumes e: "e \<in> set offered_functions" "fe_return e = Some (Sql t)" and out: "cells_fit t out"
  shows "(\<forall>callback kind eval. fe_eval e = Some callback \<and> judgment_eval clock codec callback = Some (kind, eval) \<longrightarrow>
        (\<forall>err out' counters' sw'. eval st input counters out sw = Some (err, out', counters', sw') \<longrightarrow> cells_fit t out')
        \<and> (length (dc_vectors input) = length (fe_parameters e) \<longrightarrow>
             read_request codec kind (input\<lparr>dc_vectors := dc_vectors input @ extra\<rparr>) row = read_request codec kind input row))
    \<and> (fe_eval e = Some Eval_Cache_Clear \<longrightarrow> cells_fit t (fst (snd (clear_eval clock cst input data out sw))))
    \<and> (fe_eval e = Some Eval_Profile \<longrightarrow> cells_fit t (snd (profile_eval to_string pst input out s)))"
proof (intro conjI allI impI, goal_cases)
  case (1 callback kind eval err out' counters' sw')
  then have kind: "fe_eval e = Some callback" "judgment_eval clock codec callback = Some (kind, eval)" by simp_all
  note offered = offered_judgment [OF e(1) kind]
  have "t = return_type_id kind" using offered(1) e(2) by simp
  moreover have "run clock codec kind st input counters out sw = Some (err, out', counters', sw')" using 1(2) offered(3) by simp
  ultimately show ?case using cells_fit_run out by blast
next
  case (2 callback kind eval)
  then have kind: "fe_eval e = Some callback" "judgment_eval clock codec callback = Some (kind, eval)" by simp_all
  show ?case using offered_judgment(2) [OF e(1) kind] 2(2) by (intro reads_declared) simp
next
  case 3
  then show ?case using offered_other(1) [OF e] out by (simp add: cells_fit_clear)
next
  case 4
  then show ?case using offered_other(2) [OF e] out by (simp add: cells_fit_profile)
qed

theorem functions_respect_witness:
  "cells_fit T_VARCHAR (snd (profile_eval (\<lambda>_. Some ''{}'') (Some True) \<lparr>dc_vectors = [], dc_size = 1\<rparr> (\<lambda>_. None)
     (default_runtime 0 (\<lambda>_. 0) [])))"
proof -
  have "profile_offer \<in> set offered_functions" "fe_return profile_offer = Some (Sql T_VARCHAR)"
    "fe_eval profile_offer = Some Eval_Profile" "cells_fit T_VARCHAR (\<lambda>_. None)"
    by (simp_all add: offered_functions_def profile_offer_def function_offer_def cells_fit_def)
  from functions_respect_their_signatures [OF this(1,2,4), THEN conjunct2, THEN conjunct2, THEN mp, OF this(3)]
  show ?thesis .
qed

end
