(* ===== verification/Spec2Isabelle.thy ===== *)
theory Spec2Isabelle
  imports Core_Properties Functions_Properties Host_Properties Accounting Host_Lifecycle Bridge Extension_Properties
begin

text \<open>
  DuckJeu is a DuckDB extension: the SQL functions \<open>jev_prob\<close>, \<open>jev_bool\<close> and \<open>jev_choice\<close> ask a
  model service to judge the state in a row, one row at a time or, in optimized mode, one chunk at a
  time with sharing, caching and batching. This development models the Rust program under \<open>src/\<close> and
  proves what makes it correct. Every theory states which file it models; a definition has the name
  of the function or type it stands for, up to clashes with HOL.

  \<^bold>\<open>The parts, and the theories that model them.\<close>

  \<^item> \<open>crates/judgment-core/src/serialize.rs\<close>: canonical bytes of states and the JSON sent for them
    (\<open>Serialize\<close>, over \<open>Float64\<close> for the bits of an \<open>f64\<close> and \<open>Json\<close> for serde's value tree).
  \<^item> \<open>crates/judgment-core/src/judgment.rs\<close>: requests, identities, results, validation (\<open>Judgment\<close>).
  \<^item> \<open>crates/judgment-core/src/provider.rs\<close>: the \<open>Provider\<close> trait, a record of functions over the
    outside world \<open>'w\<close>, its default methods and the validation of batches (\<open>Provider_Protocol\<close>).
  \<^item> \<open>crates/judgment-core/src/cache.rs\<close>: the bounded cache (\<open>Cache\<close>), its abstraction to one list in
    order of recency (\<open>Cache_Refinement\<close>), its properties and its contract as a locale that the query
    runtime relies on (\<open>Cache_Properties\<close>).
  \<^item> \<open>crates/judgment-core/src/runtime.rs\<close>: query entries and the \<open>ExecutionRuntime\<close> trait
    (\<open>Query_Runtime\<close>), and \<open>metrics.rs\<close>, the counters and the profile (\<open>Metrics\<close>).
  \<^item> \<open>crates/judgment-core/src/executor.rs\<close>: grouping and execution one by one (\<open>Executor\<close>), batched
    execution (\<open>Batch_Executor\<close>); what the two share (\<open>Claim_Phase\<close>) and a batched run as a relation
    (\<open>Batch_Steps\<close>); that both give only valid answers over any runtime keeping a contract
    (\<open>Executor_Soundness\<close>, \<open>Batch_Soundness\<close>, the locales \<open>judgment_runtime\<close> and
    \<open>host_judgments\<close>), and what the provider is asked (\<open>Provider_Calls\<close>).
  \<^item> \<open>src/host/mod.rs\<close>: the runtime of a connection, that is query lifecycle, counters, credential
    scopes, query entries, request slots and cache (\<open>Host\<close>); the invariant of its state
    (\<open>Host_Runtime\<close>), progress (\<open>Host_Progress\<close>, \<open>Batch_Progress\<close>), credential scopes
    (\<open>Host_Properties\<close>), the accounting of both executors for every call they make (\<open>Accounting\<close>),
    and the state machine of the threads of a connection (\<open>Host_Lifecycle\<close>).
  \<^item> The handle functions of \<open>src/host/mod.rs\<close>, \<open>src/host/connection.rs\<close> and
    \<open>src/host/client_context.cpp\<close>: the reference-counted runtime behind C handles, its attachment to a
    client context, and the machine of DuckDB's calls (\<open>Bridge\<close>).
  \<^item> \<open>src/config.rs\<close>, \<open>src/provider/mod.rs\<close>, \<open>src/provider/localjev.rs\<close>: options, limits,
    credentials and the choice of a provider (\<open>Config\<close>, \<open>Config_Properties\<close>, with \<open>Utf8\<close> for the
    lossy decoding of option values).
  \<^item> \<open>src/provider/mock.rs\<close>: the offline provider (\<open>Mock\<close>), and \<open>src/provider/typesafe.rs\<close>: request
    bodies, the HTTP exchange and the parsing of responses (\<open>Typesafe\<close>, \<open>Typesafe_Properties\<close>).
  \<^item> \<open>src/functions/\<close>: reading arguments (\<open>Vectors\<close>), evaluation in both modes, publication, cache
    clearing and the last profile (\<open>Functions\<close>); soundness, progress and the properties of a whole
    SQL call (\<open>Functions_Soundness\<close>, \<open>Functions_Progress\<close>, \<open>Functions_Properties\<close>).
  \<^item> \<open>src/lib.rs\<close> and the \<open>register\<close> functions of \<open>src/config.rs\<close> and \<open>src/functions/\<close>: loading the
    extension as a program over a log of C API calls (\<open>Extension\<close>), what these calls mean as a
    catalogue of options and functions (\<open>Extension_Catalogue\<close>) and what a load achieves
    (\<open>Extension_Properties\<close>).

  A load runs \<open>duckjeu_init_c_api\<close>, which registers options and functions. DuckDB then runs \<open>scalar_init\<close>
  of \<open>Bridge\<close> for each thread of a query, which finds the runtime of the connection. A call runs \<open>run\<close> of \<open>Functions\<close>, which reads requests through \<open>Vectors\<close>, groups them, and hands them
  with \<open>host_ops\<close> of \<open>Host\<close> and the provider chosen by \<open>Config\<close> to one of the two executors. \<open>Prelude\<close>
  holds the shared lemmas, \<open>Samples\<close> the concrete inputs.

  \<^bold>\<open>How the code is read.\<close> Machine integers are words of their width, with saturating and checked
  arithmetic written out; strings are their UTF-8 bytes; an \<open>f64\<close> is its 64 bits. A \<open>Result\<close> is a sum
  with the error on the left, and every early return is a branch. Maps that are iterated are association
  lists. Time is a count of nanoseconds read from the outside world by the parameter \<open>clock\<close>.

  \<^bold>\<open>Threads.\<close> Each method of the runtime runs under its mutex, so it is one step on the state. Where the
  code sleeps, in \<open>wait\<close> and \<open>acquire_loop\<close>, other threads may take any number of steps on the
  runtime: the field \<open>cr_pending\<close>, which is not in the code, lists what they will do during each coming
  sleep, and the theorems hold for every such list. The field \<open>qh_created_for\<close>, not in the code either,
  records the identity an entry was created for. These loops may never end; their result is then None
  (\<open>partial_function\<close>), and that calls do return is proved as such.

  \<^bold>\<open>Parameters.\<close> serde_json, ureq and the clock are the record \<open>services\<close>; the printing of floats and
  JSON strings is the record \<open>text_codec\<close>, with its laws as the locale \<open>text_codec_laws\<close>, which the
  concrete \<open>reference_codec\<close> satisfies; the process environment, DuckDB's client context and the hash of
  \<open>RandomState\<close> are functions. A DuckDB vector is what the C API shows of it.

  \<^bold>\<open>What the properties show.\<close> Safety of results: whatever a provider answers and other threads do, a
  row gets NULL or a result valid for its own question (C1 to C3); with the offline provider the modes,
  sharing, caching and batching agree with asking each row alone (C4, C5). What leaves the process: limits, admissible
  batches, credentials, redaction. Progress: calls return in both modes, batched or not, and, when every
  row can be judged, succeed; request slots are never lost and an ended query releases its waiters. Memory:
  no handle or runtime is used after it is freed or leaked, and connections are isolated. Loading: exactly
  the offered options and functions are registered, with types their evaluators respect.
  Accounting: in optimized mode usage and cost cover every call made. The cache refines a recency-ordered list. Below
  these, each encoder, parser, validator and setting is characterised exactly.

  \<^bold>\<open>Not modelled.\<close> The build script \<open>build.rs\<close> and the files that only re-export (\<open>src/cache.rs\<close>,
  \<open>src/judgment.rs\<close>, \<open>src/serialize.rs\<close>, \<open>src/executor.rs\<close>, \<open>crates/judgment-core/src/lib.rs\<close>) hold
  no behaviour. DuckDB's C API is not under \<open>src/\<close>: its answers while loading are a parameter, the
  pointers it passes are taken to be what it documents, and \<open>Bridge\<close> lets it call back in any order the
  interface allows. \<open>Display\<close> and \<open>Debug\<close> output, poisoned locks and running out of memory are left
  out; a panic is described where the code can reach one.
\<close>

section \<open>Grouping\<close>

text \<open>C21: Grouping yields one group per distinct identity, in order of first appearance, with the
  request of the first row asking it; no row target is lost, duplicated or moved to another
  judgment.\<close>

theorem grouping_is_exact:
  "group_by_identity work = group_spec work
   \<and> distinct (map jg_identity (group_by_identity work))
   \<and> mset (concat (map jg_targets (group_by_identity work))) = mset (map jw_target work)"
  using group_identities [of work] group_targets [of work] by (simp add: group_by_identity_spec)

section \<open>The executors over the connection runtime\<close>

lemma valid_for_groups:
  assumes "\<forall>g \<in> set groups. \<exists>c. jg_identity g = new_identity (jg_request g) c"
    and "list_all2 (\<lambda>g. valid_for_identity (jg_identity g)) groups vs"
  shows "list_all2 (\<lambda>g. valid_answer (rq_kind (jg_request g)) (rq_choices (jg_request g))) groups vs"
proof (rule list.rel_mono_strong [OF assms(2)])
  fix g v assume "g \<in> set groups" "valid_for_identity (jg_identity g) v"
  then show "valid_answer (rq_kind (jg_request g)) (rq_choices (jg_request g)) v"
    using assms(1) by (fastforce simp: valid_for_identity_def new_identity_def)
qed

text \<open>C1: Row results are valid whatever the provider returns. Running groups one by one on a
  connection runtime, with a provider that may answer anything or fail at any call, with a cache, and
  with other threads sharing entries, completing and clearing them, a successful run gives every
  target of every group exactly one result, in order, and that result is a valid answer to the
  group's question: a finite probability in [0,1] or one of its candidate labels.\<close>

theorem execute_groups_only_valid_answers:
  assumes "execute_groups groups clock provider host_ops limits policy (s, w) = Some (Inr out, s', w')"
    and "host_inv valid_for_identity s"
    and "\<forall>g \<in> set groups. \<exists>c. jg_identity g = new_identity (jg_request g) c"
  shows "\<exists>vs. list_all2 (\<lambda>g. valid_answer (rq_kind (jg_request g)) (rq_choices (jg_request g))) groups vs
    \<and> out = expand groups vs"
proof -
  have "group_judges valid_for_request valid_for_identity g" if "g \<in> set groups" for g
    using assms(3) that group_judges_valid by blast
  from valid.execute_groups_sound [OF assms(1,2) every_provider_sound this]
  obtain vs where vs: "list_all2 (\<lambda>g. valid_for_identity (jg_identity g)) groups vs" "out = expand groups vs"
    by blast
  then show ?thesis using valid_for_groups [OF assms(3)] by blast
qed

text \<open>C2: The same holds of batching, where answers come back in any order under request keys: a
  successful run gives every target of every group exactly one result and each is a valid answer to
  its own group's question.\<close>

theorem execute_batch_groups_only_valid_answers:
  assumes "execute_batch_groups groups clock provider host_ops mx limits policy (s, w) = Some (Inr out, s', w')"
    and "host_inv valid_for_identity s"
    and "\<forall>g \<in> set groups. \<exists>c. jg_identity g = new_identity (jg_request g) c"
  shows "\<exists>vs. list_all2 (\<lambda>g. valid_answer (rq_kind (jg_request g)) (rq_choices (jg_request g))) groups vs
    \<and> mset out = mset (expand groups vs)"
proof -
  have "group_judges valid_for_request valid_for_identity g" if "g \<in> set groups" for g
    using assms(3) that group_judges_valid by blast
  from valid.execute_batch_groups_sound [OF assms(1,2) every_provider_sound this]
  obtain vs where vs: "list_all2 (\<lambda>g. valid_for_identity (jg_identity g)) groups vs"
    "mset out = mset (expand groups vs)" by blast
  then show ?thesis using valid_for_groups [OF assms(3)] by blast
qed

text \<open>C6: Batched calls respect the limits. Whatever holds of the outside world and is stable under
  the clock and under admissible calls still holds after a run: every call carries at least one and at
  most the configured (and advertised) number of requests, is estimated within the byte limit, has
  pairwise distinct keys, and never mixes groups of different questions, endpoints, models or
  credentials.\<close>

theorem batch_calls_are_admissible:
  assumes "execute_batch_groups groups clock provider rt mx limits policy (s, w) = Some (r, s', w')"
    and "stable_clock clock J" and "J w"
    and "\<forall>rqs w. J w \<longrightarrow>
      admissible_batch groups provider (batch_limit (p_capabilities provider) mx) limits rqs \<longrightarrow>
      J (snd (p_judge_many provider rqs w))"
  shows "J w'"
  using execute_batch_groups_world [OF assms(1-3)] assms(4) by blast

text \<open>C33: Calls made one by one respect the byte limit: each carries the request of one of the groups,
  and only when its estimate is within the limit.\<close>

theorem single_calls_are_admissible:
  assumes "execute_groups groups clock provider rt limits policy (s, w) = Some (r, s', w')"
    and "stable_clock clock J" and "J w"
    and "\<forall>rq w. J w \<longrightarrow> admissible_single groups provider limits rq \<longrightarrow>
      J (snd (p_judge_with_metadata provider rq w))"
  shows "J w'"
proof (cases "el_max_request_bytes limits = 0")
  case True
  then show ?thesis using assms(1,3) by (simp add: execute_groups_def)
next
  case False
  then have "execute_each clock rt provider limits policy [] groups (s, w) = Some (r, s', w')"
    using assms(1) by (simp add: execute_groups_def)
  from execute_each_world [OF this assms(2,3)] show ?thesis using assms(4) by blast
qed

section \<open>Deterministic results\<close>

lemma mock_for_groups:
  assumes "\<forall>g \<in> set groups. \<exists>c. jg_identity g = new_identity (jg_request g) c"
    and "list_all2 (\<lambda>g. mock_answers_identity (jg_identity g)) groups vs"
  shows "map Inr vs = map (\<lambda>g. mock_judge_result (jg_request g)) groups"
proof -
  have "list_all2 (\<lambda>g v. mock_judge_result (jg_request g) = Inr v) groups vs"
  proof (rule list.rel_mono_strong [OF assms(2)])
    fix g v assume "g \<in> set groups" "mock_answers_identity (jg_identity g) v"
    then show "mock_judge_result (jg_request g) = Inr v"
      using assms(1) mock_judge_identity by (metis mock_answers_identity_def)
  qed
  then show ?thesis by (induction groups vs rule: list_all2_induct) simp_all
qed

lemma mock_judges_groups:
  "\<forall>g \<in> set groups. \<exists>c. jg_identity g = new_identity (jg_request g) c \<Longrightarrow>
   g \<in> set groups \<Longrightarrow> group_judges mock_answers_request mock_answers_identity g"
  using mock_group_judges by blast

text \<open>C5: Sharing, caching and batching are transparent. With the offline provider, and whatever other
  threads do with entries and cache as long as they too store that provider's answers, a successful
  run one by one and a successful batched run both give every target exactly the answer the provider
  gives to that row's own request asked alone. A model service may answer a question differently when it
  sees the other rows of a batch; what then holds of its answers are C1 to C3.\<close>

theorem optimized_results_equal_direct_answers:
  assumes "execute_groups groups clock mock_provider host_ops limits policy (s, w) = Some (Inr out, s1, w1)
      \<or> execute_batch_groups groups clock mock_provider host_ops mx limits policy (s, w) = Some (Inr out, s1, w1)"
    and "host_inv mock_answers_identity s"
    and groups: "\<forall>g \<in> set groups. \<exists>c. jg_identity g = new_identity (jg_request g) c"
  shows "\<exists>vs. map Inr vs = map (\<lambda>g. mock_judge_result (jg_request g)) groups \<and> mset out = mset (expand groups vs)"
  using assms(1)
proof
  assume run: "execute_groups groups clock mock_provider host_ops limits policy (s, w) = Some (Inr out, s1, w1)"
  show ?thesis
    using mocked.execute_groups_sound [OF run assms(2) mock_sound mock_judges_groups [OF groups]]
      mock_for_groups [OF groups] by blast
next
  assume run: "execute_batch_groups groups clock mock_provider host_ops mx limits policy (s, w) = Some (Inr out, s1, w1)"
  show ?thesis
    using mocked.execute_batch_groups_sound [OF run assms(2) mock_sound mock_judges_groups [OF groups]]
      mock_for_groups [OF groups] by blast
qed

text \<open>The offline provider answers every well-formed request, and validly: a probability in
  [0,1] or one of the candidates, so no query fails because of it.\<close>

theorem mock_answers_validly:
  assumes "well_formed_request rq" and "length (rq_choices rq) < 2 ^ 64"
  shows "\<exists>r. mock_judge_result rq = Inr r \<and> valid_answer (rq_kind rq) (rq_choices rq) r"
  using assms by (intro mock_judge_valid) (auto simp: well_formed_request_def)

section \<open>Progress\<close>

text \<open>C7: Running groups one by one never blocks when the query is running, a request slot is free and
  every registered entry is completed: the call returns, whatever the provider does, and leaves the
  runtime in that condition again, so its slot is given back and its entries are completed on every
  path, errors included.\<close>

theorem execute_groups_returns:
  assumes "ready (el_max_inflight limits) (el_query_scope limits) s"
  shows "\<exists>r s' w'. execute_groups groups clock provider host_ops limits policy (s, w) = Some (r, s', w')
    \<and> ready (el_max_inflight limits) (el_query_scope limits) s'"
  using assms execute_each_returns [of groups "\<lambda>_. True" provider limits policy "\<lambda>_. True" s clock "[]" w]
  by (simp add: execute_groups_def)

text \<open>C34: A wait on a shared entry returns exactly when the other threads eventually complete the entry
  or cancel the query, and then it returns the completed result, or the cancellation error when the
  query was cancelled first.\<close>

theorem wait_returns_iff:
  "((\<exists>y. wait others e c s = Some y)
      \<longleftrightarrow> (\<exists>n. qh_slots ((others ^^ n) s) e \<noteq> None \<or> qh_flags ((others ^^ n) s) c))
   \<and> (\<forall>y. wait others e c s = Some y \<longrightarrow> wait_outcome e c (fst y) (snd y))"
proof (intro conjI iffI allI impI)
  assume "\<exists>y. wait others e c s = Some y"
  then obtain y where "wait others e c s = Some y" ..
  from wait_steps [OF this] obtain n where "wait_outcome e c (fst y) ((others ^^ n) s)" by auto
  then show "\<exists>n. qh_slots ((others ^^ n) s) e \<noteq> None \<or> qh_flags ((others ^^ n) s) c"
    by (intro exI [of _ n]) (auto simp: wait_outcome_def split: option.splits)
next
  assume "\<exists>n. qh_slots ((others ^^ n) s) e \<noteq> None \<or> qh_flags ((others ^^ n) s) c"
  then show "\<exists>y. wait others e c s = Some y" using wait_returns by fastforce
next
  fix y assume "wait others e c s = Some y"
  from wait_steps [OF this] show "wait_outcome e c (fst y) (snd y)" by blast
qed

section \<open>Witnesses\<close>

lemma sample_identities: "\<forall>g \<in> set sample_groups. \<exists>c. jg_identity g = new_identity (jg_request g) c"
  using sample_groups_identities by blast

theorem execute_groups_only_valid_answers_witness:
  "\<exists>out s' w' vs. execute_groups sample_groups tick mock_provider host_ops sample_limits None (sample_runtime, 0)
       = Some (Inr out, s', w') \<and> out = expand sample_groups vs"
proof -
  obtain out s' w' where run: "execute_groups sample_groups tick mock_provider host_ops sample_limits None
      (sample_runtime, 0) = Some (Inr out, s', w')" using sample_single_run by blast
  show ?thesis
    using run execute_groups_only_valid_answers [OF run sample_inv sample_identities] by blast
qed

theorem execute_batch_groups_only_valid_answers_witness:
  "\<exists>out s' w' vs. execute_batch_groups sample_groups tick mock_provider host_ops 8 sample_limits None (sample_runtime, 0)
       = Some (Inr out, s', w') \<and> mset out = mset (expand sample_groups vs)"
proof -
  obtain out s' w' where run: "execute_batch_groups sample_groups tick mock_provider host_ops 8 sample_limits None
      (sample_runtime, 0) = Some (Inr out, s', w')" using sample_batch_run by blast
  show ?thesis
    using run execute_batch_groups_only_valid_answers [OF run sample_inv sample_identities] by blast
qed

theorem optimized_results_witness:
  "\<exists>out s' w' vs. execute_batch_groups sample_groups tick mock_provider host_ops 8 sample_limits None (sample_runtime, 0)
       = Some (Inr out, s', w') \<and> map Inr vs = map (\<lambda>g. mock_judge_result (jg_request g)) sample_groups"
proof -
  obtain out s' w' where run: "execute_batch_groups sample_groups tick mock_provider host_ops 8 sample_limits None (sample_runtime, 0)
      = Some (Inr out, s', w')" using sample_batch_run by blast
  show ?thesis
    using run optimized_results_equal_direct_answers [OF disjI2 [OF run] sample_inv sample_identities] by blast
qed

lemma stable_tick: "stable_clock tick (\<lambda>w. True)"
  by (simp add: stable_clock_def)

text \<open>A world that logs the size of every call: no call carries more than the configured limit.\<close>

definition logging_mock :: "(nat \<times> nat list) provider" where
  "logging_mock = mock_provider
     \<lparr>p_judge_with_metadata := (\<lambda>request (t, log). (mock_judge_with_metadata request, (t, log @ [1]))),
      p_judge_many := (\<lambda>requests (t, log). (mock_judge_many requests, (t, log @ [length requests])))\<rparr>"

definition tick_log :: "nat \<times> nat list \<Rightarrow> instant \<times> (nat \<times> nat list)" where
  "tick_log w = (fst w, (Suc (fst w), snd w))"

theorem batch_calls_witness:
  "\<exists>out s w. execute_batch_groups sample_groups tick_log logging_mock host_ops 8 sample_limits None
       (sample_runtime, (0, [])) = Some (Inr out, s, w)
     \<and> length (snd w) = 1 \<and> (\<forall>n \<in> set (snd w). 0 < n \<and> n \<le> 8)"
proof -
  have "case execute_batch_groups sample_groups tick_log logging_mock host_ops 8 sample_limits None
      (sample_runtime, (0, [])) of Some (Inr out, s, w) \<Rightarrow> length (snd w) = 1 | _ \<Rightarrow> False" by code_simp
  from run_ok [OF this] obtain out s w where y: "execute_batch_groups sample_groups tick_log logging_mock
      host_ops 8 sample_limits None (sample_runtime, (0, [])) = Some (Inr out, s, w)" "length (snd w) = 1" by blast
  have "(\<lambda>w. \<forall>n \<in> set (snd w). 0 < n \<and> n \<le> 8) w"
    by (rule batch_calls_are_admissible [OF y(1)])
      (auto simp: stable_clock_def tick_log_def logging_mock_def admissible_batch_def batch_limit_def
        mock_provider_def mock_capabilities_def)
  then show ?thesis using y by blast
qed

theorem single_calls_witness:
  "\<exists>out s w. execute_groups sample_groups tick_log logging_mock host_ops sample_limits None
       (sample_runtime, (0, [])) = Some (Inr out, s, w)
     \<and> length (snd w) = 1 \<and> (\<forall>n \<in> set (snd w). n = 1)"
proof -
  have "case execute_groups sample_groups tick_log logging_mock host_ops sample_limits None
      (sample_runtime, (0, [])) of Some (Inr out, s, w) \<Rightarrow> length (snd w) = 1 | _ \<Rightarrow> False" by code_simp
  from run_ok [OF this] obtain out s w where y: "execute_groups sample_groups tick_log logging_mock
      host_ops sample_limits None (sample_runtime, (0, [])) = Some (Inr out, s, w)" "length (snd w) = 1" by blast
  have "(\<lambda>w. \<forall>n \<in> set (snd w). n = 1) w"
    by (rule single_calls_are_admissible [OF y(1)])
      (auto simp: stable_clock_def tick_log_def logging_mock_def)
  then show ?thesis using y by blast
qed

theorem execute_groups_returns_witness:
  "\<exists>r s' w'. execute_groups sample_groups tick mock_provider host_ops sample_limits None (sample_runtime, 0)
     = Some (r, s', w')"
  using execute_groups_returns [of sample_limits sample_runtime sample_groups tick mock_provider None 0] sample_ready
  by (auto simp: sample_limits_def)

theorem wait_returns_witness:
  "wait id 0 0 (sample_runtime\<lparr>qh_slots := (\<lambda>_. Some (Inr (Choice ''yes'')))\<rparr>) \<noteq> None"
  using wait_returns_iff [of id 0 0 "sample_runtime\<lparr>qh_slots := (\<lambda>_. Some (Inr (Choice ''yes'')))\<rparr>"]
  by (auto intro: exI [of _ 0])

end
